(* ===== verification/Prelude.thy ===== *)
theory Prelude
  imports Main "HOL-Library.Word" "HOL-Library.Multiset"
begin

text \<open>
  Shared ground of the development.  C error returns become values of \<open>errno\<close> on the left of a
  sum, an \<open>OSMO_ASSERT()\<close> that fails becomes \<open>None\<close>, and a C array with an element counter becomes
  a list of fixed length together with a \<open>nat\<close>.  The two index loops the sources use to close or to
  open a gap in such an array (\<open>sdp_audio_codecs_remove()\<close>, \<open>csd_bs_list_remove()\<close>,
  \<open>sdp_audio_codecs_select()\<close>) are defined here once, with the equations that say what they do.
\<close>

named_theorems array_simps \<open>equations of the array loops\<close>
named_theorems wf_intros \<open>preservation of the well-formedness invariants\<close>

datatype errno = EINVAL | ENOENT | ENOSPC | ENOTSUP | ENODEV | ERANGE

type_synonym 'a result = "errno + 'a"

abbreviation is_ok :: "'a result \<Rightarrow> bool" where
  "is_ok r \<equiv> (case r of Inl _ \<Rightarrow> False | Inr _ \<Rightarrow> True)"

text \<open>The sign of a three-way comparison, as \<open>OSMO_CMP()\<close> and the C string comparisons give it.\<close>

definition cmp3 :: "nat \<Rightarrow> nat \<Rightarrow> int" where
  "cmp3 a b = (if a < b then - 1 else if b < a then 1 else 0)"

fun c_strcmp :: "string \<Rightarrow> string \<Rightarrow> int" where
  "c_strcmp [] [] = 0"
| "c_strcmp [] (y # ys) = - 1"
| "c_strcmp (x # xs) [] = 1"
| "c_strcmp (x # xs) (y # ys) =
     (if x = y then c_strcmp xs ys else cmp3 (of_char x) (of_char y))"

text \<open>\<open>strncmp(a, b, n)\<close> compares at most the first \<open>n\<close> characters.\<close>

definition c_strncmp :: "nat \<Rightarrow> string \<Rightarrow> string \<Rightarrow> int" where
  "c_strncmp n a b = c_strcmp (take n a) (take n b)"

text \<open>\<open>OSMO_STRLCPY_ARRAY()\<close> into an array of \<open>n\<close> bytes keeps at most \<open>n - 1\<close> characters.\<close>

definition strlcpy :: "nat \<Rightarrow> string \<Rightarrow> string" where
  "strlcpy n s = take (n - 1) s"

text \<open>
  \<open>close_gap xs i n\<close>: for every index from \<open>i\<close> below \<open>n\<close>, copy the next entry one place down.
  \<open>open_gap xs k\<close>: from index \<open>k - 1\<close> down to 0, copy the entry one place up.
\<close>

function close_gap :: "'a list \<Rightarrow> nat \<Rightarrow> nat \<Rightarrow> 'a list" where
  "close_gap xs i n = (if i < n then close_gap (xs[i := xs ! Suc i]) (Suc i) n else xs)"
  by pat_completeness auto
termination
  by (relation "measure (\<lambda>(xs, i, n). n - i)") auto

fun open_gap :: "'a list \<Rightarrow> nat \<Rightarrow> 'a list" where
  "open_gap xs 0 = xs"
| "open_gap xs (Suc k) = open_gap (xs[Suc k := xs ! k]) k"

declare close_gap.simps [simp del]

text \<open>The pointer a search loop returns: the first index whose entry satisfies \<open>P\<close>.\<close>

primrec first_idx :: "('a \<Rightarrow> bool) \<Rightarrow> 'a list \<Rightarrow> nat option" where
  "first_idx P [] = None"
| "first_idx P (x # xs) = (if P x then Some 0 else map_option Suc (first_idx P xs))"

text \<open>The reference operation of \<open>sdp_audio_codecs_select()\<close>: move the entry at \<open>k\<close> to the front.\<close>

definition move_to_front :: "nat \<Rightarrow> 'a list \<Rightarrow> 'a list" where
  "move_to_front k xs = xs ! k # take k xs @ drop (Suc k) xs"

lemma cmp3_zero_iff [simp]: "cmp3 a b = 0 \<longleftrightarrow> a = b"
  by (auto simp: cmp3_def)

lemma cmp3_swap: "cmp3 b a = - cmp3 a b"
  by (auto simp: cmp3_def)

lemma c_strcmp_zero_iff [simp]: "c_strcmp a b = 0 \<longleftrightarrow> a = b"
  by (induction a b rule: c_strcmp.induct) auto

lemma c_strcmp_swap: "c_strcmp b a = - c_strcmp a b"
  by (induction a b rule: c_strcmp.induct) (auto simp: cmp3_def)

lemma c_strncmp_zero_iff: "c_strncmp n a b = 0 \<longleftrightarrow> take n a = take n b"
  by (simp add: c_strncmp_def)

lemma c_strncmp_swap: "c_strncmp n b a = - c_strncmp n a b"
  unfolding c_strncmp_def by (rule c_strcmp_swap)

lemma length_strlcpy: "0 < n \<Longrightarrow> length (strlcpy n s) < n"
  by (auto simp: strlcpy_def)

lemma length_close_gap [simp]: "length (close_gap xs i n) = length xs"
proof (induction xs i n rule: close_gap.induct)
  case (1 xs i n)
  then show ?case
    by (subst close_gap.simps) simp
qed

lemma length_open_gap [simp]: "length (open_gap xs k) = length xs"
  by (induction xs k rule: open_gap.induct) auto

lemma close_gap_eq [array_simps]:
  "i \<le> n \<Longrightarrow> n < length xs \<Longrightarrow>
     close_gap xs i n = take i xs @ take (n - i) (drop (Suc i) xs) @ drop n xs"
proof (induction xs i n rule: close_gap.induct)
  case (1 xs i n)
  show ?case
  proof (cases "i < n")
    case True
    let ?ys = "xs[i := xs ! Suc i]"
    have "close_gap xs i n = take (Suc i) ?ys @ take (n - Suc i) (drop (Suc (Suc i)) ?ys) @ drop n ?ys"
      using True 1 by (subst close_gap.simps) simp
    moreover have "take (Suc i) ?ys = take i xs @ [xs ! Suc i]"
      using True "1.prems" by (simp add: take_Suc_conv_app_nth)
    moreover have "drop (Suc i) xs = xs ! Suc i # drop (Suc (Suc i)) xs"
      using True "1.prems" by (simp add: Cons_nth_drop_Suc)
    moreover have "n - i = Suc (n - Suc i)" using True by simp
    ultimately show ?thesis using True by simp
  next
    case False
    with "1.prems" show ?thesis by (subst close_gap.simps) simp
  qed
qed

lemma open_gap_eq [array_simps]:
  "k < length xs \<Longrightarrow> open_gap xs k = (if k = 0 then xs else hd xs # take k xs @ drop (Suc k) xs)"
proof (induction k arbitrary: xs)
  case 0
  then show ?case by simp
next
  case (Suc k)
  let ?ys = "xs[Suc k := xs ! k]"
  have take_k: "take (Suc k) xs = take k xs @ [xs ! k]"
    using Suc.prems by (simp add: take_Suc_conv_app_nth)
  have drop_k: "drop (Suc k) ?ys = xs ! k # drop (Suc (Suc k)) xs"
    using Suc.prems by (simp add: Cons_nth_drop_Suc [symmetric])
  show ?case
  proof (cases "k = 0")
    case True
    with Suc.prems drop_k show ?thesis by (cases xs) auto
  next
    case False
    moreover have "hd ?ys = hd xs" using Suc.prems by (cases xs) auto
    ultimately show ?thesis using Suc take_k drop_k by simp
  qed
qed

lemma open_gap_front [array_simps]:
  assumes "k < length xs"
  shows "(open_gap xs k)[0 := xs ! k] = move_to_front k xs"
proof (cases "k = 0")
  case True
  with assms show ?thesis by (cases xs) (auto simp: move_to_front_def)
next
  case False
  with assms show ?thesis by (simp add: array_simps move_to_front_def)
qed

lemma foldl_invariant:
  "P s \<Longrightarrow> (\<And>s x. x \<in> set xs \<Longrightarrow> P s \<Longrightarrow> P (f s x)) \<Longrightarrow> P (foldl f s xs)"
  by (induction xs arbitrary: s) auto

lemma first_idx_None_iff: "first_idx P xs = None \<longleftrightarrow> (\<forall>x\<in>set xs. \<not> P x)"
  by (induction xs) auto

lemma first_idx_SomeD:
  "first_idx P xs = Some i \<Longrightarrow> i < length xs \<and> P (xs ! i) \<and> (\<forall>j<i. \<not> P (xs ! j))"
proof (induction xs arbitrary: i)
  case Nil
  then show ?case by simp
next
  case (Cons x xs)
  then show ?case
    by (auto split: if_splits simp: nth_Cons split: nat.splits)
qed

lemma first_idx_find: "map_option ((!) xs) (first_idx P xs) = find P xs"
  by (induction xs) (auto simp: option.map_comp comp_def)

lemma first_idx_cong: "(\<And>x. x \<in> set xs \<Longrightarrow> P x = Q x) \<Longrightarrow> first_idx P xs = first_idx Q xs"
  by (induction xs) auto

lemma take_move_to_front:
  assumes "k < n" and "n \<le> length xs"
  shows "take n (move_to_front k xs) = move_to_front k (take n xs)"
proof -
  obtain m where "n = Suc m" using assms(1) by (cases n) auto
  moreover have "k \<le> m" using assms(1) \<open>n = Suc m\<close> by simp
  ultimately show ?thesis using assms(2) by (simp add: move_to_front_def drop_take min.absorb2)
qed

lemma mset_move_to_front: "k < length xs \<Longrightarrow> mset (move_to_front k xs) = mset xs"
  by (simp add: move_to_front_def union_code [symmetric] flip: mset_append)
     (metis add_mset_add_single append_take_drop_id Cons_nth_drop_Suc mset.simps(2) mset_append union_mset_add_mset_right)

end
