(* ===== verification/Gsm_Types.thy ===== *)
theory Gsm_Types
  imports Prelude
begin

text \<open>
  The libosmocore protocol structs the media code reads and writes, cut down to the members the
  sources use: \<open>struct gsm_mncc_bearer_cap\<close>, \<open>struct gsm0808_channel_type\<close>,
  \<open>struct gsm0808_speech_codec\<close> and \<open>enum osmo_rat_type\<close>.  Only data is declared here, no code of
  that library.  Enumerators the sources name are constructors of the same name without the common
  prefix; every other value of an enumeration is kept apart by an \<open>OTHER\<close> constructor.  The
  constructors \<open>RA_NONE\<close>, \<open>IR_UNSET\<close> and \<open>PERM_UNSET\<close> are the zero values the sources test for.
\<close>

datatype bcap_itcap = ITCAP_SPEECH | ITCAP_UNR_DIG_INF | ITCAP_3k1_AUDIO | ITCAP_FAX_G3 | ITCAP_OTHER nat

datatype bcap_ra = RA_NONE | RA_V110_X30 | RA_OTHER nat

datatype bcap_sig_access = SA_UNSET | SA_I440_I450 | SA_OTHER nat

datatype bcap_transp = TR_TRANSP | TR_RLP | TR_TR_PREF | TR_RLP_PREF | TR_OTHER nat

datatype bcap_parity = PAR_ODD | PAR_NONE | PAR_OTHER nat

datatype bcap_modem_type = MT_NONE | MT_OTHER nat

datatype bcap_user_rate = UR_300 | UR_1200 | UR_2400 | UR_4800 | UR_9600 | UR_OTHER nat

datatype bcap_interm_rate = IR_UNSET | IR_8k | IR_16k | IR_OTHER nat

datatype bcap_rrq = RRQ_FR_ONLY | RRQ_DUAL_FR | RRQ_OTHER nat

record bcap_data =
  rate_adaption :: bcap_ra
  sig_access :: bcap_sig_access
  async :: bool
  bc_transp :: bcap_transp
  nr_data_bits :: nat
  parity :: bcap_parity
  nr_stop_bits :: nat
  modem_type :: bcap_modem_type
  user_rate :: bcap_user_rate
  interm_rate :: bcap_interm_rate

text \<open>\<open>speech_ver\<close> is the C array: it ends at the first entry \<open>-1\<close>.\<close>

record bearer_cap =
  transfer :: bcap_itcap
  radio :: bcap_rrq
  speech_ver :: "int list"
  bc_data :: bcap_data

datatype chan_indctr = CHAN_SPEECH | CHAN_DATA

datatype ch_rate_type =
    SPEECH_FULL_BM | SPEECH_HALF_LM | SPEECH_FULL_PREF | SPEECH_HALF_PREF
  | DATA_FULL_BM | DATA_FULL_PREF | RATE_TYPE_UNSET

datatype data_rate =
    DATA_RATE_TRANSP_600 | DATA_RATE_TRANSP_1k2 | DATA_RATE_TRANSP_2k4 | DATA_RATE_TRANSP_4k8
  | DATA_RATE_TRANSP_9k6 | DATA_RATE_NON_TRANSP_6k0 | DATA_RATE_NON_TRANSP_12k0 | DATA_RATE_UNSET

datatype perm_speech =
    PERM_UNSET | PERM_FR1 | PERM_FR2 | PERM_FR3 | PERM_FR4 | PERM_FR5
  | PERM_HR1 | PERM_HR2 | PERM_HR3 | PERM_HR4 | PERM_HR6

record channel_type =
  ch_indctr :: chan_indctr
  ch_rate_type :: ch_rate_type
  perm_spch :: "perm_speech list"
  data_transparent :: bool
  data_rate :: data_rate
  data_rate_allowed :: "8 word"
  data_rate_allowed_is_set :: bool

datatype speech_codec_type = SCT_FR1 | SCT_FR2 | SCT_FR3 | SCT_FR5 | SCT_HR1 | SCT_HR3 | SCT_HR4 | SCT_CSD | SCT_OTHER nat

record speech_codec =
  sc_fi :: bool
  sc_pi :: bool
  sc_type :: speech_codec_type
  sc_cfg :: "16 word"

datatype rat_type = RAT_UNKNOWN | RAT_GERAN_A | RAT_UTRAN_IU | RAT_EUTRAN_SGS

text \<open>Decimal printing, as the \<open>%u\<close> and \<open>%d\<close> conversions of \<open>snprintf()\<close> do it for values >= 0.\<close>

definition digit_char :: "nat \<Rightarrow> char" where
  "digit_char d = char_of (48 + d)"

fun dec_str :: "nat \<Rightarrow> string" where
  "dec_str n = (if n < 10 then [digit_char n] else dec_str (n div 10) @ [digit_char (n mod 10)])"

declare dec_str.simps [simp del]

end
