(* ===== verification/Csd_Bs.thy ===== *)
theory Csd_Bs
  imports Gsm_Types
begin

text \<open>
  Circuit switched data bearer services, \<open>src/src/libmsc/csd_bs.c\<close> and its header.  A
  \<open>csd_bs_list\<close> is an array of \<open>ARRAY_SIZE(list->bs)\<close> entries with a counter that the code does not
  trust: every walk is bounded by \<open>csd_bs_list_n()\<close>.  \<open>csd_items\<close> reads the list a caller sees, and
  the lemmas show each operation as a list operation on it, also when the counter is corrupt.
  Objects are non-NULL here; the functions whose result is observable for a NULL list take an
  option.
\<close>

datatype csd_bs =
    CSD_BS_NONE
  | CSD_BS_21_T_V110_0k3 | CSD_BS_22_T_V110_1k2 | CSD_BS_24_T_V110_2k4 | CSD_BS_25_T_V110_4k8
  | CSD_BS_26_T_V110_9k6
  | CSD_BS_21_NT_V110_0k3 | CSD_BS_22_NT_V110_1k2 | CSD_BS_24_NT_V110_2k4 | CSD_BS_25_NT_V110_4k8
  | CSD_BS_26_NT_V110_9k6
  | CSD_BS_31_T_V110_1k2 | CSD_BS_32_T_V110_2k4 | CSD_BS_33_T_V110_4k8 | CSD_BS_34_T_V110_9k6
  | CSD_BS_MAX

text \<open>The numeric value of an enumerator.\<close>

primrec csd_bs_num :: "csd_bs \<Rightarrow> nat" where
  "csd_bs_num CSD_BS_NONE = 0"
| "csd_bs_num CSD_BS_21_T_V110_0k3 = 1"
| "csd_bs_num CSD_BS_22_T_V110_1k2 = 2"
| "csd_bs_num CSD_BS_24_T_V110_2k4 = 3"
| "csd_bs_num CSD_BS_25_T_V110_4k8 = 4"
| "csd_bs_num CSD_BS_26_T_V110_9k6 = 5"
| "csd_bs_num CSD_BS_21_NT_V110_0k3 = 6"
| "csd_bs_num CSD_BS_22_NT_V110_1k2 = 7"
| "csd_bs_num CSD_BS_24_NT_V110_2k4 = 8"
| "csd_bs_num CSD_BS_25_NT_V110_4k8 = 9"
| "csd_bs_num CSD_BS_26_NT_V110_9k6 = 10"
| "csd_bs_num CSD_BS_31_T_V110_1k2 = 11"
| "csd_bs_num CSD_BS_32_T_V110_2k4 = 12"
| "csd_bs_num CSD_BS_33_T_V110_4k8 = 13"
| "csd_bs_num CSD_BS_34_T_V110_9k6 = 14"
| "csd_bs_num CSD_BS_MAX = 15"

definition csd_bs_valid :: "csd_bs \<Rightarrow> bool" where
  "csd_bs_valid b \<longleftrightarrow> csd_bs_num CSD_BS_NONE < csd_bs_num b \<and> csd_bs_num b < csd_bs_num CSD_BS_MAX"

record csd_bs_list =
  bs_count :: nat
  bs :: "csd_bs list"

text \<open>\<open>(struct csd_bs_list){}\<close>\<close>

definition csd_bs_list_zero :: csd_bs_list where
  "csd_bs_list_zero = \<lparr>bs_count = 0, bs = replicate (csd_bs_num CSD_BS_MAX) CSD_BS_NONE\<rparr>"

definition csd_bs_list_is_sane :: "csd_bs_list option \<Rightarrow> bool" where
  "csd_bs_list_is_sane lo = (case lo of None \<Rightarrow> False
     | Some l \<Rightarrow> 0 < bs_count l \<and> bs_count l \<le> csd_bs_num CSD_BS_MAX)"

definition csd_bs_list_n :: "csd_bs_list option \<Rightarrow> nat" where
  "csd_bs_list_n lo = (case lo of None \<Rightarrow> 0
     | Some l \<Rightarrow> if bs_count l > length (bs l) then length (bs l) else bs_count l)"

definition csd_bs_list_clamp :: "csd_bs_list \<Rightarrow> csd_bs_list \<times> nat" where
  "csd_bs_list_clamp l =
     (let n = csd_bs_list_n (Some l) in (if bs_count l \<noteq> n then l\<lparr>bs_count := n\<rparr> else l, n))"

record csd_bs_map =
  bsm_num :: nat
  bsm_async :: bool
  bsm_transp :: bool
  bsm_ra :: bcap_ra
  bsm_rate :: nat

definition bs_entry :: "nat \<Rightarrow> bool \<Rightarrow> bool \<Rightarrow> nat \<Rightarrow> csd_bs_map" where
  "bs_entry num as tr r = \<lparr>bsm_num = num, bsm_async = as, bsm_transp = tr, bsm_ra = RA_V110_X30, bsm_rate = r\<rparr>"

text \<open>
  The table; index 0 is zero initialised.  There is no entry at \<open>CSD_BS_MAX\<close>: every access is guarded
  by \<open>csd_bs_valid()\<close>, and the value given here is never read.
\<close>

primrec bs_map :: "csd_bs \<Rightarrow> csd_bs_map" where
  "bs_map CSD_BS_NONE = \<lparr>bsm_num = 0, bsm_async = False, bsm_transp = False, bsm_ra = RA_NONE, bsm_rate = 0\<rparr>"
| "bs_map CSD_BS_21_T_V110_0k3 = bs_entry 21 True True 300"
| "bs_map CSD_BS_22_T_V110_1k2 = bs_entry 22 True True 1200"
| "bs_map CSD_BS_24_T_V110_2k4 = bs_entry 24 True True 2400"
| "bs_map CSD_BS_25_T_V110_4k8 = bs_entry 25 True True 4800"
| "bs_map CSD_BS_26_T_V110_9k6 = bs_entry 26 True True 9600"
| "bs_map CSD_BS_21_NT_V110_0k3 = bs_entry 21 True False 300"
| "bs_map CSD_BS_22_NT_V110_1k2 = bs_entry 22 True False 1200"
| "bs_map CSD_BS_24_NT_V110_2k4 = bs_entry 24 True False 2400"
| "bs_map CSD_BS_25_NT_V110_4k8 = bs_entry 25 True False 4800"
| "bs_map CSD_BS_26_NT_V110_9k6 = bs_entry 26 True False 9600"
| "bs_map CSD_BS_31_T_V110_1k2 = bs_entry 31 False True 1200"
| "bs_map CSD_BS_32_T_V110_2k4 = bs_entry 32 False True 2400"
| "bs_map CSD_BS_33_T_V110_4k8 = bs_entry 33 False True 4800"
| "bs_map CSD_BS_34_T_V110_9k6 = bs_entry 34 False True 9600"
| "bs_map CSD_BS_MAX = bs_entry 0 False False 0"

definition csd_bs_is_transp :: "csd_bs \<Rightarrow> bool" where
  "csd_bs_is_transp b = (if \<not> csd_bs_valid b then False else bsm_transp (bs_map b))"

text \<open>
  The string a large enough buffer receives.  \<open>ra_num\<close> is the numeric value of the rate adaption
  enumerators of libosmocore, which the \<open>"-RA=%d"\<close> suffix prints.
\<close>

definition csd_bs_to_str :: "(bcap_ra \<Rightarrow> nat) \<Rightarrow> csd_bs \<Rightarrow> string" where
  "csd_bs_to_str ra_num b =
     (if \<not> csd_bs_valid b then ''BS?''
      else let m = bs_map b in
        ''BS'' @ dec_str (bsm_num m) @ (if bsm_transp m then ''T'' else ''NT'')
        @ (if bsm_ra m \<noteq> RA_V110_X30 then ''-RA='' @ dec_str (ra_num (bsm_ra m)) else ''''))"

definition csd_bs_list_to_str :: "(bcap_ra \<Rightarrow> nat) \<Rightarrow> csd_bs_list \<Rightarrow> string" where
  "csd_bs_list_to_str ra_num l =
     (let n = csd_bs_list_n (Some l) in
      (if n = 0 then ''(no-bearer-services)'' else '''')
      @ concat (map (\<lambda>i. (if i \<noteq> 0 then '','' else '''') @ csd_bs_to_str ra_num (bs l ! i)) [0..<n]))"

definition csd_bs_to_gsm0808_data_rate_transp :: "csd_bs \<Rightarrow> (data_rate \<times> ch_rate_type) result" where
  "csd_bs_to_gsm0808_data_rate_transp b =
     (if \<not> csd_bs_valid b then Inl EINVAL
      else let r = bsm_rate (bs_map b) in
        if r = 300 then Inr (DATA_RATE_TRANSP_600, DATA_FULL_PREF)
        else if r = 1200 then Inr (DATA_RATE_TRANSP_1k2, DATA_FULL_PREF)
        else if r = 2400 then Inr (DATA_RATE_TRANSP_2k4, DATA_FULL_PREF)
        else if r = 4800 then Inr (DATA_RATE_TRANSP_4k8, DATA_FULL_PREF)
        else if r = 9600 then Inr (DATA_RATE_TRANSP_9k6, DATA_FULL_BM)
        else Inl EINVAL)"

definition csd_bs_to_gsm0808_data_rate_non_transp :: "csd_bs \<Rightarrow> (data_rate \<times> ch_rate_type) result" where
  "csd_bs_to_gsm0808_data_rate_non_transp b =
     (if \<not> csd_bs_valid b then Inl EINVAL
      else let r = bsm_rate (bs_map b) in
        if r < 6000 then Inr (DATA_RATE_NON_TRANSP_6k0, DATA_FULL_PREF)
        else if r < 12000 then Inr (DATA_RATE_NON_TRANSP_12k0, DATA_FULL_BM)
        else Inl EINVAL)"

text \<open>\<open>a6\<close> and \<open>a12\<close> are the bits \<open>GSM0808_DATA_RATE_NON_TRANSP_ALLOWED_6k0\<close> and \<open>_12k0\<close>.\<close>

definition csd_bs_to_gsm0808_data_rate_non_transp_allowed ::
    "8 word \<Rightarrow> 8 word \<Rightarrow> csd_bs \<Rightarrow> (8 word) result" where
  "csd_bs_to_gsm0808_data_rate_non_transp_allowed a6 a12 b =
     (if \<not> csd_bs_valid b then Inl EINVAL
      else let r = bsm_rate (bs_map b) in
        if r < 6000 then Inr a6 else if r < 12000 then Inr a12 else Inl EINVAL)"

text \<open>\<open>cap\<close> is a pointer that may be NULL.\<close>

definition csd_bs_from_bearer_cap :: "bearer_cap option \<Rightarrow> bool \<Rightarrow> csd_bs" where
  "csd_bs_from_bearer_cap capo tr = (case capo of None \<Rightarrow> CSD_BS_NONE | Some cap \<Rightarrow>
     (let ra0 = rate_adaption (bc_data cap);
          rate = user_rate (bc_data cap);
          as = async (bc_data cap);
          ra = (if interm_rate (bc_data cap) \<noteq> IR_UNSET \<and> ra0 = RA_NONE then RA_V110_X30 else ra0)
      in if ra = RA_V110_X30 \<and> as \<and> tr then
           (case rate of UR_300 \<Rightarrow> CSD_BS_21_T_V110_0k3 | UR_1200 \<Rightarrow> CSD_BS_22_T_V110_1k2
             | UR_2400 \<Rightarrow> CSD_BS_24_T_V110_2k4 | UR_4800 \<Rightarrow> CSD_BS_25_T_V110_4k8
             | UR_9600 \<Rightarrow> CSD_BS_26_T_V110_9k6 | UR_OTHER _ \<Rightarrow> CSD_BS_NONE)
         else if ra = RA_V110_X30 \<and> as \<and> \<not> tr then
           (case rate of UR_300 \<Rightarrow> CSD_BS_21_NT_V110_0k3 | UR_1200 \<Rightarrow> CSD_BS_22_NT_V110_1k2
             | UR_2400 \<Rightarrow> CSD_BS_24_NT_V110_2k4 | UR_4800 \<Rightarrow> CSD_BS_25_NT_V110_4k8
             | UR_9600 \<Rightarrow> CSD_BS_26_NT_V110_9k6 | UR_OTHER _ \<Rightarrow> CSD_BS_NONE)
         else if ra = RA_V110_X30 \<and> \<not> as \<and> tr then
           (case rate of UR_1200 \<Rightarrow> CSD_BS_31_T_V110_1k2 | UR_2400 \<Rightarrow> CSD_BS_32_T_V110_2k4
             | UR_4800 \<Rightarrow> CSD_BS_33_T_V110_4k8 | UR_9600 \<Rightarrow> CSD_BS_34_T_V110_9k6
             | _ \<Rightarrow> CSD_BS_NONE)
         else CSD_BS_NONE))"

definition csd_bs_list_has_bs :: "csd_bs_list option \<Rightarrow> csd_bs \<Rightarrow> bool" where
  "csd_bs_list_has_bs lo b = (case lo of None \<Rightarrow> False
     | Some l \<Rightarrow> list_ex (\<lambda>i. bs l ! i = b) [0..<csd_bs_list_n lo])"

definition csd_bs_list_add_bs :: "csd_bs_list \<Rightarrow> csd_bs \<Rightarrow> csd_bs_list" where
  "csd_bs_list_add_bs l b =
     (if \<not> csd_bs_valid b then l
      else let (l', n) = csd_bs_list_clamp l in
        if list_ex (\<lambda>i. bs l' ! i = b) [0..<n] then l'
        else if n \<ge> length (bs l') then l'
        else l'\<lparr>bs := (bs l')[n := b], bs_count := n + 1\<rparr>)"

text \<open>The loop of \<open>csd_bs_list_remove()\<close>: array, loop index and the flag \<open>found\<close>.\<close>

function csd_remove_loop :: "csd_bs list \<Rightarrow> csd_bs \<Rightarrow> nat \<Rightarrow> nat \<Rightarrow> bool \<Rightarrow> csd_bs list \<times> bool" where
  "csd_remove_loop arr b n i found =
     (if i < n then
        let found' = (if arr ! i = b then True else found);
            arr' = (if found' \<and> i + 1 < n then arr[i := arr ! (i + 1)] else arr)
        in csd_remove_loop arr' b n (Suc i) found'
      else (arr, found))"
  by pat_completeness auto
termination
  by (relation "measure (\<lambda>(arr, b, n, i, found). n - i)") auto

declare csd_remove_loop.simps [simp del]

definition csd_bs_list_remove :: "csd_bs_list \<Rightarrow> csd_bs \<Rightarrow> csd_bs_list" where
  "csd_bs_list_remove l b =
     (let (l', n) = csd_bs_list_clamp l;
          (arr, found) = csd_remove_loop (bs l') b n 0 False
      in if found then l'\<lparr>bs := arr, bs_count := n - 1\<rparr> else l'\<lparr>bs := arr\<rparr>)"

lemma length_csd_remove_loop [simp]: "length (fst (csd_remove_loop arr b n i f)) = length arr"
  by (induction arr b n i f rule: csd_remove_loop.induct)
     (subst csd_remove_loop.simps, auto simp: Let_def)

lemma csd_remove_loop_found:
  "i \<le> n \<Longrightarrow> 0 < n \<Longrightarrow> n \<le> length arr \<Longrightarrow>
     csd_remove_loop arr b n i True = (close_gap arr i (n - 1), True)"
proof (induction arr b n i True rule: csd_remove_loop.induct)
  case (1 arr b n i)
  consider "Suc i < n" | "Suc i = n" | "n \<le> i" by linarith
  then show ?case
  proof cases
    case 1
    then have "i < n - Suc 0" by simp
    with 1 show ?thesis using "1.hyps" "1.prems"
      by (simp add: csd_remove_loop.simps [of arr b n i] close_gap.simps [of arr i "n - Suc 0"])
  next
    case 2
    then have "n = Suc i" by simp
    then show ?thesis
      by (simp add: csd_remove_loop.simps [of arr b "Suc i"] close_gap.simps [of arr i i])
  next
    case 3
    then have "\<not> i < n - Suc 0" by simp
    with 3 show ?thesis
      by (simp add: csd_remove_loop.simps [of arr b n i] close_gap.simps [of arr i "n - Suc 0"])
  qed
qed

lemma csd_remove_loop_correct:
  assumes "i \<le> n" and "n \<le> length arr" and "b \<notin> set (take i arr)"
  shows "csd_remove_loop arr b n i False = (arr', f) \<Longrightarrow>
     f = (b \<in> set (take n arr)) \<and> (f \<longrightarrow> take (n - 1) arr' = remove1 b (take n arr)) \<and>
     (\<not> f \<longrightarrow> arr' = arr)"
  using assms
proof (induction "n - i" arbitrary: i)
  case 0
  then show ?case by (auto simp: csd_remove_loop.simps)
next
  case (Suc k)
  then have i: "i < n" by simp
  have split: "take n arr = take i arr @ arr ! i # take (n - Suc i) (drop (Suc i) arr)"
    using i Suc.prems(3) id_take_nth_drop [of i "take n arr"] by (simp add: min_def drop_take)
  show ?case
  proof (cases "arr ! i = b")
    case True
    have "csd_remove_loop arr b n i False = csd_remove_loop arr b n i True"
      using True i by (simp add: csd_remove_loop.simps [of arr b n i])
    also have "\<dots> = (close_gap arr i (n - 1), True)"
      using i Suc.prems by (intro csd_remove_loop_found) auto
    finally have res: "f" "arr' = close_gap arr i (n - 1)"
      using Suc.prems(1) by auto
    have "take (n - 1) arr' = take i arr @ take (n - 1 - i) (drop (Suc i) arr)"
      using i Suc.prems(3) res(2) by (simp add: array_simps)
    with split True Suc.prems(4) res(1) show ?thesis
      by (simp add: remove1_append)
  next
    case False
    have step: "csd_remove_loop arr b n (Suc i) False = (arr', f)"
      using False i Suc.prems(1) by (simp add: csd_remove_loop.simps [of arr b n i])
    have "b \<notin> set (take (Suc i) arr)"
      using False i Suc.prems(3,4) by (simp add: take_Suc_conv_app_nth)
    with Suc.hyps Suc.prems(3) i step show ?thesis
      by (metis Suc_diff_Suc Suc_leI diff_Suc_1 nat.inject)
  qed
qed

text \<open>What a caller sees of a list, and the size of its array.\<close>

definition csd_items :: "csd_bs_list \<Rightarrow> csd_bs list" where
  "csd_items l = take (bs_count l) (bs l)"

definition csd_wf :: "csd_bs_list \<Rightarrow> bool" where
  "csd_wf l \<longleftrightarrow> length (bs l) = csd_bs_num CSD_BS_MAX"

lemma csd_clamp_simps [simp]:
  "bs (fst (csd_bs_list_clamp l)) = bs l"
  "bs_count (fst (csd_bs_list_clamp l)) = min (bs_count l) (length (bs l))"
  "snd (csd_bs_list_clamp l) = min (bs_count l) (length (bs l))"
  "csd_items (fst (csd_bs_list_clamp l)) = csd_items l"
  by (auto simp: csd_bs_list_clamp_def csd_bs_list_n_def csd_items_def Let_def)

lemma length_csd_items: "length (csd_items l) = min (length (bs l)) (bs_count l)"
  by (simp add: csd_items_def)

lemma list_ex_upt_take: "n \<le> length xs \<Longrightarrow> list_ex (\<lambda>i. xs ! i = b) [0..<n] = (b \<in> set (take n xs))"
  by (auto simp: list_ex_iff in_set_conv_nth)

lemma csd_has_bs_items [simp]: "csd_bs_list_has_bs (Some l) b \<longleftrightarrow> b \<in> set (csd_items l)"
  by (auto simp: csd_bs_list_has_bs_def csd_bs_list_n_def csd_items_def list_ex_upt_take)

lemma csd_remove_items: "csd_items (csd_bs_list_remove l b) = remove1 b (csd_items l)"
proof -
  let ?n = "min (bs_count l) (length (bs l))"
  obtain arr f where loop: "csd_remove_loop (bs l) b ?n 0 False = (arr, f)"
    by (cases "csd_remove_loop (bs l) b ?n 0 False")
  have len: "length arr = length (bs l)"
    using length_csd_remove_loop [of "bs l" b ?n 0 False] loop by simp
  have items: "csd_items l = take ?n (bs l)"
    by (auto simp: csd_items_def min_def)
  from csd_remove_loop_correct [OF _ _ _ loop]
  have "f = (b \<in> set (csd_items l))" "f \<Longrightarrow> take (?n - 1) arr = remove1 b (csd_items l)" "\<not> f \<Longrightarrow> arr = bs l"
    by (auto simp: items)
  then show ?thesis
    using loop len items
    by (cases f) (auto simp: csd_bs_list_remove_def split_def csd_items_def remove1_idem)
qed

lemma csd_remove_count:
  "bs_count (csd_bs_list_remove l b) =
     (if b \<in> set (csd_items l) then length (csd_items l) - 1 else length (csd_items l))"
  and csd_remove_bs_length: "length (bs (csd_bs_list_remove l b)) = length (bs l)"
proof -
  let ?n = "min (bs_count l) (length (bs l))"
  obtain arr f where loop: "csd_remove_loop (bs l) b ?n 0 False = (arr, f)"
    by (cases "csd_remove_loop (bs l) b ?n 0 False")
  have len: "length arr = length (bs l)"
    using length_csd_remove_loop [of "bs l" b ?n 0 False] loop by simp
  have "f = (b \<in> set (csd_items l))"
    using csd_remove_loop_correct [OF _ _ _ loop] by (auto simp: csd_items_def min_def split: if_splits)
  with loop len
  show "bs_count (csd_bs_list_remove l b) =
      (if b \<in> set (csd_items l) then length (csd_items l) - 1 else length (csd_items l))"
    and "length (bs (csd_bs_list_remove l b)) = length (bs l)"
    by (auto simp: csd_bs_list_remove_def split_def length_csd_items min.commute)
qed

lemma csd_remove_count_less:
  assumes "i < bs_count l"
  shows "bs_count (csd_bs_list_remove l (bs l ! i)) < bs_count l"
proof (cases "bs_count l \<le> length (bs l)")
  case True
  with assms have "bs l ! i \<in> set (csd_items l)"
    by (auto simp: csd_items_def in_set_conv_nth)
  with assms True show ?thesis
    by (simp add: csd_remove_count length_csd_items)
next
  case False
  with assms show ?thesis
    by (auto simp: csd_remove_count length_csd_items)
qed

lemma csd_remove_decreases:
  "i < bs_count l \<Longrightarrow> bs_count (csd_bs_list_remove l (bs l ! i)) - i < bs_count l - i"
  using csd_remove_count_less [of i l] by linarith

text \<open>The loop of \<open>csd_bs_list_intersection()\<close>, with its index \<open>i\<close>.\<close>

function csd_intersection_loop :: "csd_bs_list \<Rightarrow> csd_bs_list \<Rightarrow> nat \<Rightarrow> csd_bs_list" where
  "csd_intersection_loop dest other i =
     (if i < bs_count dest then
        if csd_bs_list_has_bs (Some other) (bs dest ! i) then csd_intersection_loop dest other (i + 1)
        else csd_intersection_loop (csd_bs_list_remove dest (bs dest ! i)) other i
      else dest)"
  by pat_completeness auto
termination
  by (relation "measure (\<lambda>(dest, other, i). bs_count dest - i)")
     (auto intro: csd_remove_decreases)

declare csd_intersection_loop.simps [simp del]

definition csd_bs_list_intersection :: "csd_bs_list \<Rightarrow> csd_bs_list \<Rightarrow> csd_bs_list" where
  "csd_bs_list_intersection dest other = csd_intersection_loop (fst (csd_bs_list_clamp dest)) other 0"

text \<open>
  \<open>csd_bs_list_to_gsm0808_channel_type()\<close>: \<open>ct\<close> is the address of the result (0 is NULL), \<open>a6\<close> and
  \<open>a12\<close> the libosmocore bits for the allowed radio interface rates.
\<close>

definition csd_allowed_rates :: "8 word \<Rightarrow> 8 word \<Rightarrow> csd_bs list \<Rightarrow> 8 word" where
  "csd_allowed_rates a6 a12 xs =
     foldl (\<lambda>acc b. if \<not> csd_bs_is_transp b then acc
              else (case csd_bs_to_gsm0808_data_rate_non_transp_allowed a6 a12 b of
                      Inl _ \<Rightarrow> acc | Inr rc \<Rightarrow> or acc rc)) 0 xs"

definition csd_bs_list_to_gsm0808_channel_type ::
    "8 word \<Rightarrow> 8 word \<Rightarrow> nat \<Rightarrow> csd_bs_list option \<Rightarrow> channel_type result" where
  "csd_bs_list_to_gsm0808_channel_type a6 a12 ct lo =
     (case lo of None \<Rightarrow> Inl EINVAL | Some l \<Rightarrow>
      if ct = 0 \<or> \<not> csd_bs_list_is_sane lo then Inl EINVAL
      else let n = csd_bs_list_n lo; b0 = bs l ! 0 in
        if n = 0 \<or> \<not> csd_bs_valid b0 then Inl EINVAL
        else let tr = csd_bs_is_transp b0 in
          (case (if tr then csd_bs_to_gsm0808_data_rate_transp b0
                 else csd_bs_to_gsm0808_data_rate_non_transp b0) of
             Inl _ \<Rightarrow> Inl EINVAL
           | Inr (rate, rtype) \<Rightarrow>
               let alw = (if \<not> tr \<and> n > 1 then csd_allowed_rates a6 a12 (map (\<lambda>i. bs l ! i) [1..<n]) else 0)
               in if ct < 0x400000 then Inl EINVAL
                  else Inr \<lparr>ch_indctr = CHAN_DATA, ch_rate_type = rtype, perm_spch = [],
                            data_transparent = tr, data_rate = rate, data_rate_allowed = alw,
                            data_rate_allowed_is_set = (alw \<noteq> 0)\<rparr>))"

definition csd_rate_to_bcap :: "nat \<Rightarrow> (bcap_user_rate \<times> bcap_interm_rate) option" where
  "csd_rate_to_bcap r =
     (if r = 300 then Some (UR_300, IR_8k)
      else if r = 1200 then Some (UR_1200, IR_8k)
      else if r = 2400 then Some (UR_2400, IR_8k)
      else if r = 4800 then Some (UR_4800, IR_8k)
      else if r = 9600 then Some (UR_9600, IR_16k)
      else None)"

definition csd_bs_set_bcap :: "bearer_cap \<Rightarrow> csd_bs \<Rightarrow> bearer_cap" where
  "csd_bs_set_bcap cap b = cap\<lparr>bc_data := (bc_data cap)\<lparr>
     rate_adaption := (if transfer cap = ITCAP_UNR_DIG_INF then RA_V110_X30 else RA_NONE),
     sig_access := SA_I440_I450,
     async := bsm_async (bs_map b),
     bc_transp := (if bsm_transp (bs_map b) then TR_TRANSP else TR_RLP),
     nr_data_bits := 8, parity := PAR_NONE, nr_stop_bits := 1, modem_type := MT_NONE\<rparr>\<rparr>"

text \<open>The loop returns after the first entry it can express; the number says whether there was one.\<close>

fun csd_to_bcap_loop :: "bearer_cap \<Rightarrow> csd_bs list \<Rightarrow> bearer_cap \<times> nat" where
  "csd_to_bcap_loop cap [] = (cap, 0)"
| "csd_to_bcap_loop cap (b # rest) =
     (if \<not> csd_bs_valid b then csd_to_bcap_loop cap rest
      else let cap' = csd_bs_set_bcap cap b in
        (case csd_rate_to_bcap (bsm_rate (bs_map b)) of
           None \<Rightarrow> csd_to_bcap_loop cap' rest
         | Some (ur, ir) \<Rightarrow>
             (cap'\<lparr>bc_data := (bc_data cap')\<lparr>user_rate := ur, interm_rate := ir\<rparr>\<rparr>, 1)))"

definition csd_bs_list_to_bearer_cap :: "bearer_cap \<Rightarrow> csd_bs_list \<Rightarrow> bearer_cap \<times> nat" where
  "csd_bs_list_to_bearer_cap cap l = csd_to_bcap_loop cap (take (csd_bs_list_n (Some l)) (bs l))"

definition csd_bs_list_from_bearer_cap :: "bearer_cap \<Rightarrow> csd_bs_list" where
  "csd_bs_list_from_bearer_cap cap =
     (let t = csd_bs_from_bearer_cap (Some cap) True; nt = csd_bs_from_bearer_cap (Some cap) False in
      (case bc_transp (bc_data cap) of
         TR_TRANSP \<Rightarrow> csd_bs_list_add_bs csd_bs_list_zero t
       | TR_RLP \<Rightarrow> csd_bs_list_add_bs csd_bs_list_zero nt
       | TR_TR_PREF \<Rightarrow> csd_bs_list_add_bs (csd_bs_list_add_bs csd_bs_list_zero t) nt
       | TR_RLP_PREF \<Rightarrow> csd_bs_list_add_bs (csd_bs_list_add_bs csd_bs_list_zero nt) t
       | TR_OTHER _ \<Rightarrow> csd_bs_list_zero))"

lemma csd_add_items:
  "csd_items (csd_bs_list_add_bs l b) =
     (if csd_bs_valid b \<and> b \<notin> set (csd_items l) \<and> length (csd_items l) < length (bs l)
      then csd_items l @ [b] else csd_items l)"
proof -
  let ?n = "min (bs_count l) (length (bs l))"
  have items: "csd_items l = take ?n (bs l)"
    by (auto simp: csd_items_def min_def)
  show ?thesis
  proof (cases "csd_bs_valid b \<and> b \<notin> set (csd_items l) \<and> ?n < length (bs l)")
    case True
    then have "csd_items (csd_bs_list_add_bs l b) = take (Suc ?n) ((bs l)[?n := b])"
      by (auto simp: csd_bs_list_add_bs_def split_def Let_def list_ex_upt_take items csd_items_def min_def)
    also have "\<dots> = take ?n (bs l) @ [b]"
      using True by (simp add: take_Suc_conv_app_nth)
    finally show ?thesis
      using True by (simp add: items)
  next
    case False
    then have "csd_bs_list_add_bs l b = l \<or> csd_bs_list_add_bs l b = fst (csd_bs_list_clamp l)"
      by (auto simp: csd_bs_list_add_bs_def split_def Let_def list_ex_upt_take items)
    then have "csd_items (csd_bs_list_add_bs l b) = csd_items l"
      by auto
    with False show ?thesis
      by (auto simp: length_csd_items)
  qed
qed

lemma csd_intersection_loop_items:
  "bs_count d \<le> length (bs d) \<Longrightarrow> i \<le> bs_count d \<Longrightarrow>
     set (take i (csd_items d)) \<subseteq> set (csd_items other) \<Longrightarrow>
     csd_items (csd_intersection_loop d other i) = filter (\<lambda>b. b \<in> set (csd_items other)) (csd_items d)"
proof (induction d other i rule: csd_intersection_loop.induct)
  case (1 d other i)
  let ?xs = "csd_items d"
  have len: "length ?xs = bs_count d"
    using "1.prems" by (simp add: csd_items_def)
  show ?case
  proof (cases "i < bs_count d")
    case False
    with "1.prems" len have "filter (\<lambda>b. b \<in> set (csd_items other)) ?xs = ?xs"
      by (auto simp: filter_id_conv)
    with False show ?thesis
      by (simp add: csd_intersection_loop.simps [of d])
  next
    case True
    have nth: "?xs ! i = bs d ! i"
      using True by (simp add: csd_items_def)
    have split: "?xs = take i ?xs @ bs d ! i # drop (Suc i) ?xs"
      using id_take_nth_drop [of i ?xs] True len nth by simp
    show ?thesis
    proof (cases "bs d ! i \<in> set (csd_items other)")
      case in_other: True
      have "set (take (Suc i) ?xs) \<subseteq> set (csd_items other)"
        using "1.prems"(3) in_other True len nth by (simp add: take_Suc_conv_app_nth)
      with "1.IH"(1) "1.prems" True in_other show ?thesis
        by (simp add: csd_intersection_loop.simps [of d])
    next
      case not_in: False
      let ?d = "csd_bs_list_remove d (bs d ! i)"
      have "bs d ! i \<notin> set (take i ?xs)"
        using not_in "1.prems"(3) by blast
      then have items: "csd_items ?d = take i ?xs @ drop (Suc i) ?xs"
        by (subst csd_remove_items, subst split) (simp add: remove1_append)
      have cnt: "bs_count ?d = bs_count d - 1"
        using split len by (simp add: csd_remove_count) (metis in_set_conv_decomp)
      have pre: "bs_count ?d \<le> length (bs ?d)" "i \<le> bs_count ?d"
          "set (take i (csd_items ?d)) \<subseteq> set (csd_items other)"
        using "1.prems" True len items cnt by (auto simp: csd_remove_bs_length)
      have "csd_items (csd_intersection_loop d other i) =
          filter (\<lambda>b. b \<in> set (csd_items other)) (csd_items ?d)"
        using "1.IH"(2) [OF True _ pre] True not_in by (simp add: csd_intersection_loop.simps [of d])
      also have "\<dots> = filter (\<lambda>b. b \<in> set (csd_items other)) ?xs"
        using arg_cong [OF split, of "filter (\<lambda>b. b \<in> set (csd_items other))"] not_in by (simp add: items)
      finally show ?thesis .
    qed
  qed
qed

lemma csd_intersection_items:
  "csd_items (csd_bs_list_intersection d other) = filter (\<lambda>b. b \<in> set (csd_items other)) (csd_items d)"
  by (simp add: csd_bs_list_intersection_def csd_intersection_loop_items)

text \<open>The counter after each operation is exact again, whatever it was before.\<close>

lemma csd_remove_count_le: "bs_count (csd_bs_list_remove l b) \<le> length (bs l)"
  by (auto simp: csd_remove_count length_csd_items)

lemma csd_intersection_loop_count:
  "bs_count d \<le> length (bs d) \<Longrightarrow>
     bs_count (csd_intersection_loop d other i) \<le> length (bs (csd_intersection_loop d other i)) \<and>
     length (bs (csd_intersection_loop d other i)) = length (bs d)"
proof (induction d other i rule: csd_intersection_loop.induct)
  case (1 d other i)
  have le: "bs_count (csd_bs_list_remove d (bs d ! i)) \<le> length (bs d)"
    by (rule csd_remove_count_le)
  show ?case
    using 1 le by (auto simp: csd_intersection_loop.simps [of d other i] csd_remove_bs_length)
qed

lemma csd_intersection_count:
  "bs_count (csd_bs_list_intersection d other) \<le> length (bs d)"
  "length (bs (csd_bs_list_intersection d other)) = length (bs d)"
  using csd_intersection_loop_count [of "fst (csd_bs_list_clamp d)" other 0]
  by (auto simp: csd_bs_list_intersection_def)

lemma csd_add_bs_length: "length (bs (csd_bs_list_add_bs l b)) = length (bs l)"
  by (auto simp: csd_bs_list_add_bs_def split_def Let_def)

lemma csd_add_count: "bs_count l \<le> length (bs l) \<Longrightarrow> bs_count (csd_bs_list_add_bs l b) \<le> length (bs l)"
  by (auto simp: csd_bs_list_add_bs_def split_def Let_def)

text \<open>
  The invariant of a list that only the operations of this component have touched: the counter is
  within the array, the entries are valid services and no service is listed twice.
\<close>

definition csd_inv :: "csd_bs_list \<Rightarrow> bool" where
  "csd_inv l \<longleftrightarrow> csd_wf l \<and> bs_count l \<le> length (bs l) \<and> distinct (csd_items l)
     \<and> (\<forall>b\<in>set (csd_items l). csd_bs_valid b)"

lemma csd_inv_zero [wf_intros]: "csd_inv csd_bs_list_zero"
  by (simp add: csd_inv_def csd_wf_def csd_bs_list_zero_def csd_items_def)

lemma csd_items_zero [simp]: "csd_items csd_bs_list_zero = []"
  by (simp add: csd_bs_list_zero_def csd_items_def)

lemma csd_inv_add [wf_intros]: "csd_inv l \<Longrightarrow> csd_inv (csd_bs_list_add_bs l b)"
  using csd_add_count [of l b]
  by (auto simp: csd_inv_def csd_wf_def csd_add_items csd_add_bs_length)

lemma csd_inv_remove [wf_intros]: "csd_inv l \<Longrightarrow> csd_inv (csd_bs_list_remove l b)"
  using csd_remove_count_le [of l b]
  by (auto simp: csd_inv_def csd_wf_def csd_remove_items csd_remove_bs_length)

lemma csd_inv_intersection [wf_intros]: "csd_inv l \<Longrightarrow> csd_inv (csd_bs_list_intersection l other)"
  using csd_intersection_count [of l other]
  by (auto simp: csd_inv_def csd_wf_def csd_intersection_items)

lemma csd_valid_cases: "csd_bs_valid b \<longleftrightarrow> b \<noteq> CSD_BS_NONE \<and> b \<noteq> CSD_BS_MAX"
  by (cases b) (auto simp: csd_bs_valid_def)

lemma csd_bs_num_inject: "csd_bs_num a = csd_bs_num b \<Longrightarrow> a = b"
  by (cases a; cases b; simp)

lemma csd_inv_room: "csd_inv l \<Longrightarrow> length (csd_items l) < length (bs l)"
proof -
  assume inv: "csd_inv l"
  have inj: "inj_on csd_bs_num (set (csd_items l))"
    by (rule inj_onI) (rule csd_bs_num_inject)
  have "csd_bs_num ` set (csd_items l) \<subseteq> {1..14}"
    using inv by (auto simp: csd_inv_def csd_bs_valid_def)
  then have "card (csd_bs_num ` set (csd_items l)) \<le> 14"
    using card_mono [of "{1..14::nat}"] by auto
  then have "length (csd_items l) \<le> 14"
    using inv by (simp add: csd_inv_def distinct_card [symmetric] card_image [OF inj])
  with inv show ?thesis
    by (simp add: csd_inv_def csd_wf_def)
qed

lemma csd_set_bcap_simps [simp]:
  "rate_adaption (bc_data (csd_bs_set_bcap cap b)) =
     (if transfer cap = ITCAP_UNR_DIG_INF then RA_V110_X30 else RA_NONE)"
  "async (bc_data (csd_bs_set_bcap cap b)) = bsm_async (bs_map b)"
  "bc_transp (bc_data (csd_bs_set_bcap cap b)) = (if bsm_transp (bs_map b) then TR_TRANSP else TR_RLP)"
  by (simp_all add: csd_bs_set_bcap_def)

lemma csd_rate_known: "csd_bs_valid b \<Longrightarrow> \<exists>ur ir. csd_rate_to_bcap (bsm_rate (bs_map b)) = Some (ur, ir)"
  by (cases b) (auto simp: csd_bs_valid_def csd_rate_to_bcap_def bs_entry_def)

lemma csd_from_set_bcap:
  assumes "csd_bs_valid b" and "csd_rate_to_bcap (bsm_rate (bs_map b)) = Some (ur, ir)"
  shows "csd_bs_from_bearer_cap (Some (csd_bs_set_bcap cap b
           \<lparr>bc_data := bc_data (csd_bs_set_bcap cap b)\<lparr>user_rate := ur, interm_rate := ir\<rparr>\<rparr>))
           (bsm_transp (bs_map b)) = b"
  using assms
  by (cases b)
     (auto simp: csd_bs_valid_def csd_rate_to_bcap_def bs_entry_def csd_bs_from_bearer_cap_def Let_def)

lemma csd_add_zero_items: "csd_items (csd_bs_list_add_bs csd_bs_list_zero b) = (if csd_bs_valid b then [b] else [])"
  by (simp add: csd_add_items) (simp add: csd_bs_list_zero_def)

lemma csd_to_bcap_loop_first:
  "csd_to_bcap_loop cap xs = (cap', k) \<Longrightarrow>
     (case find csd_bs_valid xs of
        None \<Rightarrow> cap' = cap \<and> k = 0
      | Some b \<Rightarrow> k = 1 \<and> csd_items (csd_bs_list_from_bearer_cap cap') = [b])"
proof (induction xs)
  case Nil
  then show ?case by simp
next
  case (Cons b xs)
  show ?case
  proof (cases "csd_bs_valid b")
    case False
    with Cons show ?thesis by simp
  next
    case True
    then obtain ur ir where rate: "csd_rate_to_bcap (bsm_rate (bs_map b)) = Some (ur, ir)"
      using csd_rate_known by blast
    with True Cons.prems have "k = 1" and cap': "cap' = csd_bs_set_bcap cap b
        \<lparr>bc_data := bc_data (csd_bs_set_bcap cap b)\<lparr>user_rate := ur, interm_rate := ir\<rparr>\<rparr>"
      by (auto simp: Let_def)
    have "bc_transp (bc_data cap') = (if bsm_transp (bs_map b) then TR_TRANSP else TR_RLP)"
      by (simp add: cap')
    moreover have "csd_bs_from_bearer_cap (Some cap') (bsm_transp (bs_map b)) = b"
      unfolding cap' by (rule csd_from_set_bcap [OF True rate])
    ultimately show ?thesis using True \<open>k = 1\<close>
      by (cases "bsm_transp (bs_map b)")
         (simp_all add: csd_bs_list_from_bearer_cap_def csd_add_zero_items Let_def)
  qed
qed

text \<open>
  C22: intersecting two bearer service lists leaves exactly the services of the first that the second
  also lists, in the order of the first.  This holds for every content of the element counters: a
  counter beyond the array is clamped, the result's counter is within the array again and the array
  keeps its size.
\<close>

theorem csd_intersection_is_filter:
  "csd_items (csd_bs_list_intersection d other) = filter (\<lambda>b. b \<in> set (csd_items other)) (csd_items d)
   \<and> bs_count (csd_bs_list_intersection d other) \<le> length (bs d)
   \<and> length (bs (csd_bs_list_intersection d other)) = length (bs d)"
  by (simp add: csd_intersection_items csd_intersection_count)

text \<open>
  C27: in a list built by the operations of this component a valid service always finds room: adding
  it makes it a member, keeps every other member in place and keeps the invariant, so the branch that
  drops a service because the list is full is never taken.
\<close>

theorem csd_add_never_full:
  assumes "csd_inv l" and "csd_bs_valid b"
  shows "csd_inv (csd_bs_list_add_bs l b)
    \<and> csd_items (csd_bs_list_add_bs l b) = (if b \<in> set (csd_items l) then csd_items l else csd_items l @ [b])"
  using assms csd_inv_room [OF assms(1)] by (auto intro: csd_inv_add simp: csd_add_items)

theorem csd_add_never_full_witness:
  "csd_inv (csd_bs_list_add_bs csd_bs_list_zero CSD_BS_26_T_V110_9k6)
    \<and> csd_items (csd_bs_list_add_bs csd_bs_list_zero CSD_BS_26_T_V110_9k6) = [CSD_BS_26_T_V110_9k6]"
  using csd_add_never_full [OF csd_inv_zero, of CSD_BS_26_T_V110_9k6] by (simp add: csd_bs_valid_def)

text \<open>
  C23: the bearer capability written for a service list is read back as its first valid service, for
  every information transfer capability of the call; with no valid service nothing is written.
\<close>

theorem csd_bearer_cap_roundtrip:
  "case find csd_bs_valid (csd_items l) of
     None \<Rightarrow> csd_bs_list_to_bearer_cap cap l = (cap, 0)
   | Some b \<Rightarrow> snd (csd_bs_list_to_bearer_cap cap l) = 1
       \<and> csd_items (csd_bs_list_from_bearer_cap (fst (csd_bs_list_to_bearer_cap cap l))) = [b]"
proof -
  obtain cap' k where loop: "csd_bs_list_to_bearer_cap cap l = (cap', k)"
    by (cases "csd_bs_list_to_bearer_cap cap l")
  have "csd_items l = take (csd_bs_list_n (Some l)) (bs l)"
    by (auto simp: csd_items_def csd_bs_list_n_def)
  with csd_to_bcap_loop_first [of cap "csd_items l" cap' k] loop show ?thesis
    by (auto simp: csd_bs_list_to_bearer_cap_def split: option.splits)
qed

lemma csd_allowed_rates_nt:
  "\<forall>b\<in>set xs. \<not> csd_bs_is_transp b \<Longrightarrow> csd_allowed_rates a6 a12 xs = 0"
proof -
  have "\<forall>b\<in>set xs. \<not> csd_bs_is_transp b \<Longrightarrow>
      foldl (\<lambda>acc b. if \<not> csd_bs_is_transp b then acc
         else (case csd_bs_to_gsm0808_data_rate_non_transp_allowed a6 a12 b of
                 Inl _ \<Rightarrow> acc | Inr rc \<Rightarrow> or acc rc)) acc xs = acc" for acc
    by (induction xs) auto
  then show "\<forall>b\<in>set xs. \<not> csd_bs_is_transp b \<Longrightarrow> csd_allowed_rates a6 a12 xs = 0"
    by (simp add: csd_allowed_rates_def)
qed

text \<open>
  C32: when the preferred service and all alternatives are non-transparent, the channel type offers
  no alternative radio interface rate, however many alternatives the list has: the loop that collects
  the allowed non-transparent rates looks at the transparent services only.
\<close>

theorem csd_channel_type_nt_no_alternatives:
  assumes "csd_bs_list_to_gsm0808_channel_type a6 a12 ct (Some l) = Inr t"
    and "\<forall>b\<in>set (csd_items l). \<not> csd_bs_is_transp b"
  shows "data_rate_allowed t = 0 \<and> \<not> data_rate_allowed_is_set t \<and> \<not> data_transparent t"
proof -
  let ?n = "csd_bs_list_n (Some l)"
  have n: "?n = length (csd_items l)" and sane: "csd_bs_list_is_sane (Some l)" and "0 < ?n"
    using assms(1)
    by (auto simp: csd_bs_list_n_def length_csd_items csd_bs_list_to_gsm0808_channel_type_def Let_def
        split: if_splits)
  have nth: "i < ?n \<Longrightarrow> bs l ! i \<in> set (csd_items l)" for i
    by (auto simp: n in_set_conv_nth csd_items_def)
  have "csd_allowed_rates a6 a12 (map (\<lambda>i. bs l ! i) [1..<?n]) = 0"
    by (rule csd_allowed_rates_nt) (use nth assms(2) in auto)
  moreover have "\<not> csd_bs_is_transp (bs l ! 0)"
    using nth [OF \<open>0 < ?n\<close>] assms(2) by blast
  ultimately show ?thesis
    using assms(1)
    by (auto simp: csd_bs_list_to_gsm0808_channel_type_def Let_def split: if_splits sum.splits)
qed

theorem csd_channel_type_nt_no_alternatives_witness:
  "\<exists>t. csd_bs_list_to_gsm0808_channel_type 1 2 0x500000
        (Some \<lparr>bs_count = 2, bs = [CSD_BS_26_NT_V110_9k6, CSD_BS_24_NT_V110_2k4]\<rparr>) = Inr t
     \<and> data_rate t = DATA_RATE_NON_TRANSP_12k0 \<and> data_rate_allowed t = 0
     \<and> \<not> data_rate_allowed_is_set t \<and> \<not> data_transparent t"
proof -
  let ?l = "\<lparr>bs_count = 2, bs = [CSD_BS_26_NT_V110_9k6, CSD_BS_24_NT_V110_2k4]\<rparr>"
  have nt: "\<forall>b\<in>set (csd_items ?l). \<not> csd_bs_is_transp b"
    by (simp add: csd_items_def csd_bs_is_transp_def csd_bs_valid_def bs_entry_def)
  have "\<exists>t. csd_bs_list_to_gsm0808_channel_type 1 2 0x500000 (Some ?l) = Inr t
      \<and> data_rate t = DATA_RATE_NON_TRANSP_12k0"
    by (simp add: csd_bs_list_to_gsm0808_channel_type_def csd_bs_list_is_sane_def csd_bs_list_n_def
        csd_bs_valid_def csd_bs_is_transp_def bs_entry_def csd_bs_to_gsm0808_data_rate_non_transp_def Let_def)
  with csd_channel_type_nt_no_alternatives [OF _ nt] show ?thesis by blast
qed

end
