(* ===== verification/Sdp_Msg.thy ===== *)
theory Sdp_Msg
  imports Csd_Bs
begin

text \<open>
  The audio codec list of an SDP session, \<open>src/src/libmsc/sdp_msg.c\<close> and its header.  A
  \<open>struct sdp_audio_codecs\<close> is an array of 16 codec entries with a counter; pointers into it are
  indices.  \<open>ac_entries\<close> is what \<open>sdp_audio_codecs_foreach()\<close> walks over.  The lemmas state each
  index loop as a list function of the entries, in particular the in-place intersection with its
  moving index, and that no assertion of it can fail.
\<close>

record sdp_audio_codec =
  payload_type :: nat
  subtype_name :: string
  rate :: nat
  fmtp :: string

record sdp_audio_codecs =
  ac_count :: nat
  ac_codec :: "sdp_audio_codec list"

record sockaddr_str =
  ip :: string
  port :: nat

datatype sdp_mode_e = SDP_MODE_UNSET | SDP_MODE_SENDONLY | SDP_MODE_RECVONLY | SDP_MODE_SENDRECV | SDP_MODE_INACTIVE

record sdp_msg =
  rtp :: sockaddr_str
  ptime :: nat
  mode :: sdp_mode_e
  audio_codecs :: sdp_audio_codecs
  bearer_services :: csd_bs_list

definition sdp_audio_codec_zero :: sdp_audio_codec where
  "sdp_audio_codec_zero = \<lparr>payload_type = 0, subtype_name = [], rate = 0, fmtp = []\<rparr>"

text \<open>\<open>(struct sdp_audio_codecs){}\<close>\<close>

definition sdp_audio_codecs_zero :: sdp_audio_codecs where
  "sdp_audio_codecs_zero = \<lparr>ac_count = 0, ac_codec = replicate 16 sdp_audio_codec_zero\<rparr>"

text \<open>The entries \<open>sdp_audio_codecs_foreach()\<close> visits: \<open>OSMO_MIN(count, ARRAY_SIZE(codec))\<close> of them.\<close>

definition ac_entries :: "sdp_audio_codecs \<Rightarrow> sdp_audio_codec list" where
  "ac_entries ac = take (min (ac_count ac) (length (ac_codec ac))) (ac_codec ac)"

definition sdp_audio_codec_is_set :: "sdp_audio_codec option \<Rightarrow> bool" where
  "sdp_audio_codec_is_set a = (case a of None \<Rightarrow> False | Some c \<Rightarrow> subtype_name c \<noteq> [])"

text \<open>
  The pointers may be NULL.  Two equal pointers compare as 0 in the code; on values the same result
  follows, as every single comparison of a value with itself is 0.
\<close>

definition sdp_audio_codec_cmp ::
    "sdp_audio_codec option \<Rightarrow> sdp_audio_codec option \<Rightarrow> bool \<Rightarrow> bool \<Rightarrow> int" where
  "sdp_audio_codec_cmp ao bo cmp_fmtp cmp_payload_type =
     (case (ao, bo) of
        (None, None) \<Rightarrow> 0
      | (None, Some _) \<Rightarrow> - 1
      | (Some _, None) \<Rightarrow> 1
      | (Some a, Some b) \<Rightarrow>
          let cn = c_strncmp 16 (subtype_name a) (subtype_name b) in
          if cn \<noteq> 0 then cn
          else let cr = cmp3 (rate a) (rate b) in
          if cr \<noteq> 0 then cr
          else let cf = (if cmp_fmtp then c_strncmp 256 (fmtp a) (fmtp b) else 0) in
          if cf \<noteq> 0 then cf
          else if cmp_payload_type then cmp3 (payload_type a) (payload_type b) else 0)"

definition sdp_audio_codecs_cmp ::
    "sdp_audio_codecs option \<Rightarrow> sdp_audio_codecs option \<Rightarrow> bool \<Rightarrow> bool \<Rightarrow> int" where
  "sdp_audio_codecs_cmp ao bo cmp_fmtp cmp_payload_type =
     (case (ao, bo) of
        (None, None) \<Rightarrow> 0
      | (None, Some _) \<Rightarrow> - 1
      | (Some _, None) \<Rightarrow> 1
      | (Some a, Some b) \<Rightarrow>
          let cc = cmp3 (ac_count a) (ac_count b) in
          if cc \<noteq> 0 then cc
          else if ac_count a = 0 then 0
          else let c0 = sdp_audio_codec_cmp (Some (ac_codec a ! 0)) (Some (ac_codec b ! 0)) cmp_fmtp cmp_payload_type in
          if c0 \<noteq> 0 then c0
          else if list_all (\<lambda>ca. list_ex (\<lambda>cb. sdp_audio_codec_cmp (Some ca) (Some cb) cmp_fmtp cmp_payload_type = 0)
                                    (ac_entries b)) (ac_entries a)
               then 0 else - 1)"

definition sdp_audio_codecs_by_payload_type ::
    "sdp_audio_codecs \<Rightarrow> nat \<Rightarrow> bool \<Rightarrow> sdp_audio_codecs \<times> nat option" where
  "sdp_audio_codecs_by_payload_type ac pt create =
     (case first_idx (\<lambda>c. payload_type c = pt) (ac_entries ac) of
        Some i \<Rightarrow> (ac, Some i)
      | None \<Rightarrow>
          if \<not> create then (ac, None)
          else if ac_count ac \<ge> length (ac_codec ac) then (ac, None)
          else (ac\<lparr>ac_codec := (ac_codec ac)[ac_count ac := sdp_audio_codec_zero\<lparr>payload_type := pt, rate := 8000\<rparr>],
                   ac_count := ac_count ac + 1\<rparr>, Some (ac_count ac)))"

text \<open>Change the entry a pointer refers to.\<close>

definition ac_upd :: "sdp_audio_codecs \<Rightarrow> nat \<Rightarrow> (sdp_audio_codec \<Rightarrow> sdp_audio_codec) \<Rightarrow> sdp_audio_codecs" where
  "ac_upd ac i f = ac\<lparr>ac_codec := (ac_codec ac)[i := f (ac_codec ac ! i)]\<rparr>"

text \<open>The result is the list and the returned pointer; \<open>fmtp\<close> may be NULL.\<close>

definition sdp_audio_codecs_add ::
    "sdp_audio_codecs \<Rightarrow> nat \<Rightarrow> string \<Rightarrow> nat \<Rightarrow> string option \<Rightarrow> sdp_audio_codecs \<times> nat option" where
  "sdp_audio_codecs_add ac pt name r fm =
     (case sdp_audio_codecs_by_payload_type ac pt False of
        (_, Some i) \<Rightarrow>
          let c = ac_codec ac ! i in
          if subtype_name c \<noteq> [] \<and> subtype_name c \<noteq> name then (ac, None)
          else let ac' = (if subtype_name c = [] then ac_upd ac i (subtype_name_update (\<lambda>_. strlcpy 16 name)) else ac) in
            if rate c \<noteq> r \<or> (case fm of None \<Rightarrow> False | Some f \<Rightarrow> f \<noteq> fmtp c) then (ac', None)
            else (ac', Some i)
      | (_, None) \<Rightarrow>
          (case sdp_audio_codecs_by_payload_type ac pt True of
             (ac', None) \<Rightarrow> (ac', None)
           | (ac', Some i) \<Rightarrow>
               (ac_upd ac' i (\<lambda>c. c\<lparr>subtype_name := strlcpy 16 name,
                                    fmtp := (case fm of None \<Rightarrow> fmtp c | Some f \<Rightarrow> strlcpy 256 f),
                                    rate := r\<rparr>), Some i)))"

definition sdp_audio_codecs_add_copy ::
    "sdp_audio_codecs \<Rightarrow> sdp_audio_codec \<Rightarrow> sdp_audio_codecs \<times> nat option" where
  "sdp_audio_codecs_add_copy ac c =
     sdp_audio_codecs_add ac (payload_type c) (subtype_name c) (rate c)
       (if fmtp c \<noteq> [] then Some (fmtp c) else None)"

definition sdp_audio_codecs_by_descr :: "sdp_audio_codecs \<Rightarrow> sdp_audio_codec option \<Rightarrow> nat option" where
  "sdp_audio_codecs_by_descr ac co =
     first_idx (\<lambda>i. sdp_audio_codec_cmp (Some i) co False False = 0) (ac_entries ac)"

text \<open>\<open>idx\<close> is the distance of the pointer from the start of the array.\<close>

definition sdp_audio_codecs_remove :: "sdp_audio_codecs \<Rightarrow> int \<Rightarrow> sdp_audio_codecs result" where
  "sdp_audio_codecs_remove ac idx =
     (if idx < 0 \<or> idx \<ge> int (min (ac_count ac) (length (ac_codec ac))) then Inl ENOENT
      else let n = ac_count ac - 1 in
        Inr (ac\<lparr>ac_count := n,
                ac_codec := close_gap (ac_codec ac) (nat idx) (min n (length (ac_codec ac)))\<rparr>))"

lemma sdp_remove_count:
  "sdp_audio_codecs_remove ac idx = Inr ac' \<Longrightarrow>
     ac_count ac' = ac_count ac - 1 \<and> length (ac_codec ac') = length (ac_codec ac) \<and> 0 < ac_count ac"
  by (auto simp: sdp_audio_codecs_remove_def Let_def split: if_splits)

text \<open>
  The loop of \<open>sdp_audio_codecs_intersection()\<close>; \<open>None\<close> is a failed \<open>OSMO_ASSERT()\<close>.  The \<open>i--\<close>
  before \<open>continue\<close> and the \<open>i++\<close> of the loop header cancel out when an entry is removed.
\<close>

function sdp_intersection_loop ::
    "sdp_audio_codecs \<Rightarrow> sdp_audio_codecs \<Rightarrow> bool \<Rightarrow> nat \<Rightarrow> sdp_audio_codecs option" where
  "sdp_intersection_loop ac other tr i =
     (if i < ac_count ac then
        if \<not> i < length (ac_codec ac) then None
        else (case sdp_audio_codecs_by_descr other (Some (ac_codec ac ! i)) of
                None \<Rightarrow> (case sdp_audio_codecs_remove ac (int i) of
                            Inl _ \<Rightarrow> None
                          | Inr ac' \<Rightarrow> sdp_intersection_loop ac' other tr i)
              | Some j \<Rightarrow> sdp_intersection_loop
                  (if tr then ac_upd ac i (payload_type_update (\<lambda>_. payload_type (ac_codec other ! j))) else ac)
                  other tr (i + 1))
      else Some ac)"
  by pat_completeness auto
termination
  by (relation "measure (\<lambda>(ac, other, tr, i). ac_count ac - i)")
     (auto simp: ac_upd_def dest!: sdp_remove_count)

declare sdp_intersection_loop.simps [simp del]

definition sdp_audio_codecs_intersection ::
    "sdp_audio_codecs \<Rightarrow> sdp_audio_codecs \<Rightarrow> bool \<Rightarrow> sdp_audio_codecs option" where
  "sdp_audio_codecs_intersection ac_dest ac_other tr = sdp_intersection_loop ac_dest ac_other tr 0"

definition sdp_audio_codecs_select :: "sdp_audio_codecs \<Rightarrow> nat \<Rightarrow> sdp_audio_codecs option" where
  "sdp_audio_codecs_select ac i =
     (if \<not> i < min (ac_count ac) (length (ac_codec ac)) then None
      else if i = 0 then Some ac
      else let tmp = ac_codec ac ! i in
        Some (ac\<lparr>ac_codec := (open_gap (ac_codec ac) i)[0 := tmp]\<rparr>))"

text \<open>The renderings a large enough buffer receives.\<close>

definition sdp_audio_codec_to_str :: "sdp_audio_codec \<Rightarrow> string" where
  "sdp_audio_codec_to_str c =
     subtype_name c @ (if rate c \<noteq> 8000 then ''/'' @ dec_str (rate c) else '''')
     @ (if fmtp c \<noteq> [] then '':'' @ fmtp c else '''') @ ''#'' @ dec_str (payload_type c)"

definition sdp_audio_codecs_to_str :: "sdp_audio_codecs \<Rightarrow> string" where
  "sdp_audio_codecs_to_str ac =
     (if ac_count ac = 0 then ''(no-codecs)'' else '''')
     @ concat (map (\<lambda>i. (if i \<noteq> 0 then '','' else '''') @ sdp_audio_codec_to_str (ac_entries ac ! i))
                   [0..<length (ac_entries ac)])"

definition sdp_audio_codecs_set_csd :: sdp_audio_codecs where
  "sdp_audio_codecs_set_csd =
     \<lparr>ac_count = 1,
      ac_codec = \<lparr>payload_type = 120, subtype_name = ''CLEARMODE'', rate = 8000, fmtp = []\<rparr>
                 # replicate 15 sdp_audio_codec_zero\<rparr>"

subsection \<open>Comparison\<close>

text \<open>What \<open>sdp_audio_codec_cmp()\<close> compares when neither fmtp nor payload type count.\<close>

definition codec_descr :: "sdp_audio_codec \<Rightarrow> string \<times> nat" where
  "codec_descr c = (take 16 (subtype_name c), rate c)"

definition codec_key :: "bool \<Rightarrow> bool \<Rightarrow> sdp_audio_codec \<Rightarrow> (string \<times> nat) \<times> string \<times> nat" where
  "codec_key cf cp c = (codec_descr c, if cf then take 256 (fmtp c) else [], if cp then payload_type c else 0)"

lemma codec_cmp_zero_iff:
  "sdp_audio_codec_cmp (Some a) (Some b) cf cp = 0 \<longleftrightarrow> codec_key cf cp a = codec_key cf cp b"
  by (auto simp: sdp_audio_codec_cmp_def codec_key_def codec_descr_def Let_def c_strncmp_zero_iff)

lemma codec_cmp_descr_iff:
  "sdp_audio_codec_cmp (Some a) (Some b) False False = 0 \<longleftrightarrow> codec_descr a = codec_descr b"
  by (simp add: codec_cmp_zero_iff codec_key_def)

lemma codec_cmp_swap: "sdp_audio_codec_cmp b a cf cp = - sdp_audio_codec_cmp a b cf cp"
proof (cases a)
  case None
  then show ?thesis by (cases b) (auto simp: sdp_audio_codec_cmp_def)
next
  case (Some x)
  show ?thesis
  proof (cases b)
    case None
    with Some show ?thesis by (simp add: sdp_audio_codec_cmp_def)
  next
    case b: (Some y)
    note swaps = c_strncmp_swap [of 16 "subtype_name y" "subtype_name x"] cmp3_swap [of "rate y" "rate x"]
      c_strncmp_swap [of 256 "fmtp y" "fmtp x"] cmp3_swap [of "payload_type y" "payload_type x"]
    show ?thesis
      unfolding Some b sdp_audio_codec_cmp_def by (auto simp: swaps Let_def)
  qed
qed

subsection \<open>The list operations on entries\<close>

lemma entries_count: "ac_count ac \<le> length (ac_codec ac) \<Longrightarrow> ac_entries ac = take (ac_count ac) (ac_codec ac)"
  by (simp add: ac_entries_def min_def)

lemma length_entries [simp]: "length (ac_entries ac) = min (ac_count ac) (length (ac_codec ac))"
  by (auto simp: ac_entries_def)

lemma nth_entries: "i < min (ac_count ac) (length (ac_codec ac)) \<Longrightarrow> ac_entries ac ! i = ac_codec ac ! i"
  by (simp add: ac_entries_def)

lemma entries_zero [simp]: "ac_entries sdp_audio_codecs_zero = []"
  by (simp add: ac_entries_def sdp_audio_codecs_zero_def)

lemma ac_upd_simps [simp]:
  "ac_count (ac_upd ac i f) = ac_count ac"
  "length (ac_codec (ac_upd ac i f)) = length (ac_codec ac)"
  by (auto simp: ac_upd_def)

lemma entries_ac_upd:
  "i < min (ac_count ac) (length (ac_codec ac)) \<Longrightarrow>
     ac_entries (ac_upd ac i f) = (ac_entries ac)[i := f (ac_entries ac ! i)]"
  by (simp add: ac_entries_def ac_upd_def take_update_swap)

lemma by_descr_None_iff:
  "sdp_audio_codecs_by_descr other (Some c) = None \<longleftrightarrow> codec_descr c \<notin> codec_descr ` set (ac_entries other)"
  unfolding sdp_audio_codecs_by_descr_def first_idx_None_iff codec_cmp_descr_iff image_iff
  by metis

lemma by_descr_SomeD:
  "sdp_audio_codecs_by_descr other (Some c) = Some j \<Longrightarrow>
     j < length (ac_entries other) \<and> codec_descr (ac_codec other ! j) = codec_descr c"
  by (auto simp: sdp_audio_codecs_by_descr_def codec_cmp_descr_iff nth_entries dest!: first_idx_SomeD)

lemma remove_entries:
  assumes "ac_count ac \<le> length (ac_codec ac)" and "i < ac_count ac"
  obtains ac' where "sdp_audio_codecs_remove ac (int i) = Inr ac'"
    and "ac_entries ac' = take i (ac_entries ac) @ drop (Suc i) (ac_entries ac)"
    and "ac_count ac' = ac_count ac - 1" and "length (ac_codec ac') = length (ac_codec ac)"
proof -
  let ?n = "ac_count ac - 1"
  let ?ac = "ac\<lparr>ac_count := ?n, ac_codec := close_gap (ac_codec ac) i ?n\<rparr>"
  have "sdp_audio_codecs_remove ac (int i) = Inr ?ac"
    using assms by (auto simp: sdp_audio_codecs_remove_def Let_def min_def)
  moreover have "ac_entries ?ac = take i (ac_entries ac) @ drop (Suc i) (ac_entries ac)"
    using assms by (simp add: ac_entries_def array_simps drop_take min.absorb1 min.absorb2)
  ultimately show ?thesis using that by simp
qed

lemma select_entries:
  assumes "i < length (ac_entries ac)"
  obtains ac' where "sdp_audio_codecs_select ac i = Some ac'"
    and "ac_entries ac' = move_to_front i (ac_entries ac)"
    and "ac_count ac' = ac_count ac" and "length (ac_codec ac') = length (ac_codec ac)"
proof (cases "i = 0")
  case True
  with assms have "ac_entries ac = move_to_front i (ac_entries ac)"
    by (cases "ac_entries ac") (auto simp: move_to_front_def)
  with True assms that [of ac] show ?thesis
    by (simp add: sdp_audio_codecs_select_def)
next
  case False
  let ?c = "ac_codec ac"
  have i: "i < length ?c" "i < ac_count ac" using assms by auto
  have eq: "(open_gap ?c i)[0 := ?c ! i] = move_to_front i ?c"
    using i(1) by (rule open_gap_front)
  have "take (min (ac_count ac) (length ?c)) (move_to_front i ?c) = move_to_front i (ac_entries ac)"
    using i unfolding ac_entries_def by (intro take_move_to_front) auto
  with that [of "ac\<lparr>ac_codec := move_to_front i ?c\<rparr>"] False i show ?thesis
    by (simp add: sdp_audio_codecs_select_def eq ac_entries_def move_to_front_def)
qed

text \<open>The change of payload type number that the intersection makes to an entry it keeps.\<close>

definition sdp_translate :: "sdp_audio_codecs \<Rightarrow> bool \<Rightarrow> sdp_audio_codec \<Rightarrow> sdp_audio_codec" where
  "sdp_translate other tr c =
     (if tr then (case sdp_audio_codecs_by_descr other (Some c) of
                    None \<Rightarrow> c
                  | Some j \<Rightarrow> c\<lparr>payload_type := payload_type (ac_codec other ! j)\<rparr>)
      else c)"

lemma codec_descr_payload [simp]: "codec_descr (c\<lparr>payload_type := p\<rparr>) = codec_descr c"
  by (simp add: codec_descr_def)

lemma codec_descr_translate [simp]: "codec_descr (sdp_translate other tr c) = codec_descr c"
  by (auto simp: sdp_translate_def split: option.splits)

lemma sdp_intersection_loop_entries:
  "ac_count ac \<le> length (ac_codec ac) \<Longrightarrow> i \<le> ac_count ac \<Longrightarrow>
     \<exists>ac'. sdp_intersection_loop ac other tr i = Some ac'
       \<and> ac_entries ac' = take i (ac_entries ac) @ map (sdp_translate other tr)
           (filter (\<lambda>c. codec_descr c \<in> codec_descr ` set (ac_entries other)) (drop i (ac_entries ac)))
       \<and> ac_count ac' \<le> length (ac_codec ac') \<and> length (ac_codec ac') = length (ac_codec ac)"
proof (induction ac other tr i rule: sdp_intersection_loop.induct)
  case (1 ac other tr i)
  let ?keep = "\<lambda>c. codec_descr c \<in> codec_descr ` set (ac_entries other)"
  let ?xs = "ac_entries ac"
  show ?case
  proof (cases "i < ac_count ac")
    case False
    then have "sdp_intersection_loop ac other tr i = Some ac"
      by (simp add: sdp_intersection_loop.simps [of ac other tr i])
    with False "1.prems" show ?thesis by simp
  next
    case True
    with "1.prems" have il: "i < length (ac_codec ac)" by simp
    have nth: "?xs ! i = ac_codec ac ! i"
      using True il by (simp add: nth_entries)
    have drop_i: "drop i ?xs = ac_codec ac ! i # drop (Suc i) ?xs"
      using True il nth by (metis Cons_nth_drop_Suc length_entries min_less_iff_conj)
    show ?thesis
    proof (cases "sdp_audio_codecs_by_descr other (Some (ac_codec ac ! i))")
      case None
      obtain ac1 where ac1: "sdp_audio_codecs_remove ac (int i) = Inr ac1"
        "ac_entries ac1 = take i ?xs @ drop (Suc i) ?xs"
        "ac_count ac1 = ac_count ac - 1" "length (ac_codec ac1) = length (ac_codec ac)"
        using remove_entries [OF "1.prems"(1) True] by metis
      from None have "\<not> ?keep (ac_codec ac ! i)"
        by (simp add: by_descr_None_iff)
      with "1.IH"(1) [OF True _ None ac1(1)] None ac1 True il "1.prems" drop_i show ?thesis
        by (auto simp: sdp_intersection_loop.simps [of ac other tr i])
    next
      case (Some j)
      let ?ac = "if tr then ac_upd ac i (payload_type_update (\<lambda>_. payload_type (ac_codec other ! j))) else ac"
      have keep: "?keep (ac_codec ac ! i)"
        using Some by (metis by_descr_None_iff option.distinct(1))
      have entries: "ac_entries ?ac = ?xs[i := sdp_translate other tr (ac_codec ac ! i)]"
        using True il nth Some
        by (auto simp: entries_ac_upd sdp_translate_def list_update_id [of ?xs i, unfolded nth])
      have "take (Suc i) (ac_entries ?ac) = take i ?xs @ [sdp_translate other tr (ac_codec ac ! i)]"
        using True il unfolding entries by (simp add: take_Suc_conv_app_nth)
      moreover have "drop (Suc i) (ac_entries ?ac) = drop (Suc i) ?xs"
        unfolding entries by simp
      ultimately show ?thesis
        using "1.IH"(2) [OF True _ Some] Some keep True il "1.prems" drop_i
        by (auto simp: sdp_intersection_loop.simps [of ac other tr i] split: if_splits)
    qed
  qed
qed

lemma sdp_intersection_entries:
  assumes "ac_count ac \<le> length (ac_codec ac)"
  shows "\<exists>ac'. sdp_audio_codecs_intersection ac other tr = Some ac'
    \<and> ac_entries ac' = map (sdp_translate other tr)
        (filter (\<lambda>c. codec_descr c \<in> codec_descr ` set (ac_entries other)) (ac_entries ac))
    \<and> ac_count ac' \<le> length (ac_codec ac') \<and> length (ac_codec ac') = length (ac_codec ac)"
  using sdp_intersection_loop_entries [OF assms, of 0 other tr]
  by (simp add: sdp_audio_codecs_intersection_def)

subsection \<open>Payload type numbers stay unique\<close>

definition sdp_pt_inv :: "sdp_audio_codecs \<Rightarrow> bool" where
  "sdp_pt_inv ac \<longleftrightarrow> length (ac_codec ac) = 16 \<and> ac_count ac \<le> 16 \<and> distinct (map payload_type (ac_entries ac))"

lemma sdp_pt_inv_zero [wf_intros]: "sdp_pt_inv sdp_audio_codecs_zero"
  by (simp add: sdp_pt_inv_def sdp_audio_codecs_zero_def ac_entries_def)

lemma sdp_pt_inv_remove [wf_intros]:
  assumes "sdp_pt_inv ac" and "sdp_audio_codecs_remove ac idx = Inr ac'"
  shows "sdp_pt_inv ac'"
proof -
  have idx: "0 \<le> idx" "nat idx < ac_count ac"
    using assms(2) by (auto simp: sdp_audio_codecs_remove_def split: if_splits)
  have le: "ac_count ac \<le> length (ac_codec ac)"
    using assms(1) by (simp add: sdp_pt_inv_def)
  obtain ac1 where "sdp_audio_codecs_remove ac (int (nat idx)) = Inr ac1"
    "ac_entries ac1 = take (nat idx) (ac_entries ac) @ drop (Suc (nat idx)) (ac_entries ac)"
    "ac_count ac1 = ac_count ac - 1" "length (ac_codec ac1) = length (ac_codec ac)"
    using remove_entries [OF le idx(2)] by metis
  with assms idx show ?thesis
    by (auto simp: sdp_pt_inv_def take_map [symmetric] drop_map [symmetric]
        intro: distinct_take distinct_drop
        dest: set_take_disj_set_drop_if_distinct [of "map payload_type (ac_entries ac)" "nat idx" "Suc (nat idx)"])
qed

lemma sdp_pt_inv_select [wf_intros]:
  assumes "sdp_pt_inv ac" and "sdp_audio_codecs_select ac i = Some ac'"
  shows "sdp_pt_inv ac'"
proof -
  have i: "i < length (ac_entries ac)"
    using assms(2) by (auto simp: sdp_audio_codecs_select_def split: if_splits)
  obtain ac1 where "sdp_audio_codecs_select ac i = Some ac1"
    "ac_entries ac1 = move_to_front i (ac_entries ac)"
    "ac_count ac1 = ac_count ac" "length (ac_codec ac1) = length (ac_codec ac)"
    using select_entries [OF i] by metis
  moreover have "mset (map payload_type (move_to_front i (ac_entries ac))) = mset (map payload_type (ac_entries ac))"
    using mset_move_to_front [OF i] by simp
  ultimately show ?thesis
    using assms mset_eq_imp_distinct_iff by (fastforce simp: sdp_pt_inv_def)
qed

lemma by_payload_type_found:
  "first_idx (\<lambda>c. payload_type c = pt) (ac_entries ac) = Some i \<Longrightarrow>
     sdp_audio_codecs_by_payload_type ac pt create = (ac, Some i)
     \<and> i < length (ac_entries ac) \<and> payload_type (ac_codec ac ! i) = pt"
  by (auto simp: sdp_audio_codecs_by_payload_type_def nth_entries dest!: first_idx_SomeD)

lemma by_payload_type_created:
  assumes "sdp_pt_inv ac" and "pt \<notin> payload_type ` set (ac_entries ac)" and "ac_count ac < 16"
  obtains ac' where "sdp_audio_codecs_by_payload_type ac pt True = (ac', Some (ac_count ac))"
    and "ac_entries ac' = ac_entries ac @ [sdp_audio_codec_zero\<lparr>payload_type := pt, rate := 8000\<rparr>]"
    and "ac_count ac' = Suc (ac_count ac)" and "length (ac_codec ac') = 16"
proof -
  have none: "first_idx (\<lambda>c. payload_type c = pt) (ac_entries ac) = None"
    using assms(2) by (auto simp: first_idx_None_iff)
  let ?c = "sdp_audio_codec_zero\<lparr>payload_type := pt, rate := 8000\<rparr>"
  let ?ac = "ac\<lparr>ac_codec := (ac_codec ac)[ac_count ac := ?c], ac_count := ac_count ac + 1\<rparr>"
  have "sdp_audio_codecs_by_payload_type ac pt True = (?ac, Some (ac_count ac))"
    using assms none by (simp add: sdp_audio_codecs_by_payload_type_def sdp_pt_inv_def)
  moreover have "ac_entries ?ac = ac_entries ac @ [?c]"
    using assms by (simp add: ac_entries_def sdp_pt_inv_def take_Suc_conv_app_nth min.absorb1)
  ultimately show ?thesis using that assms(1) by (simp add: sdp_pt_inv_def)
qed

text \<open>The entry a successful \<open>sdp_audio_codecs_add()\<close> leaves at the returned index.\<close>

definition sdp_added :: "nat \<Rightarrow> string \<Rightarrow> nat \<Rightarrow> string option \<Rightarrow> sdp_audio_codec \<Rightarrow> bool" where
  "sdp_added pt name r fm c \<longleftrightarrow> payload_type c = pt \<and> take 15 (subtype_name c) = take 15 name \<and> rate c = r
     \<and> (case fm of None \<Rightarrow> True | Some f \<Rightarrow> take 255 (fmtp c) = take 255 f)"

text \<open>What makes \<open>sdp_audio_codecs_add()\<close> refuse an entry that has the number already.\<close>

definition sdp_mismatch :: "string \<Rightarrow> nat \<Rightarrow> string option \<Rightarrow> sdp_audio_codec \<Rightarrow> bool" where
  "sdp_mismatch name r fm c \<longleftrightarrow> (subtype_name c \<noteq> [] \<and> subtype_name c \<noteq> name) \<or> rate c \<noteq> r
     \<or> (\<exists>f. fm = Some f \<and> f \<noteq> fmtp c)"

lemma map_payload_upd:
  assumes "i < length (ac_entries ac)" and "\<And>c. payload_type (f c) = payload_type c"
  shows "map payload_type (ac_entries (ac_upd ac i f)) = map payload_type (ac_entries ac)"
proof -
  have "map payload_type (ac_entries (ac_upd ac i f)) =
      (map payload_type (ac_entries ac))[i := payload_type (ac_entries ac ! i)]"
    using assms by (simp add: entries_ac_upd map_update)
  also have "\<dots> = map payload_type (ac_entries ac)"
    using assms(1) by (simp add: list_update_same_conv)
  finally show ?thesis .
qed

lemma sdp_add_found:
  assumes "sdp_pt_inv ac" and "first_idx (\<lambda>c. payload_type c = pt) (ac_entries ac) = Some i"
    and "sdp_audio_codecs_add ac pt name r fm = (ac', res)"
  shows "map payload_type (ac_entries ac') = map payload_type (ac_entries ac)
    \<and> length (ac_codec ac') = length (ac_codec ac) \<and> ac_count ac' = ac_count ac
    \<and> (res = None \<longleftrightarrow> sdp_mismatch name r fm (ac_entries ac ! i))
    \<and> (\<forall>k. res = Some k \<longrightarrow> k = i \<and> sdp_added pt name r fm (ac_entries ac' ! i))
    \<and> (\<forall>k<length (ac_entries ac). k \<noteq> i \<longrightarrow> ac_entries ac' ! k = ac_entries ac ! k)"
proof -
  have i: "i < min (ac_count ac) (length (ac_codec ac))" "payload_type (ac_codec ac ! i) = pt"
    "sdp_audio_codecs_by_payload_type ac pt False = (ac, Some i)"
    using by_payload_type_found [OF assms(2)] by auto
  let ?f = "subtype_name_update (\<lambda>_. strlcpy 16 name)"
  have upd: "map payload_type (ac_entries (ac_upd ac i ?f)) = map payload_type (ac_entries ac)"
    by (rule map_payload_upd) (use i(1) in auto)
  have upd_i: "ac_entries (ac_upd ac i ?f) ! i = ?f (ac_codec ac ! i)"
    using i(1) by (simp add: entries_ac_upd nth_entries)
  have upd_k: "ac_entries (ac_upd ac i ?f) ! k = ac_entries ac ! k" if "k < length (ac_entries ac)" "k \<noteq> i" for k
    using that i(1) by (simp add: entries_ac_upd)
  from assms(3) i(3) upd upd_i upd_k i(1,2) show ?thesis
    by (auto simp: sdp_audio_codecs_add_def Let_def sdp_added_def sdp_mismatch_def nth_entries strlcpy_def
        split: if_splits option.splits)
qed

lemma sdp_add_new:
  assumes "sdp_pt_inv ac" and "pt \<notin> payload_type ` set (ac_entries ac)"
    and "sdp_audio_codecs_add ac pt name r fm = (ac', res)"
  shows "(if ac_count ac < 16
     then res = Some (ac_count ac) \<and> map payload_type (ac_entries ac') = map payload_type (ac_entries ac) @ [pt]
       \<and> ac_count ac' = Suc (ac_count ac) \<and> length (ac_codec ac') = 16
       \<and> take (ac_count ac) (ac_entries ac') = ac_entries ac
       \<and> sdp_added pt name r fm (ac_entries ac' ! ac_count ac)
     else res = None \<and> ac' = ac)"
proof -
  have none: "sdp_audio_codecs_by_payload_type ac pt False = (ac, None)"
    using assms(2) by (auto simp: sdp_audio_codecs_by_payload_type_def first_idx_None_iff split: option.splits
        dest: first_idx_SomeD)
  show ?thesis
  proof (cases "ac_count ac < 16")
    case False
    then have "sdp_audio_codecs_by_payload_type ac pt True = (ac, None)"
      using assms(1,2)
      by (auto simp: sdp_audio_codecs_by_payload_type_def sdp_pt_inv_def first_idx_None_iff split: option.splits
          dest!: first_idx_SomeD)
    with none assms(3) False show ?thesis
      by (auto simp: sdp_audio_codecs_add_def)
  next
    case True
    obtain ac1 where ac1: "sdp_audio_codecs_by_payload_type ac pt True = (ac1, Some (ac_count ac))"
      "ac_entries ac1 = ac_entries ac @ [sdp_audio_codec_zero\<lparr>payload_type := pt, rate := 8000\<rparr>]"
      "ac_count ac1 = Suc (ac_count ac)" "length (ac_codec ac1) = 16"
      using by_payload_type_created [OF assms(1,2) True] by metis
    let ?f = "\<lambda>c. c\<lparr>subtype_name := strlcpy 16 name,
      fmtp := (case fm of None \<Rightarrow> fmtp c | Some f \<Rightarrow> strlcpy 256 f), rate := r\<rparr>"
    have "ac' = ac_upd ac1 (ac_count ac) ?f" "res = Some (ac_count ac)"
      using assms(3) none ac1(1) by (auto simp: sdp_audio_codecs_add_def)
    moreover have len: "length (ac_entries ac) = ac_count ac"
      using assms(1) True by (simp add: sdp_pt_inv_def)
    moreover have "ac_entries (ac_upd ac1 (ac_count ac) ?f) =
        ac_entries ac @ [?f (sdp_audio_codec_zero\<lparr>payload_type := pt, rate := 8000\<rparr>)]"
    proof -
      have "ac_entries ac1 ! ac_count ac = sdp_audio_codec_zero\<lparr>payload_type := pt, rate := 8000\<rparr>"
        using ac1(2) len by (metis nth_append_length)
      with ac1 True len show ?thesis by (cases fm) (simp_all add: entries_ac_upd list_update_append)
    qed
    ultimately show ?thesis
      using True ac1 by (auto simp: sdp_added_def strlcpy_def nth_append split: option.splits)
  qed
qed

lemma sdp_pt_inv_add [wf_intros]:
  assumes "sdp_pt_inv ac" and "sdp_audio_codecs_add ac pt name r fm = (ac', res)"
  shows "sdp_pt_inv ac'"
proof (cases "first_idx (\<lambda>c. payload_type c = pt) (ac_entries ac)")
  case None
  then have "pt \<notin> payload_type ` set (ac_entries ac)"
    by (auto simp: first_idx_None_iff)
  with sdp_add_new [OF assms(1) this assms(2)] assms(1) show ?thesis
    by (auto simp: sdp_pt_inv_def split: if_splits)
next
  case (Some i)
  with sdp_add_found [OF assms(1) Some assms(2)] assms(1) show ?thesis
    by (auto simp: sdp_pt_inv_def)
qed

text \<open>
  C20: the in-place intersection of two codec lists never trips an assertion and leaves exactly the
  codecs of the first list whose name and rate occur in the second, in the order of the first list.
  With payload type translation each kept entry takes the number of the first entry of the second
  list that matches; nothing else of an entry changes.
\<close>

theorem sdp_intersection_is_filter:
  assumes "ac_count ac \<le> length (ac_codec ac)"
  shows "map_option ac_entries (sdp_audio_codecs_intersection ac other tr) =
    Some (map (sdp_translate other tr)
      (filter (\<lambda>c. codec_descr c \<in> codec_descr ` set (ac_entries other)) (ac_entries ac)))"
  using sdp_intersection_entries [OF assms, of other tr] by auto

definition example_codec :: "nat \<Rightarrow> string \<Rightarrow> string \<Rightarrow> sdp_audio_codec" where
  "example_codec pt name f = \<lparr>payload_type = pt, subtype_name = name, rate = 8000, fmtp = f\<rparr>"

definition example_codecs :: "sdp_audio_codec list \<Rightarrow> sdp_audio_codecs" where
  "example_codecs cs = \<lparr>ac_count = length cs, ac_codec = cs @ replicate (16 - length cs) sdp_audio_codec_zero\<rparr>"

lemma example_entries [simp]: "ac_entries (example_codecs cs) = cs"
  by (simp add: example_codecs_def ac_entries_def)

theorem sdp_intersection_is_filter_witness:
  "map_option ac_entries (sdp_audio_codecs_intersection
     (example_codecs [example_codec 112 ''AMR'' ''octet-align=1'', example_codec 3 ''GSM'' []])
     (example_codecs [example_codec 0 ''PCMU'' [], example_codec 98 ''GSM'' []]) True)
   = Some [example_codec 98 ''GSM'' []]"
  by (subst sdp_intersection_is_filter)
     (simp_all add: example_codec_def codec_descr_def sdp_translate_def sdp_audio_codecs_by_descr_def
        codec_cmp_descr_iff, simp_all add: example_codecs_def)

text \<open>
  C30: two codec lists that the comparison finds equal hold the same codecs the same number of times
  and start with the same codec, and conversely, provided the first list does not repeat a codec.
  Equality of codecs is equality of the compared members.
\<close>

theorem sdp_codecs_cmp_zero_iff:
  assumes "ac_count a \<le> length (ac_codec a)" and "ac_count b \<le> length (ac_codec b)"
    and "distinct (map (codec_key cf cp) (ac_entries a))"
  shows "sdp_audio_codecs_cmp (Some a) (Some b) cf cp = 0 \<longleftrightarrow>
    mset (map (codec_key cf cp) (ac_entries a)) = mset (map (codec_key cf cp) (ac_entries b))
    \<and> map (codec_key cf cp) (take 1 (ac_entries a)) = map (codec_key cf cp) (take 1 (ac_entries b))"
proof -
  let ?A = "map (codec_key cf cp) (ac_entries a)"
  let ?B = "map (codec_key cf cp) (ac_entries b)"
  have len: "length ?A = ac_count a" "length ?B = ac_count b"
    using assms(1,2) by auto
  have all: "list_all (\<lambda>ca. list_ex (\<lambda>cb. sdp_audio_codec_cmp (Some ca) (Some cb) cf cp = 0) (ac_entries b))
      (ac_entries a) \<longleftrightarrow> set ?A \<subseteq> set ?B"
    by (fastforce simp: list_all_iff list_ex_iff codec_cmp_zero_iff)
  have sub: "ac_count a = ac_count b \<Longrightarrow> set ?A \<subseteq> set ?B \<longleftrightarrow> mset ?A = mset ?B"
  proof
    assume cnt: "ac_count a = ac_count b" and "set ?A \<subseteq> set ?B"
    have "card (set ?B) \<le> card (set ?A)"
      using cnt len card_length [of ?B] distinct_card [OF assms(3)] by simp
    with \<open>set ?A \<subseteq> set ?B\<close> have eq: "set ?A = set ?B"
      by (intro card_seteq) auto
    with cnt len distinct_card [OF assms(3)] have "distinct ?B"
      by (metis card_distinct)
    with eq assms(3) show "mset ?A = mset ?B"
      using set_eq_iff_mset_eq_distinct by blast
  next
    assume "mset ?A = mset ?B"
    then show "set ?A \<subseteq> set ?B"
      by (metis mset_eq_setD order_refl)
  qed
  have size: "mset ?A = mset ?B \<Longrightarrow> ac_count a = ac_count b"
    using len mset_eq_length by metis
  have head: "0 < ac_count a \<Longrightarrow> ac_count a = ac_count b \<Longrightarrow>
      map (codec_key cf cp) (take 1 (ac_entries a)) = [codec_key cf cp (ac_codec a ! 0)]
      \<and> map (codec_key cf cp) (take 1 (ac_entries b)) = [codec_key cf cp (ac_codec b ! 0)]"
    using assms(1,2) by (cases "ac_codec a"; cases "ac_codec b") (auto simp: ac_entries_def min_def)
  show ?thesis
    using sub size head all
    by (auto simp: sdp_audio_codecs_cmp_def Let_def codec_cmp_zero_iff) (auto simp: ac_entries_def)
qed

theorem sdp_codecs_cmp_zero_iff_witness:
  "sdp_audio_codecs_cmp
     (Some (example_codecs [example_codec 112 ''AMR'' [], example_codec 3 ''GSM'' [], example_codec 0 ''PCMU'' []]))
     (Some (example_codecs [example_codec 96 ''AMR'' [], example_codec 0 ''PCMU'' [], example_codec 3 ''GSM'' []]))
     True False = 0"
  by (subst sdp_codecs_cmp_zero_iff)
     (simp_all add: codec_key_def codec_descr_def example_codec_def, simp_all add: example_codecs_def)

lemma codecs_all_found:
  "list_all (\<lambda>ca. list_ex (\<lambda>cb. sdp_audio_codec_cmp (Some ca) (Some cb) cf cp = 0) ys) xs
    \<longleftrightarrow> codec_key cf cp ` set xs \<subseteq> codec_key cf cp ` set ys"
  by (fastforce simp: list_all_iff list_ex_iff codec_cmp_zero_iff)

text \<open>
  C31: the comparison looks up the codecs of the first list in the second only.  When it finds two lists equal
  that do not hold the same codecs, then the first list repeats a codec, and the comparison with the lists swapped
  finds a difference.
\<close>

theorem sdp_codecs_cmp_not_symmetric:
  assumes "ac_count a \<le> length (ac_codec a)" and "ac_count b \<le> length (ac_codec b)"
    and zero: "sdp_audio_codecs_cmp (Some a) (Some b) cf cp = 0"
    and diff: "codec_key cf cp ` set (ac_entries a) \<noteq> codec_key cf cp ` set (ac_entries b)"
  shows "sdp_audio_codecs_cmp (Some b) (Some a) cf cp = - 1 \<and> \<not> distinct (map (codec_key cf cp) (ac_entries a))"
proof -
  let ?A = "codec_key cf cp ` set (ac_entries a)" and ?B = "codec_key cf cp ` set (ac_entries b)"
  have count: "ac_count a = ac_count b" using zero by (simp add: sdp_audio_codecs_cmp_def Let_def cmp3_def split: if_splits)
  have pos: "ac_count a \<noteq> 0" using diff count by (auto simp: ac_entries_def)
  have first: "sdp_audio_codec_cmp (Some (ac_codec a ! 0)) (Some (ac_codec b ! 0)) cf cp = 0" and sub: "?A \<subseteq> ?B"
    using zero pos by (simp_all add: sdp_audio_codecs_cmp_def Let_def codecs_all_found count split: if_splits)
  have "\<not> ?B \<subseteq> ?A" using sub diff by blast
  then have "sdp_audio_codecs_cmp (Some b) (Some a) cf cp = - 1"
    using first pos count codec_cmp_swap [of "Some (ac_codec b ! 0)" "Some (ac_codec a ! 0)" cf cp]
    by (simp add: sdp_audio_codecs_cmp_def Let_def codecs_all_found cmp3_def)
  moreover have "\<not> distinct (map (codec_key cf cp) (ac_entries a))"
  proof
    assume "distinct (map (codec_key cf cp) (ac_entries a))"
    then have "card ?A = length (ac_entries a)" using distinct_card by fastforce
    also have "\<dots> = length (ac_entries b)" using assms(1,2) count by simp
    also have "\<dots> \<ge> card ?B" using card_length [of "map (codec_key cf cp) (ac_entries b)"] by simp
    finally show False using sub diff by (simp add: card_seteq)
  qed
  ultimately show ?thesis ..
qed

theorem sdp_codecs_cmp_not_symmetric_witness:
  "sdp_audio_codecs_cmp (Some (example_codecs [example_codec 112 ''AMR'' [], example_codec 3 ''GSM'' []]))
     (Some (example_codecs [example_codec 112 ''AMR'' [], example_codec 96 ''AMR'' []])) False False = - 1"
proof -
  let ?a = "example_codecs [example_codec 112 ''AMR'' [], example_codec 96 ''AMR'' []]"
    and ?b = "example_codecs [example_codec 112 ''AMR'' [], example_codec 3 ''GSM'' []]"
  have "sdp_audio_codecs_cmp (Some ?a) (Some ?b) False False = 0"
    by (simp add: sdp_audio_codecs_cmp_def Let_def codec_cmp_zero_iff codec_key_def codec_descr_def example_codec_def)
      (simp add: example_codecs_def cmp3_def)
  moreover have "codec_key False False ` set (ac_entries ?a) \<noteq> codec_key False False ` set (ac_entries ?b)"
    by (simp add: codec_key_def codec_descr_def example_codec_def)
  ultimately show ?thesis
    using sdp_codecs_cmp_not_symmetric [of ?a ?b False False] by (simp add: example_codecs_def)
qed

text \<open>
  C24: adding a codec by its payload type number keeps the numbers of the list unique.  It is refused exactly when an entry
  with this number has another name, rate or, if one is given, another fmtp, or when there is no such entry and the
  list is full.  Otherwise the returned entry has the number, name, rate and fmtp asked for; it is the last entry when the
  number is new.  No entry with another number changes.
\<close>

theorem sdp_add_unique:
  assumes "sdp_pt_inv ac" and "sdp_audio_codecs_add ac pt name r fm = (ac', res)"
  shows "sdp_pt_inv ac'
    \<and> map payload_type (ac_entries ac') =
        (if pt \<in> payload_type ` set (ac_entries ac) \<or> ac_count ac = 16 then map payload_type (ac_entries ac)
         else map payload_type (ac_entries ac) @ [pt])
    \<and> (res = None \<longleftrightarrow>
         (if pt \<in> payload_type ` set (ac_entries ac)
          then \<exists>c\<in>set (ac_entries ac). payload_type c = pt \<and> sdp_mismatch name r fm c else ac_count ac = 16))
    \<and> (\<forall>i. res = Some i \<longrightarrow> i < length (ac_entries ac') \<and> sdp_added pt name r fm (ac_entries ac' ! i))
    \<and> (\<forall>k<length (ac_entries ac). payload_type (ac_entries ac ! k) \<noteq> pt \<longrightarrow> ac_entries ac' ! k = ac_entries ac ! k)"
proof (cases "first_idx (\<lambda>c. payload_type c = pt) (ac_entries ac)")
  case None
  then have new: "pt \<notin> payload_type ` set (ac_entries ac)"
    by (auto simp: first_idx_None_iff)
  have len: "length (ac_entries ac) = ac_count ac" using assms(1) by (simp add: sdp_pt_inv_def)
  have "ac_entries ac' ! k = ac_entries ac ! k" if "k < length (ac_entries ac)" for k
  proof (cases "ac_count ac < 16")
    case True
    then have "take (ac_count ac) (ac_entries ac') = ac_entries ac" using sdp_add_new [OF assms(1) new assms(2)] by simp
    then show ?thesis using that len nth_take [of k "ac_count ac" "ac_entries ac'"] by simp
  next
    case False
    then show ?thesis using sdp_add_new [OF assms(1) new assms(2)] by simp
  qed
  with new sdp_add_new [OF assms(1) new assms(2)] sdp_pt_inv_add [OF assms] assms(1) show ?thesis
    by (auto simp: sdp_pt_inv_def split: if_splits)
next
  case (Some i)
  then have i: "pt \<in> payload_type ` set (ac_entries ac)" "i < length (ac_entries ac)" "payload_type (ac_entries ac ! i) = pt"
    using by_payload_type_found [OF Some] first_idx_SomeD [OF Some] by (auto intro: rev_image_eqI)
  have "distinct (map payload_type (ac_entries ac))" using assms(1) by (simp add: sdp_pt_inv_def)
  then have only: "k = i" if "k < length (ac_entries ac)" "payload_type (ac_entries ac ! k) = pt" for k
    using that i(2,3) nth_eq_iff_index_eq [of "map payload_type (ac_entries ac)" k i] by simp
  have mism: "(\<exists>c\<in>set (ac_entries ac). payload_type c = pt \<and> sdp_mismatch name r fm c) \<longleftrightarrow> sdp_mismatch name r fm (ac_entries ac ! i)"
  proof
    assume "\<exists>c\<in>set (ac_entries ac). payload_type c = pt \<and> sdp_mismatch name r fm c"
    then obtain k where "k < length (ac_entries ac)" "payload_type (ac_entries ac ! k) = pt" "sdp_mismatch name r fm (ac_entries ac ! k)"
      by (auto simp: in_set_conv_nth)
    then show "sdp_mismatch name r fm (ac_entries ac ! i)" using only by blast
  next
    assume "sdp_mismatch name r fm (ac_entries ac ! i)"
    then show "\<exists>c\<in>set (ac_entries ac). payload_type c = pt \<and> sdp_mismatch name r fm c" using i(2,3) nth_mem by blast
  qed
  note found = sdp_add_found [OF assms(1) Some assms(2)]
  have len: "length (ac_entries ac') = length (ac_entries ac)" using found by (metis length_map)
  show ?thesis
  proof (intro conjI)
    show "res = None \<longleftrightarrow> (if pt \<in> payload_type ` set (ac_entries ac)
        then \<exists>c\<in>set (ac_entries ac). payload_type c = pt \<and> sdp_mismatch name r fm c else ac_count ac = 16)"
      unfolding mism using found i(1) by presburger
    show "\<forall>k. res = Some k \<longrightarrow> k < length (ac_entries ac') \<and> sdp_added pt name r fm (ac_entries ac' ! k)"
      unfolding len using found i(2) by blast
    show "\<forall>k<length (ac_entries ac). payload_type (ac_entries ac ! k) \<noteq> pt \<longrightarrow> ac_entries ac' ! k = ac_entries ac ! k"
      using found i(3) by blast
  qed (use found i(1) sdp_pt_inv_add [OF assms] in simp_all)
qed

theorem sdp_add_unique_witness:
  "snd (sdp_audio_codecs_add (example_codecs [example_codec 3 ''GSM'' []]) 3 ''AMR'' 8000 None) = None
   \<and> snd (sdp_audio_codecs_add (example_codecs [example_codec 3 ''GSM'' []]) 3 ''GSM'' 8000 None) \<noteq> None
   \<and> sdp_pt_inv (fst (sdp_audio_codecs_add (example_codecs [example_codec 3 ''GSM'' []]) 8 ''PCMA'' 8000 None))"
proof -
  let ?ac = "example_codecs [example_codec 3 ''GSM'' []]"
  have inv: "sdp_pt_inv ?ac" unfolding sdp_pt_inv_def by (simp only: example_entries) (simp add: example_codecs_def)
  note add = sdp_add_unique [OF inv, OF prod.collapse [symmetric]]
  show ?thesis
    using add [of 3 "''AMR''" 8000 None] add [of 3 "''GSM''" 8000 None] add [of 8 "''PCMA''" 8000 None]
    by (simp add: sdp_mismatch_def example_codec_def)
qed

end
