(* ===== verification/Codec_Mapping.thy ===== *)
theory Codec_Mapping
  imports Sdp_Msg
begin

text \<open>
  The translation table between SDP codecs, speech versions of the bearer capability, BSSMAP speech
  codecs, permitted speech values and MGCP codecs: \<open>src/src/libmsc/codec_mapping.c\<close>.  Loops over the
  table with \<open>foreach_codec_mapping()\<close> are folds or searches over the list \<open>codec_map\<close>.  The default
  speech codec configurations are bit masks of libosmocore: the table names them, and the operations
  that use the bits take their values as the parameter \<open>cfg_bits\<close>.
\<close>

text \<open>Values of \<open>enum gsm48_bcap_speech_ver\<close>, as the comments of \<open>codec_filter.c\<close> give them.\<close>

abbreviation (input) SV_FR :: int where "SV_FR \<equiv> 0"
abbreviation (input) SV_HR :: int where "SV_HR \<equiv> 1"
abbreviation (input) SV_EFR :: int where "SV_EFR \<equiv> 2"
abbreviation (input) SV_AMR_F :: int where "SV_AMR_F \<equiv> 4"
abbreviation (input) SV_AMR_H :: int where "SV_AMR_H \<equiv> 5"
abbreviation (input) SV_AMR_OFW :: int where "SV_AMR_OFW \<equiv> 6"
abbreviation (input) SV_AMR_OHW :: int where "SV_AMR_OHW \<equiv> 7"
abbreviation (input) SV_AMR_FW :: int where "SV_AMR_FW \<equiv> 8"
abbreviation (input) SV_AMR_OH :: int where "SV_AMR_OH \<equiv> 11"

datatype mgcp_codecs =
    CODEC_PCMU_8000_1 | CODEC_GSM_8000_1 | CODEC_PCMA_8000_1 | CODEC_G729_8000_1 | CODEC_GSMEFR_8000_1
  | CODEC_GSMHR_8000_1 | CODEC_AMR_8000_1 | CODEC_AMRWB_16000_1 | CODEC_IUFP | CODEC_CLEARMODE | NO_MGCP_CODEC

datatype codec_frhr = CODEC_FRHR_NONE | CODEC_FRHR_FR | CODEC_FRHR_HR

datatype mncc_payload = MNCC_PAYLOAD_NONE | GSM_TCHF_FRAME | GSM_TCHF_FRAME_EFR | GSM_TCHH_FRAME | GSM_TCH_FRAME_AMR

datatype sc_cfg_default = SC_CFG_0 | SC_CFG_DEFAULT_FR_AMR | SC_CFG_DEFAULT_HR_AMR | SC_CFG_DEFAULT_FR_AMR_WB | SC_CFG_DEFAULT_OHR_AMR_WB

record codec_speech_codec =
  m_fi :: bool
  m_pi :: bool
  m_type :: speech_codec_type
  m_cfg :: sc_cfg_default

text \<open>\<open>m_speech_codec\<close> is \<open>None\<close> where \<open>has_gsm0808_speech_codec\<close> is false.\<close>

record codec_mapping =
  m_sdp :: sdp_audio_codec
  m_mgcp :: mgcp_codecs
  m_speech_ver :: "int list"
  m_mncc_payload :: mncc_payload
  m_speech_codec :: "codec_speech_codec option"
  m_perm_speech :: perm_speech
  m_frhr :: codec_frhr

definition sdp_entry :: "nat \<Rightarrow> string \<Rightarrow> nat \<Rightarrow> string \<Rightarrow> sdp_audio_codec" where
  "sdp_entry pt name r f = \<lparr>payload_type = pt, subtype_name = name, rate = r, fmtp = f\<rparr>"

definition no_ran_codec :: "sdp_audio_codec \<Rightarrow> mgcp_codecs \<Rightarrow> codec_mapping" where
  "no_ran_codec s g = \<lparr>m_sdp = s, m_mgcp = g, m_speech_ver = [], m_mncc_payload = MNCC_PAYLOAD_NONE,
     m_speech_codec = None, m_perm_speech = PERM_UNSET, m_frhr = CODEC_FRHR_NONE\<rparr>"

definition ran_codec ::
    "sdp_audio_codec \<Rightarrow> mgcp_codecs \<Rightarrow> int list \<Rightarrow> mncc_payload \<Rightarrow> speech_codec_type \<Rightarrow> sc_cfg_default \<Rightarrow>
     perm_speech \<Rightarrow> codec_frhr \<Rightarrow> codec_mapping" where
  "ran_codec s g svs p t cfg perm fh = \<lparr>m_sdp = s, m_mgcp = g, m_speech_ver = svs, m_mncc_payload = p,
     m_speech_codec = Some \<lparr>m_fi = True, m_pi = False, m_type = t, m_cfg = cfg\<rparr>,
     m_perm_speech = perm, m_frhr = fh\<rparr>"

definition codec_map :: "codec_mapping list" where
  "codec_map =
   [no_ran_codec (sdp_entry 0 ''PCMU'' 8000 []) CODEC_PCMU_8000_1,
    ran_codec (sdp_entry 3 ''GSM'' 8000 []) CODEC_GSM_8000_1 [SV_FR] GSM_TCHF_FRAME SCT_FR1 SC_CFG_0
      PERM_FR1 CODEC_FRHR_FR,
    no_ran_codec (sdp_entry 8 ''PCMA'' 8000 []) CODEC_PCMA_8000_1,
    no_ran_codec (sdp_entry 18 ''G729'' 8000 []) CODEC_G729_8000_1,
    ran_codec (sdp_entry 110 ''GSM-EFR'' 8000 []) CODEC_GSMEFR_8000_1 [SV_EFR] GSM_TCHF_FRAME_EFR SCT_FR2 SC_CFG_0
      PERM_FR2 CODEC_FRHR_FR,
    ran_codec (sdp_entry 111 ''GSM-HR-08'' 8000 []) CODEC_GSMHR_8000_1 [SV_HR] GSM_TCHH_FRAME SCT_HR1 SC_CFG_0
      PERM_HR1 CODEC_FRHR_HR,
    ran_codec (sdp_entry 112 ''AMR'' 8000 ''octet-align=1'') CODEC_AMR_8000_1 [SV_AMR_F] GSM_TCH_FRAME_AMR
      SCT_FR3 SC_CFG_DEFAULT_FR_AMR PERM_FR3 CODEC_FRHR_FR,
    ran_codec (sdp_entry 112 ''AMR'' 8000 ''octet-align=1'') CODEC_AMR_8000_1 [SV_AMR_H, SV_AMR_OH] GSM_TCH_FRAME_AMR
      SCT_HR3 SC_CFG_DEFAULT_HR_AMR PERM_HR3 CODEC_FRHR_HR,
    ran_codec (sdp_entry 113 ''AMR-WB'' 16000 ''octet-align=1'') CODEC_AMRWB_16000_1 [SV_AMR_OFW, SV_AMR_FW]
      GSM_TCH_FRAME_AMR SCT_FR5 SC_CFG_DEFAULT_FR_AMR_WB PERM_FR5 CODEC_FRHR_FR,
    ran_codec (sdp_entry 113 ''AMR-WB'' 16000 ''octet-align=1'') CODEC_AMRWB_16000_1 [SV_AMR_OHW]
      GSM_TCH_FRAME_AMR SCT_HR4 SC_CFG_DEFAULT_OHR_AMR_WB PERM_HR4 CODEC_FRHR_HR,
    no_ran_codec (sdp_entry 96 ''VND.3GPP.IUFP'' 16000 []) CODEC_IUFP,
    (no_ran_codec (sdp_entry 120 ''CLEARMODE'' 8000 []) CODEC_CLEARMODE)
      \<lparr>m_speech_codec := Some \<lparr>m_fi = False, m_pi = True, m_type = SCT_CSD, m_cfg = SC_CFG_0\<rparr>\<rparr>]"

definition codec_mapping_by_speech_ver :: "int \<Rightarrow> codec_mapping option" where
  "codec_mapping_by_speech_ver sv = find (\<lambda>m. sv \<in> set (m_speech_ver m)) codec_map"

definition codec_mapping_by_gsm0808_speech_codec_type :: "speech_codec_type \<Rightarrow> codec_mapping option" where
  "codec_mapping_by_gsm0808_speech_codec_type sct =
     find (\<lambda>m. case m_speech_codec m of None \<Rightarrow> False | Some s \<Rightarrow> m_type s = sct) codec_map"

definition codec_mapping_by_gsm0808_speech_codec ::
    "(sc_cfg_default \<Rightarrow> 16 word) \<Rightarrow> speech_codec \<Rightarrow> codec_mapping option" where
  "codec_mapping_by_gsm0808_speech_codec cfg_bits sc =
     find (\<lambda>m. case m_speech_codec m of None \<Rightarrow> False
                | Some s \<Rightarrow> m_type s = sc_type sc \<and> and (cfg_bits (m_cfg s)) (sc_cfg sc) = sc_cfg sc) codec_map"

definition codec_mapping_by_perm_speech :: "perm_speech \<Rightarrow> codec_mapping option" where
  "codec_mapping_by_perm_speech p = find (\<lambda>m. m_perm_speech m = p) codec_map"

definition codec_mapping_by_subtype_name :: "string \<Rightarrow> codec_mapping option" where
  "codec_mapping_by_subtype_name name = find (\<lambda>m. subtype_name (m_sdp m) = name) codec_map"

definition codec_mapping_by_mgcp_codec :: "mgcp_codecs \<Rightarrow> codec_mapping option" where
  "codec_mapping_by_mgcp_codec g = find (\<lambda>m. m_mgcp m = g) codec_map"

text \<open>\<open>bearer_cap_empty\<close>: the initializer \<open>{ -1 }\<close> leaves the rest of the array at 0.\<close>

definition bearer_cap_empty_speech_ver :: "nat \<Rightarrow> int list" where
  "bearer_cap_empty_speech_ver sz = (-1) # replicate (sz - 1) 0"

text \<open>The loop of \<open>bearer_cap_add_speech_ver()\<close> stops before the last array element.\<close>

fun bcap_add_sv :: "int list \<Rightarrow> int \<Rightarrow> int list \<times> nat" where
  "bcap_add_sv (x # y # r) v =
     (if x = v then (x # y # r, 0)
      else if x = -1 then (v # (-1) # r, 1)
      else let (l, k) = bcap_add_sv (y # r) v in (x # l, k))"
| "bcap_add_sv arr v = (arr, 0)"

definition bearer_cap_add_speech_ver :: "bearer_cap \<Rightarrow> int \<Rightarrow> bearer_cap \<times> nat" where
  "bearer_cap_add_speech_ver cap v =
     (let (l, k) = bcap_add_sv (speech_ver cap) v in (cap\<lparr>speech_ver := l\<rparr>, k))"

definition bearer_cap_set_radio :: "bearer_cap \<Rightarrow> bearer_cap" where
  "bearer_cap_set_radio cap =
     (let svs = takeWhile (\<lambda>v. v \<noteq> -1) (butlast (speech_ver cap));
          hr_present = list_ex (\<lambda>v. case codec_mapping_by_speech_ver v of None \<Rightarrow> False
                                       | Some m \<Rightarrow> m_frhr m = CODEC_FRHR_HR) svs
      in cap\<lparr>radio := (if hr_present then RRQ_DUAL_FR else RRQ_FR_ONLY)\<rparr>)"

text \<open>
  The loop of \<open>bearer_cap_filter_rev_lev()\<close> runs to the first negative entry without an array bound:
  \<open>None\<close> stands for the read past the array when there is none.
\<close>

definition bearer_cap_filter_rev_lev :: "bearer_cap \<Rightarrow> nat \<Rightarrow> (bearer_cap \<times> unit result) option" where
  "bearer_cap_filter_rev_lev cap rev_lev =
     (if rev_lev > 0 then Some (cap, Inr ())
      else if \<forall>v\<in>set (speech_ver cap). v \<ge> 0 then None
      else let svs = takeWhile (\<lambda>v. v \<ge> 0) (speech_ver cap);
               fr_present = (SV_FR \<in> set svs); hr_present = (SV_HR \<in> set svs);
               cap' = cap\<lparr>speech_ver := (speech_ver cap)[0 := -1]\<rparr>
           in Some (cap', if \<not> fr_present \<and> \<not> hr_present then Inl ENOTSUP else Inr ()))"

definition bcap_add_svs :: "bearer_cap \<times> nat \<Rightarrow> int list \<Rightarrow> bearer_cap \<times> nat" where
  "bcap_add_svs = foldl (\<lambda>(cap, added) v. let (cap', k) = bearer_cap_add_speech_ver cap v in (cap', added + k))"

definition sdp_audio_codec_add_to_bearer_cap :: "bearer_cap \<Rightarrow> sdp_audio_codec \<Rightarrow> bearer_cap \<times> nat" where
  "sdp_audio_codec_add_to_bearer_cap cap c =
     foldl (\<lambda>acc m. if subtype_name (m_sdp m) \<noteq> subtype_name c then acc else bcap_add_svs acc (m_speech_ver m))
       (cap, 0) codec_map"

definition sdp_audio_codecs_to_bearer_cap :: "bearer_cap \<Rightarrow> sdp_audio_codecs \<Rightarrow> bearer_cap \<times> nat" where
  "sdp_audio_codecs_to_bearer_cap cap ac =
     foldl (\<lambda>(cap, added) c. let (cap', k) = sdp_audio_codec_add_to_bearer_cap cap c in (cap', added + k))
       (cap, 0) (ac_entries ac)"

definition sdp_audio_codecs_add_speech_ver :: "sdp_audio_codecs \<Rightarrow> int \<Rightarrow> sdp_audio_codecs \<times> nat option" where
  "sdp_audio_codecs_add_speech_ver ac sv =
     foldl (\<lambda>(ac, ret) m. if sv \<in> set (m_speech_ver m) then sdp_audio_codecs_add_copy ac (m_sdp m) else (ac, ret))
       (ac, None) codec_map"

definition sdp_audio_codecs_add_mgcp_codec :: "sdp_audio_codecs \<Rightarrow> mgcp_codecs \<Rightarrow> sdp_audio_codecs \<times> nat option" where
  "sdp_audio_codecs_add_mgcp_codec ac g =
     (case codec_mapping_by_mgcp_codec g of None \<Rightarrow> (ac, None) | Some m \<Rightarrow> sdp_audio_codecs_add_copy ac (m_sdp m))"

definition sdp_audio_codecs_from_bearer_cap :: "sdp_audio_codecs \<Rightarrow> bearer_cap \<Rightarrow> sdp_audio_codecs" where
  "sdp_audio_codecs_from_bearer_cap ac bc =
     foldl (\<lambda>ac v. fst (sdp_audio_codecs_add_speech_ver ac v)) ac (takeWhile (\<lambda>v. v \<noteq> -1) (speech_ver bc))"

text \<open>
  A \<open>gsm0808_speech_codec_list\<close> is the list of its used entries; \<open>sz\<close> is its array size.
\<close>

definition to_speech_codec :: "(sc_cfg_default \<Rightarrow> 16 word) \<Rightarrow> codec_speech_codec \<Rightarrow> speech_codec" where
  "to_speech_codec cfg_bits s = \<lparr>sc_fi = m_fi s, sc_pi = m_pi s, sc_type = m_type s, sc_cfg = cfg_bits (m_cfg s)\<rparr>"

definition sdp_audio_codec_to_speech_codec_list ::
    "(sc_cfg_default \<Rightarrow> 16 word) \<Rightarrow> nat \<Rightarrow> speech_codec list \<Rightarrow> sdp_audio_codec \<Rightarrow> speech_codec list \<times> unit result" where
  "sdp_audio_codec_to_speech_codec_list cfg_bits sz scl c =
     (case codec_mapping_by_subtype_name (subtype_name c) of
        None \<Rightarrow> (scl, Inl ENOENT)
      | Some m \<Rightarrow>
          (case m_speech_codec m of
             None \<Rightarrow> (scl, Inl ENOENT)
           | Some s \<Rightarrow> if length scl \<ge> sz then (scl, Inl ENOSPC)
                       else (scl @ [to_speech_codec cfg_bits s], Inr ())))"

fun to_scl_loop ::
    "(sc_cfg_default \<Rightarrow> 16 word) \<Rightarrow> nat \<Rightarrow> speech_codec list \<Rightarrow> sdp_audio_codec list \<Rightarrow> speech_codec list" where
  "to_scl_loop cfg_bits sz scl [] = scl"
| "to_scl_loop cfg_bits sz scl (c # cs) =
     (case sdp_audio_codec_to_speech_codec_list cfg_bits sz scl c of
        (scl', rc) \<Rightarrow> if rc = Inl ENOSPC then scl' else to_scl_loop cfg_bits sz scl' cs)"

definition sdp_audio_codecs_to_speech_codec_list ::
    "(sc_cfg_default \<Rightarrow> 16 word) \<Rightarrow> nat \<Rightarrow> sdp_audio_codecs \<Rightarrow> speech_codec list" where
  "sdp_audio_codecs_to_speech_codec_list cfg_bits sz ac = to_scl_loop cfg_bits sz [] (ac_entries ac)"

definition sdp_audio_codecs_from_speech_codec_list ::
    "(sc_cfg_default \<Rightarrow> 16 word) \<Rightarrow> sdp_audio_codecs \<Rightarrow> speech_codec list \<Rightarrow> sdp_audio_codecs" where
  "sdp_audio_codecs_from_speech_codec_list cfg_bits ac cl =
     foldl (\<lambda>ac sc. case codec_mapping_by_gsm0808_speech_codec cfg_bits sc of None \<Rightarrow> ac
                      | Some m \<Rightarrow> fst (sdp_audio_codecs_add_copy ac (m_sdp m))) ac cl"

text \<open>
  The local variables of \<open>sdp_audio_codecs_to_gsm0808_channel_type()\<close>; an unset index is \<open>None\<close>.  \<open>sz\<close> is the size of
  the array \<open>perm_spch\<close> of libosmocore.  The code does not check it: a write past the array is \<open>None\<close>.
\<close>

record ct_scan =
  first_fr :: "nat option"
  first_hr :: "nat option"
  perms :: "perm_speech list"

definition perm_is_fr :: "perm_speech \<Rightarrow> bool" where
  "perm_is_fr p \<longleftrightarrow> p \<in> {PERM_FR1, PERM_FR2, PERM_FR3, PERM_FR4, PERM_FR5}"

definition perm_is_hr :: "perm_speech \<Rightarrow> bool" where
  "perm_is_hr p \<longleftrightarrow> p \<in> {PERM_HR1, PERM_HR2, PERM_HR3, PERM_HR4, PERM_HR6}"

definition ct_scan_mapping :: "nat \<Rightarrow> nat \<Rightarrow> sdp_audio_codec \<Rightarrow> ct_scan \<Rightarrow> codec_mapping \<Rightarrow> ct_scan option" where
  "ct_scan_mapping sz idx c s m =
     (if subtype_name (m_sdp m) \<noteq> subtype_name c then Some s
      else if \<not> perm_is_fr (m_perm_speech m) \<and> \<not> perm_is_hr (m_perm_speech m) then Some s
      else let s' = (if perm_is_fr (m_perm_speech m)
                     then s\<lparr>first_fr := (case first_fr s of None \<Rightarrow> Some idx | Some k \<Rightarrow> Some k)\<rparr>
                     else s\<lparr>first_hr := (case first_hr s of None \<Rightarrow> Some idx | Some k \<Rightarrow> Some k)\<rparr>)
           in if m_perm_speech m \<in> set (perms s') then Some s'
              else if length (perms s') \<ge> sz then None
              else Some (s'\<lparr>perms := perms s' @ [m_perm_speech m]\<rparr>))"

definition ct_scan_codec :: "nat \<Rightarrow> ct_scan option \<Rightarrow> nat \<times> sdp_audio_codec \<Rightarrow> ct_scan option" where
  "ct_scan_codec sz so ic = foldl (\<lambda>so m. Option.bind so (\<lambda>s. ct_scan_mapping sz (fst ic) (snd ic) s m)) so codec_map"

definition ct_scan_all :: "nat \<Rightarrow> sdp_audio_codecs \<Rightarrow> ct_scan option" where
  "ct_scan_all sz ac = foldl (ct_scan_codec sz) (Some \<lparr>first_fr = None, first_hr = None, perms = []\<rparr>)
     (enumerate 0 (ac_entries ac))"

definition sdp_audio_codecs_to_gsm0808_channel_type :: "nat \<Rightarrow> sdp_audio_codecs \<Rightarrow> (channel_type \<times> unit result) option" where
  "sdp_audio_codecs_to_gsm0808_channel_type sz ac =
     map_option (\<lambda>s. let
          ct = \<lparr>ch_indctr = CHAN_SPEECH, ch_rate_type = RATE_TYPE_UNSET, perm_spch = perms s,
                data_transparent = False, data_rate = DATA_RATE_UNSET, data_rate_allowed = 0,
                data_rate_allowed_is_set = False\<rparr>
      in (case (first_fr s, first_hr s) of
            (Some f, Some h) \<Rightarrow>
              (ct\<lparr>ch_rate_type := (if f \<le> h then SPEECH_FULL_PREF else SPEECH_HALF_PREF)\<rparr>, Inr ())
          | (Some _, None) \<Rightarrow> (ct\<lparr>ch_rate_type := SPEECH_FULL_BM\<rparr>, Inr ())
          | (None, Some _) \<Rightarrow> (ct\<lparr>ch_rate_type := SPEECH_HALF_LM\<rparr>, Inr ())
          | (None, None) \<Rightarrow> (ct, Inl EINVAL)))
       (ct_scan_all sz ac)"

definition sdp_audio_codec_to_mgcp_codec :: "sdp_audio_codec \<Rightarrow> mgcp_codecs" where
  "sdp_audio_codec_to_mgcp_codec c =
     (case find (\<lambda>m. sdp_audio_codec_cmp (Some (m_sdp m)) (Some c) False False = 0) codec_map of
        None \<Rightarrow> NO_MGCP_CODEC | Some m \<Rightarrow> m_mgcp m)"

subsection \<open>Speech version lists\<close>

text \<open>The speech versions in use: the entries before the terminator.\<close>

definition sv_used :: "int list \<Rightarrow> int list" where
  "sv_used arr = takeWhile (\<lambda>v. v \<noteq> -1) arr"

definition sv_ok :: "bearer_cap \<Rightarrow> bool" where
  "sv_ok cap \<longleftrightarrow> -1 \<in> set (speech_ver cap) \<and> distinct (sv_used (speech_ver cap))"

lemma bcap_add_sv_spec:
  assumes "-1 \<in> set arr" and "v \<noteq> -1"
  shows "bcap_add_sv arr v =
    (if v \<in> set (sv_used arr) \<or> Suc (length (sv_used arr)) \<ge> length arr then (arr, 0)
     else (sv_used arr @ v # (-1) # drop (length (sv_used arr) + 2) arr, 1))"
  using assms
proof (induction arr v rule: bcap_add_sv.induct)
  case (1 x y r v)
  then show ?case
    by (cases "x = -1") (auto simp: sv_used_def split_def Let_def)
qed (auto simp: sv_used_def)

lemma sv_used_append [simp]: "v \<noteq> -1 \<Longrightarrow> sv_used (sv_used arr @ v # (-1) # r) = sv_used arr @ [v]"
  by (induction arr) (auto simp: sv_used_def)

text \<open>What one call and any sequence of calls may do to the list.\<close>

definition sv_grows :: "bearer_cap \<Rightarrow> bearer_cap \<times> nat \<Rightarrow> bool" where
  "sv_grows cap r \<longleftrightarrow> sv_ok (fst r) \<and> length (speech_ver (fst r)) = length (speech_ver cap)
     \<and> (\<exists>new. sv_used (speech_ver (fst r)) = sv_used (speech_ver cap) @ new \<and> length new = snd r)
     \<and> radio (fst r) = radio cap \<and> transfer (fst r) = transfer cap \<and> bc_data (fst r) = bc_data cap"

lemma sv_used_less: "-1 \<in> set arr \<Longrightarrow> length (sv_used arr) < length arr"
  by (induction arr) (auto simp: sv_used_def)

lemma sv_grows_refl: "sv_ok cap \<Longrightarrow> sv_grows cap (cap, 0)"
  by (simp add: sv_grows_def)

lemma sv_grows_trans: "sv_grows cap (cap1, k1) \<Longrightarrow> sv_grows cap1 (cap2, k2) \<Longrightarrow> sv_grows cap (cap2, k1 + k2)"
  by (auto simp: sv_grows_def)

lemma sv_grows_ok: "sv_grows cap r \<Longrightarrow> sv_ok (fst r)"
  by (simp add: sv_grows_def)

lemma bearer_cap_add_grows:
  assumes "sv_ok cap" and "v \<noteq> -1"
  shows "sv_grows cap (bearer_cap_add_speech_ver cap v)"
proof -
  let ?a = "speech_ver cap"
  have "-1 \<in> set ?a" using assms(1) by (simp add: sv_ok_def)
  note spec = bcap_add_sv_spec [OF this assms(2)] and less = sv_used_less [OF \<open>-1 \<in> set ?a\<close>]
  show ?thesis
  proof (cases "v \<in> set (sv_used ?a) \<or> Suc (length (sv_used ?a)) \<ge> length ?a")
    case True
    with spec assms(1) show ?thesis
      by (simp add: bearer_cap_add_speech_ver_def sv_grows_def)
  next
    case False
    with spec assms less show ?thesis
      by (auto simp: bearer_cap_add_speech_ver_def sv_grows_def sv_ok_def)
  qed
qed

lemma bcap_add_svs_grows:
  "sv_grows cap acc \<Longrightarrow> -1 \<notin> set vs \<Longrightarrow> sv_grows cap (bcap_add_svs acc vs)"
proof (induction vs arbitrary: acc)
  case Nil
  then show ?case by (simp add: bcap_add_svs_def)
next
  case (Cons v vs)
  obtain cap1 k where acc: "acc = (cap1, k)" by (cases acc)
  obtain cap2 j where add: "bearer_cap_add_speech_ver cap1 v = (cap2, j)"
    by (cases "bearer_cap_add_speech_ver cap1 v")
  have "sv_grows cap1 (cap2, j)"
    using bearer_cap_add_grows [of cap1 v] sv_grows_ok [OF Cons.prems(1)] Cons.prems(2) acc add by auto
  with Cons.prems(1) have "sv_grows cap (cap2, k + j)"
    unfolding acc by (rule sv_grows_trans)
  with Cons.IH Cons.prems(2) acc add show ?case
    by (simp add: bcap_add_svs_def)
qed

lemma codec_map_speech_ver: "m \<in> set codec_map \<Longrightarrow> -1 \<notin> set (m_speech_ver m)"
  by (auto simp: codec_map_def ran_codec_def no_ran_codec_def)

lemma sdp_codec_add_grows:
  assumes "sv_ok cap"
  shows "sv_grows cap (sdp_audio_codec_add_to_bearer_cap cap c)"
  unfolding sdp_audio_codec_add_to_bearer_cap_def
  by (rule foldl_invariant [where P = "sv_grows cap"])
     (auto intro: sv_grows_refl assms bcap_add_svs_grows dest: codec_map_speech_ver)

text \<open>
  C25: translating a codec list to speech versions only appends to the speech version array: the
  earlier entries stay in front, the terminator stays inside the array, no speech version is listed
  twice and the returned number counts the new entries.
\<close>

theorem sdp_to_bearer_cap_appends:
  assumes "sv_ok cap"
  shows "sv_grows cap (sdp_audio_codecs_to_bearer_cap cap ac)"
  unfolding sdp_audio_codecs_to_bearer_cap_def
proof (rule foldl_invariant [where P = "sv_grows cap"])
  show "sv_grows cap (cap, 0)" by (rule sv_grows_refl [OF assms])
next
  fix s c
  assume "sv_grows cap s"
  obtain cap1 k cap2 j where "s = (cap1, k)" "sdp_audio_codec_add_to_bearer_cap cap1 c = (cap2, j)"
    by (cases s, cases "sdp_audio_codec_add_to_bearer_cap (fst s) c") auto
  with \<open>sv_grows cap s\<close> sdp_codec_add_grows [of cap1 c] sv_grows_trans [of cap cap1 k cap2 j] sv_grows_ok
  show "sv_grows cap ((case s of (cap, added) \<Rightarrow>
      \<lambda>c. let (cap', k) = sdp_audio_codec_add_to_bearer_cap cap c in (cap', added + k)) c)"
    by fastforce
qed

definition example_bearer_cap :: bearer_cap where
  "example_bearer_cap = \<lparr>transfer = ITCAP_SPEECH, radio = RRQ_FR_ONLY, speech_ver = bearer_cap_empty_speech_ver 8,
     bc_data = \<lparr>rate_adaption = RA_NONE, sig_access = SA_UNSET, async = False, bc_transp = TR_TRANSP,
       nr_data_bits = 0, parity = PAR_ODD, nr_stop_bits = 0, modem_type = MT_NONE, user_rate = UR_OTHER 0,
       interm_rate = IR_UNSET\<rparr>\<rparr>"

theorem sdp_to_bearer_cap_appends_witness:
  "sv_grows example_bearer_cap (sdp_audio_codecs_to_bearer_cap example_bearer_cap
     (example_codecs [example_codec 112 ''AMR'' [], example_codec 3 ''GSM'' []]))"
  by (rule sdp_to_bearer_cap_appends)
     (simp add: sv_ok_def sv_used_def example_bearer_cap_def bearer_cap_empty_speech_ver_def)

subsection \<open>Channel type\<close>

text \<open>The permitted speech values the table can yield, and those it gives for a list of codecs.\<close>

definition table_perms :: "perm_speech set" where
  "table_perms = {PERM_FR1, PERM_FR2, PERM_FR3, PERM_FR5, PERM_HR1, PERM_HR3, PERM_HR4}"

definition codec_perms :: "sdp_audio_codec set \<Rightarrow> perm_speech set" where
  "codec_perms cs = m_perm_speech `
     set (filter (\<lambda>m. m_perm_speech m \<noteq> PERM_UNSET \<and> subtype_name (m_sdp m) \<in> subtype_name ` cs) codec_map)"

definition ct_inv :: "perm_speech set \<Rightarrow> ct_scan \<Rightarrow> bool" where
  "ct_inv P s \<longleftrightarrow> distinct (perms s) \<and> set (perms s) = P \<and> P \<subseteq> table_perms
     \<and> (first_fr s \<noteq> None \<longleftrightarrow> (\<exists>p\<in>P. perm_is_fr p))
     \<and> (first_hr s \<noteq> None \<longleftrightarrow> (\<exists>p\<in>P. perm_is_hr p))"

lemma codec_map_perms: "m \<in> set codec_map \<Longrightarrow> m_perm_speech m = PERM_UNSET \<or> m_perm_speech m \<in> table_perms"
  by (auto simp: codec_map_def ran_codec_def no_ran_codec_def table_perms_def)

lemma perm_fr_not_hr: "perm_is_fr p \<Longrightarrow> \<not> perm_is_hr p"
  by (auto simp: perm_is_fr_def perm_is_hr_def)

lemma table_perms_fr_hr: "p \<in> table_perms \<Longrightarrow> (perm_is_fr p \<or> perm_is_hr p) \<and> p \<noteq> PERM_UNSET"
  by (auto simp: table_perms_def perm_is_fr_def perm_is_hr_def)

lemma perm_unset_neither: "\<not> perm_is_fr PERM_UNSET" "\<not> perm_is_hr PERM_UNSET"
  by (auto simp: perm_is_fr_def perm_is_hr_def)

text \<open>Distinct values of the table never fill an array of seven.\<close>

lemma ct_inv_room:
  assumes "ct_inv P s" and "p \<in> table_perms" and "p \<notin> P"
  shows "length (perms s) < 7"
proof -
  have "card (insert p P) \<le> card table_perms"
    using assms by (intro card_mono) (auto simp: ct_inv_def table_perms_def)
  moreover have "card table_perms = 7" by (simp add: table_perms_def)
  moreover have "finite P" using assms(1) by (auto simp: ct_inv_def)
  ultimately show ?thesis using assms(1,3) by (auto simp: ct_inv_def distinct_card [symmetric])
qed

lemma ct_inv_mapping:
  assumes "7 \<le> sz" and "ct_inv P s" and "m \<in> set codec_map"
  shows "\<exists>s'. ct_scan_mapping sz idx c s m = Some s'
    \<and> ct_inv (P \<union> {p. p = m_perm_speech m \<and> p \<noteq> PERM_UNSET \<and> subtype_name (m_sdp m) = subtype_name c}) s'"
proof (cases "subtype_name (m_sdp m) = subtype_name c \<and> m_perm_speech m \<in> table_perms")
  case True
  let ?p = "m_perm_speech m"
  have "P \<union> {p. p = ?p \<and> p \<noteq> PERM_UNSET \<and> subtype_name (m_sdp m) = subtype_name c} = insert ?p P"
    using True table_perms_fr_hr [of ?p] by auto
  moreover have "\<exists>s'. ct_scan_mapping sz idx c s m = Some s' \<and> ct_inv (insert ?p P) s'"
    using True assms(1,2) table_perms_fr_hr [of ?p] ct_inv_room [OF assms(2), of ?p] perm_fr_not_hr [of ?p]
    by (cases "perm_is_fr ?p"; cases "?p \<in> P") (auto simp: ct_inv_def ct_scan_mapping_def Let_def split: option.splits)
  ultimately show ?thesis by simp
next
  case False
  then show ?thesis
    using assms(2) codec_map_perms [OF assms(3)] perm_unset_neither by (auto simp: ct_scan_mapping_def)
qed

lemma ct_inv_maps:
  assumes "7 \<le> sz"
  shows "ct_inv P s \<Longrightarrow> set ms \<subseteq> set codec_map \<Longrightarrow>
    \<exists>s'. foldl (\<lambda>so m. Option.bind so (\<lambda>s. ct_scan_mapping sz idx c s m)) (Some s) ms = Some s'
      \<and> ct_inv (P \<union> {m_perm_speech m | m. m \<in> set ms \<and> m_perm_speech m \<noteq> PERM_UNSET \<and> subtype_name (m_sdp m) = subtype_name c}) s'"
proof (induction ms arbitrary: P s)
  case (Cons m ms)
  let ?Q = "P \<union> {p. p = m_perm_speech m \<and> p \<noteq> PERM_UNSET \<and> subtype_name (m_sdp m) = subtype_name c}"
  obtain s1 where s1: "ct_scan_mapping sz idx c s m = Some s1" "ct_inv ?Q s1"
    using ct_inv_mapping [OF assms Cons.prems(1), of m idx c] Cons.prems(2) by auto
  moreover have "?Q \<union> {m_perm_speech x | x. x \<in> set ms \<and> m_perm_speech x \<noteq> PERM_UNSET \<and> subtype_name (m_sdp x) = subtype_name c}
      = P \<union> {m_perm_speech x | x. x \<in> set (m # ms) \<and> m_perm_speech x \<noteq> PERM_UNSET \<and> subtype_name (m_sdp x) = subtype_name c}"
    by auto
  ultimately show ?case using Cons.IH [OF s1(2)] Cons.prems(2) by simp
qed simp

lemma ct_inv_codecs:
  assumes "7 \<le> sz"
  shows "ct_inv (codec_perms C) s \<Longrightarrow>
    \<exists>s'. foldl (ct_scan_codec sz) (Some s) ics = Some s' \<and> ct_inv (codec_perms (C \<union> snd ` set ics)) s'"
proof (induction ics arbitrary: C s)
  case (Cons ic ics)
  obtain s1 where s1: "ct_scan_codec sz (Some s) ic = Some s1" and inv: "ct_inv (codec_perms C \<union>
      {m_perm_speech m | m. m \<in> set codec_map \<and> m_perm_speech m \<noteq> PERM_UNSET \<and> subtype_name (m_sdp m) = subtype_name (snd ic)}) s1"
    using ct_inv_maps [OF assms Cons.prems, of codec_map "fst ic" "snd ic"] by (auto simp: ct_scan_codec_def)
  have "codec_perms C \<union> {m_perm_speech m | m. m \<in> set codec_map \<and> m_perm_speech m \<noteq> PERM_UNSET
      \<and> subtype_name (m_sdp m) = subtype_name (snd ic)} = codec_perms (insert (snd ic) C)"
    by (auto simp: codec_perms_def)
  with Cons.IH [of "insert (snd ic) C" s1] inv s1 show ?case by (simp add: insert_commute Un_commute)
qed simp

text \<open>
  C26: if the array of permitted speech values has at least seven elements, the unchecked writes into it stay inside it
  for every codec list.  The channel type lists exactly the values that the table gives for the names of the codecs in the
  list, each once.  The conversion fails exactly when there is no such value, and the rate type says
  exactly whether full rate and half rate values are among them.
\<close>

theorem channel_type_bounded:
  assumes "7 \<le> sz"
  shows "\<exists>ct rc. sdp_audio_codecs_to_gsm0808_channel_type sz ac = Some (ct, rc)
     \<and> distinct (perm_spch ct) \<and> set (perm_spch ct) = codec_perms (set (ac_entries ac)) \<and> length (perm_spch ct) \<le> 7
     \<and> (is_ok rc \<longleftrightarrow> perm_spch ct \<noteq> [])
     \<and> (ch_rate_type ct \<in> {SPEECH_FULL_BM, SPEECH_FULL_PREF, SPEECH_HALF_PREF} \<longleftrightarrow> list_ex perm_is_fr (perm_spch ct))
     \<and> (ch_rate_type ct \<in> {SPEECH_HALF_LM, SPEECH_FULL_PREF, SPEECH_HALF_PREF} \<longleftrightarrow> list_ex perm_is_hr (perm_spch ct))"
proof -
  have "ct_inv (codec_perms {}) \<lparr>first_fr = None, first_hr = None, perms = []\<rparr>"
    by (simp add: ct_inv_def codec_perms_def)
  from ct_inv_codecs [OF assms this, of "enumerate 0 (ac_entries ac)"] obtain s where
    s: "ct_scan_all sz ac = Some s" and inv: "ct_inv (codec_perms (set (ac_entries ac))) s"
    by (auto simp: ct_scan_all_def set_map [symmetric] simp del: set_map)
  have "card (set (perms s)) \<le> card table_perms"
    using inv by (intro card_mono) (auto simp: ct_inv_def table_perms_def)
  also have "card table_perms = 7" by (simp add: table_perms_def)
  finally have len: "length (perms s) \<le> 7"
    using inv distinct_card [of "perms s"] by (simp add: ct_inv_def)
  have nonempty: "perms s \<noteq> [] \<longleftrightarrow> first_fr s \<noteq> None \<or> first_hr s \<noteq> None"
    using inv table_perms_fr_hr unfolding ct_inv_def by (metis ex_in_conv set_empty subsetD)
  have ex: "list_ex perm_is_fr (perms s) \<longleftrightarrow> first_fr s \<noteq> None"
      "list_ex perm_is_hr (perms s) \<longleftrightarrow> first_hr s \<noteq> None" "distinct (perms s)" "set (perms s) = codec_perms (set (ac_entries ac))"
    using inv by (auto simp: ct_inv_def list_ex_iff)
  show ?thesis
    using len nonempty ex
    by (cases "first_fr s"; cases "first_hr s")
       (simp_all add: sdp_audio_codecs_to_gsm0808_channel_type_def s Let_def)
qed

theorem channel_type_bounded_witness:
  "\<exists>ct rc. sdp_audio_codecs_to_gsm0808_channel_type 9 (example_codecs [example_codec 112 ''AMR'' [], example_codec 3 ''GSM'' []]) = Some (ct, rc)
     \<and> set (perm_spch ct) = {PERM_FR3, PERM_HR3, PERM_FR1}"
proof -
  have "codec_perms {example_codec 112 ''AMR'' [], example_codec 3 ''GSM'' []} = {PERM_FR3, PERM_HR3, PERM_FR1}"
    by (simp add: codec_perms_def codec_map_def ran_codec_def no_ran_codec_def sdp_entry_def example_codec_def) blast
  with channel_type_bounded [of 9 "example_codecs [example_codec 112 ''AMR'' [], example_codec 3 ''GSM'' []]"]
  show ?thesis by auto
qed

end
