(* ===== verification/Media_Filter.thy ===== *)
theory Media_Filter
  imports Codec_Mapping
begin

text \<open>
  The two filters that combine what the radio access network, the mobile station, the base station
  and the remote call leg allow: \<open>src/src/libmsc/codec_filter.c\<close> for voice codecs and
  \<open>src/src/libmsc/csd_filter.c\<close> for data bearer services.  Both start from the RAN list and intersect
  it in place with every constraint that is in use.  The locale \<open>constraint_list\<close> states what they
  rely on, and \<open>filter_chain\<close> proves once what a chain of such intersections leaves; both are
  interpreted on the codec list of \<open>Sdp_Msg\<close> and on the service list of \<open>Csd_Bs\<close>.
\<close>

text \<open>
  \<open>if (count) intersection(r, c)\<close>, three times: for the MS, for the BSS and, with the second
  intersection function, for the remote side.
\<close>

definition opt_inter :: "('l \<Rightarrow> 'l \<Rightarrow> 'l option) \<Rightarrow> bool \<Rightarrow> 'l \<Rightarrow> 'l \<Rightarrow> 'l option" where
  "opt_inter isect used r c = (if used then isect r c else Some r)"

definition filter_run3 ::
    "('l \<Rightarrow> 'l \<Rightarrow> 'l option) \<Rightarrow> ('l \<Rightarrow> 'l \<Rightarrow> 'l option) \<Rightarrow> ('l \<Rightarrow> bool) \<Rightarrow> 'l \<Rightarrow> 'l \<Rightarrow> 'l \<Rightarrow> 'l \<Rightarrow> 'l option" where
  "filter_run3 isect isect_remote used start ms bss remote =
     Option.bind (opt_inter isect (used ms) start ms) (\<lambda>r1.
     Option.bind (opt_inter isect (used bss) r1 bss) (\<lambda>r2.
     opt_inter isect_remote (used remote) r2 remote))"

subsection \<open>Voice codecs\<close>

record codec_filter =
  cf_ran :: sdp_audio_codecs
  cf_ms :: sdp_audio_codecs
  cf_bss :: sdp_audio_codecs
  cf_assignment :: sdp_audio_codec

definition sdp_add_all_geran_codecs :: "sdp_audio_codecs \<Rightarrow> sdp_audio_codecs" where
  "sdp_add_all_geran_codecs ac =
     foldl (\<lambda>ac v. fst (sdp_audio_codecs_add_speech_ver ac v)) ac [SV_AMR_F, SV_AMR_H, SV_EFR, SV_FR, SV_HR]"

definition sdp_add_all_utran_codecs :: "sdp_audio_codecs \<Rightarrow> sdp_audio_codecs" where
  "sdp_add_all_utran_codecs ac =
     foldl (\<lambda>ac v. fst (sdp_audio_codecs_add_speech_ver ac v)) ac
       [SV_AMR_F, SV_AMR_H, SV_AMR_OH, SV_AMR_FW, SV_AMR_OFW, SV_AMR_OHW]"

definition codec_filter_set_ran :: "codec_filter \<Rightarrow> rat_type \<Rightarrow> codec_filter" where
  "codec_filter_set_ran f rt = f\<lparr>cf_ran :=
     (if rt = RAT_UTRAN_IU then sdp_add_all_utran_codecs sdp_audio_codecs_zero
      else sdp_add_all_geran_codecs sdp_audio_codecs_zero)\<rparr>"

text \<open>The codec list of the BSS may be NULL.\<close>

definition codec_filter_set_bss ::
    "(sc_cfg_default \<Rightarrow> 16 word) \<Rightarrow> codec_filter \<Rightarrow> speech_codec list option \<Rightarrow> codec_filter" where
  "codec_filter_set_bss cfg_bits f clo = f\<lparr>cf_bss :=
     (case clo of None \<Rightarrow> sdp_audio_codecs_zero
      | Some cl \<Rightarrow> sdp_audio_codecs_from_speech_codec_list cfg_bits sdp_audio_codecs_zero cl)\<rparr>"

text \<open>The result is \<open>None\<close> when an assertion of the list operations fails.\<close>

definition codec_filter_run :: "codec_filter \<Rightarrow> sdp_msg \<Rightarrow> sdp_msg \<Rightarrow> sdp_msg option" where
  "codec_filter_run f result remote =
     Option.bind (filter_run3 (\<lambda>r c. sdp_audio_codecs_intersection r c False)
                    (\<lambda>r c. sdp_audio_codecs_intersection r c True) (\<lambda>c. ac_count c \<noteq> 0)
                    (cf_ran f) (cf_ms f) (cf_bss f) (audio_codecs remote)) (\<lambda>r.
     map_option (\<lambda>r'. result\<lparr>audio_codecs := r'\<rparr>)
       (if sdp_audio_codec_is_set (Some (cf_assignment f)) then
          (case sdp_audio_codecs_by_descr r (Some (cf_assignment f)) of
             None \<Rightarrow> Some r
           | Some i \<Rightarrow> sdp_audio_codecs_select r i)
        else Some r))"

subsection \<open>Data bearer services\<close>

record csd_filter =
  csf_ran :: csd_bs_list
  csf_ms :: csd_bs_list
  csf_bss :: csd_bs_list
  csf_assignment :: csd_bs

definition add_all_geran_bs :: "csd_bs_list \<Rightarrow> csd_bs_list" where
  "add_all_geran_bs l = foldl csd_bs_list_add_bs l
     [CSD_BS_24_T_V110_2k4, CSD_BS_25_T_V110_4k8, CSD_BS_26_T_V110_9k6, CSD_BS_21_T_V110_0k3,
      CSD_BS_22_T_V110_1k2, CSD_BS_21_NT_V110_0k3, CSD_BS_22_NT_V110_1k2, CSD_BS_24_NT_V110_2k4,
      CSD_BS_25_NT_V110_4k8, CSD_BS_26_NT_V110_9k6, CSD_BS_31_T_V110_1k2, CSD_BS_32_T_V110_2k4,
      CSD_BS_33_T_V110_4k8, CSD_BS_34_T_V110_9k6]"

definition add_all_utran_bs :: "csd_bs_list \<Rightarrow> csd_bs_list" where
  "add_all_utran_bs l = foldl csd_bs_list_add_bs l
     [CSD_BS_21_NT_V110_0k3, CSD_BS_22_NT_V110_1k2, CSD_BS_24_NT_V110_2k4, CSD_BS_25_NT_V110_4k8,
      CSD_BS_26_NT_V110_9k6]"

definition csd_filter_set_ran :: "csd_filter \<Rightarrow> rat_type \<Rightarrow> csd_filter" where
  "csd_filter_set_ran f rt = f\<lparr>csf_ran :=
     (if rt = RAT_UTRAN_IU then add_all_utran_bs csd_bs_list_zero else add_all_geran_bs csd_bs_list_zero)\<rparr>"

text \<open>
  The three pointers may be NULL.  \<open>clearmode\<close> is the value of \<open>CODEC_CLEARMODE\<close> of libosmo-mgcp-client,
  which the code writes as the payload type number.
\<close>

definition csd_filter_run ::
    "nat \<Rightarrow> csd_filter option \<Rightarrow> sdp_msg option \<Rightarrow> sdp_msg option \<Rightarrow> sdp_msg result" where
  "csd_filter_run clearmode fo resulto remoteo =
     (case (fo, resulto, remoteo) of
        (Some f, Some result, Some remote) \<Rightarrow>
          let isect = (\<lambda>r c. Some (csd_bs_list_intersection r c));
              r = the (filter_run3 isect isect (\<lambda>c. csd_bs_list_is_sane (Some c))
                         (csf_ran f) (csf_ms f) (csf_bss f) (bearer_services remote));
              r' = (if csf_assignment f \<noteq> CSD_BS_NONE then csd_bs_list_add_bs csd_bs_list_zero (csf_assignment f)
                    else r)
          in Inr (result\<lparr>bearer_services := r',
                         audio_codecs := \<lparr>ac_count = 1, ac_codec = (ac_codec (audio_codecs result))[0 :=
                           \<lparr>payload_type = clearmode, subtype_name = ''CLEARMODE'', rate = 8000, fmtp = []\<rparr>]\<rparr>\<rparr>)
      | _ \<Rightarrow> Inl EINVAL)"

subsection \<open>The contract of a constraint list\<close>

locale constraint_list =
  fixes descrs :: "'l \<Rightarrow> 'k list"
    and isect :: "'l \<Rightarrow> 'l \<Rightarrow> 'l option"
    and ok :: "'l \<Rightarrow> bool"
  assumes inter_keeps: "ok d \<Longrightarrow> \<exists>d'. isect d c = Some d' \<and> ok d'
      \<and> descrs d' = filter (\<lambda>k. k \<in> set (descrs c)) (descrs d)"
begin

lemma opt_inter_keeps:
  "ok d \<Longrightarrow> \<exists>d'. opt_inter isect used d c = Some d' \<and> ok d'
     \<and> descrs d' = filter (\<lambda>k. used \<longrightarrow> k \<in> set (descrs c)) (descrs d)"
  using inter_keeps [of d c] by (auto simp: opt_inter_def)

end

locale filter_chain =
  local_side: constraint_list descrs isect ok + remote_side: constraint_list descrs isect_remote ok
  for descrs :: "'l \<Rightarrow> 'k list"
    and isect :: "'l \<Rightarrow> 'l \<Rightarrow> 'l option"
    and isect_remote :: "'l \<Rightarrow> 'l \<Rightarrow> 'l option"
    and ok :: "'l \<Rightarrow> bool"
begin

lemma filter_run3_keeps:
  assumes "ok start"
  shows "\<exists>r. filter_run3 isect isect_remote used start ms bss remote = Some r \<and> ok r
    \<and> descrs r = filter (\<lambda>k. (used ms \<longrightarrow> k \<in> set (descrs ms)) \<and> (used bss \<longrightarrow> k \<in> set (descrs bss))
        \<and> (used remote \<longrightarrow> k \<in> set (descrs remote))) (descrs start)"
proof -
  obtain r1 where r1: "opt_inter isect (used ms) start ms = Some r1" "ok r1"
    "descrs r1 = filter (\<lambda>k. used ms \<longrightarrow> k \<in> set (descrs ms)) (descrs start)"
    using local_side.opt_inter_keeps [OF assms] by blast
  obtain r2 where r2: "opt_inter isect (used bss) r1 bss = Some r2" "ok r2"
    "descrs r2 = filter (\<lambda>k. used bss \<longrightarrow> k \<in> set (descrs bss)) (descrs r1)"
    using local_side.opt_inter_keeps [OF r1(2)] by blast
  obtain r3 where r3: "opt_inter isect_remote (used remote) r2 remote = Some r3" "ok r3"
    "descrs r3 = filter (\<lambda>k. used remote \<longrightarrow> k \<in> set (descrs remote)) (descrs r2)"
    using remote_side.opt_inter_keeps [OF r2(2)] by blast
  show ?thesis
    using r1 r2 r3 by (auto simp: filter_run3_def intro!: filter_cong)
qed

end

text \<open>The description of a codec list, and the well-formedness the intersection needs.\<close>

definition ac_descrs :: "sdp_audio_codecs \<Rightarrow> (string \<times> nat) list" where
  "ac_descrs ac = map codec_descr (ac_entries ac)"

definition ac_ok :: "sdp_audio_codecs \<Rightarrow> bool" where
  "ac_ok ac \<longleftrightarrow> ac_count ac \<le> length (ac_codec ac)"

lemma ac_inter_keeps:
  "ac_ok d \<Longrightarrow> \<exists>d'. sdp_audio_codecs_intersection d c tr = Some d' \<and> ac_ok d'
     \<and> ac_descrs d' = filter (\<lambda>k. k \<in> set (ac_descrs c)) (ac_descrs d)"
  using sdp_intersection_entries [of d c tr] unfolding ac_ok_def ac_descrs_def
  by (fastforce simp: filter_map comp_def codec_descr_translate)

interpretation voice: filter_chain ac_descrs "\<lambda>r c. sdp_audio_codecs_intersection r c False"
  "\<lambda>r c. sdp_audio_codecs_intersection r c True" ac_ok
  by unfold_locales (auto intro: ac_inter_keeps)

interpretation csd: filter_chain csd_items "\<lambda>r c. Some (csd_bs_list_intersection r c)"
  "\<lambda>r c. Some (csd_bs_list_intersection r c)" "\<lambda>_. True"
  by unfold_locales (simp_all add: csd_intersection_items)


subsection \<open>What the filters compute\<close>

definition bring_front :: "'k \<Rightarrow> 'k list \<Rightarrow> 'k list" where
  "bring_front k ks = (if k \<in> set ks then k # remove1 k ks else ks)"

text \<open>The codecs that every constraint in use allows, in the order of preference of the RAN.\<close>

definition allowed_codecs :: "codec_filter \<Rightarrow> sdp_msg \<Rightarrow> (string \<times> nat) list" where
  "allowed_codecs f remote =
     filter (\<lambda>k. (ac_count (cf_ms f) \<noteq> 0 \<longrightarrow> k \<in> set (ac_descrs (cf_ms f)))
               \<and> (ac_count (cf_bss f) \<noteq> 0 \<longrightarrow> k \<in> set (ac_descrs (cf_bss f)))
               \<and> (ac_count (audio_codecs remote) \<noteq> 0 \<longrightarrow> k \<in> set (ac_descrs (audio_codecs remote))))
       (ac_descrs (cf_ran f))"

definition allowed_services :: "csd_filter \<Rightarrow> sdp_msg \<Rightarrow> csd_bs list" where
  "allowed_services f remote =
     filter (\<lambda>k. (csd_bs_list_is_sane (Some (csf_ms f)) \<longrightarrow> k \<in> set (csd_items (csf_ms f)))
               \<and> (csd_bs_list_is_sane (Some (csf_bss f)) \<longrightarrow> k \<in> set (csd_items (csf_bss f)))
               \<and> (csd_bs_list_is_sane (Some (bearer_services remote)) \<longrightarrow> k \<in> set (csd_items (bearer_services remote))))
       (csd_items (csf_ran f))"

lemma map_move_to_first:
  "first_idx (\<lambda>x. d x = k) xs = Some i \<Longrightarrow> map d (move_to_front i xs) = k # remove1 k (map d xs)"
  by (induction xs arbitrary: i) (auto simp: move_to_front_def split: if_splits)

lemma by_descr_first_idx:
  "sdp_audio_codecs_by_descr r (Some a) = first_idx (\<lambda>c. codec_descr c = codec_descr a) (ac_entries r)"
  by (auto simp: sdp_audio_codecs_by_descr_def codec_cmp_descr_iff intro: first_idx_cong)

lemma select_descrs:
  assumes "sdp_audio_codecs_by_descr r (Some a) = Some i"
  obtains r' where "sdp_audio_codecs_select r i = Some r'" and "ac_descrs r' = bring_front (codec_descr a) (ac_descrs r)"
proof -
  have i: "i < length (ac_entries r)" and d: "codec_descr (ac_codec r ! i) = codec_descr a"
    using by_descr_SomeD [OF assms] by auto
  obtain r' where r': "sdp_audio_codecs_select r i = Some r'" "ac_entries r' = move_to_front i (ac_entries r)"
    using select_entries [OF i] by blast
  have "codec_descr a \<in> set (ac_descrs r)"
    using assms by_descr_None_iff [of r a] by (auto simp: ac_descrs_def)
  with r' map_move_to_first [of codec_descr "codec_descr a" "ac_entries r" i] assms that show thesis
    by (simp add: by_descr_first_idx ac_descrs_def bring_front_def)
qed

lemma bring_front_absent: "sdp_audio_codecs_by_descr r (Some a) = None \<Longrightarrow> bring_front (codec_descr a) (ac_descrs r) = ac_descrs r"
  by (simp add: by_descr_None_iff bring_front_def ac_descrs_def)

text \<open>
  C18: \<open>codec_filter_run()\<close> never runs into an assertion of the list operations, and its result lists
  exactly the codecs of the RAN that the MS, the BSS and the remote side allow, each only if it
  advertised a list, in the order of preference of the RAN; once a codec has been assigned and is
  among them, it comes first and the others keep their order.  The rest of the message is unchanged.
\<close>

theorem codec_filter_run_spec:
  assumes "ac_ok (cf_ran f)"
  shows "\<exists>r. codec_filter_run f result remote = Some r
    \<and> ac_descrs (audio_codecs r) = (if sdp_audio_codec_is_set (Some (cf_assignment f))
         then bring_front (codec_descr (cf_assignment f)) (allowed_codecs f remote) else allowed_codecs f remote)
    \<and> r = result\<lparr>audio_codecs := audio_codecs r\<rparr>"
proof -
  obtain r where r: "filter_run3 (\<lambda>r c. sdp_audio_codecs_intersection r c False)
      (\<lambda>r c. sdp_audio_codecs_intersection r c True) (\<lambda>c. ac_count c \<noteq> 0)
      (cf_ran f) (cf_ms f) (cf_bss f) (audio_codecs remote) = Some r"
    and d: "ac_descrs r = allowed_codecs f remote"
    using voice.filter_run3_keeps [OF assms, of "\<lambda>c. ac_count c \<noteq> 0" "cf_ms f" "cf_bss f" "audio_codecs remote"]
    unfolding allowed_codecs_def by blast
  show ?thesis
  proof (cases "sdp_audio_codecs_by_descr r (Some (cf_assignment f))")
    case None
    with r d bring_front_absent [OF None] show ?thesis by (simp add: codec_filter_run_def)
  next
    case (Some i)
    obtain r' where "sdp_audio_codecs_select r i = Some r'"
      "ac_descrs r' = bring_front (codec_descr (cf_assignment f)) (ac_descrs r)"
      using select_descrs [OF Some] by blast
    with r d Some show ?thesis by (simp add: codec_filter_run_def)
  qed
qed

definition example_filter :: codec_filter where
  "example_filter = \<lparr>cf_ran = example_codecs [example_codec 112 ''AMR'' [], example_codec 3 ''GSM'' []],
     cf_ms = sdp_audio_codecs_zero, cf_bss = example_codecs [example_codec 3 ''GSM'' [], example_codec 96 ''AMR'' []],
     cf_assignment = example_codec 3 ''GSM'' []\<rparr>"

definition example_msg :: sdp_msg where
  "example_msg = \<lparr>rtp = \<lparr>ip = [], port = 0\<rparr>, ptime = 20, mode = SDP_MODE_UNSET,
     audio_codecs = sdp_audio_codecs_zero, bearer_services = csd_bs_list_zero\<rparr>"

theorem codec_filter_run_spec_witness:
  "ac_ok (cf_ran example_filter)
   \<and> (\<exists>r. codec_filter_run example_filter example_msg example_msg = Some r
        \<and> ac_descrs (audio_codecs r) = [(''GSM'', 8000), (''AMR'', 8000)])"
proof -
  have "ac_ok (cf_ran example_filter)"
    by (simp add: ac_ok_def example_filter_def example_codecs_def)
  moreover have "allowed_codecs example_filter example_msg = [(''AMR'', 8000), (''GSM'', 8000)]"
    by (simp add: allowed_codecs_def example_filter_def example_msg_def ac_descrs_def codec_descr_def)
       (simp add: example_codec_def example_codecs_def sdp_audio_codecs_zero_def)
  moreover have "codec_descr (cf_assignment example_filter) = (''GSM'', 8000)"
    "sdp_audio_codec_is_set (Some (cf_assignment example_filter))"
    by (simp_all add: example_filter_def codec_descr_def example_codec_def sdp_audio_codec_is_set_def)
  ultimately show ?thesis
    using codec_filter_run_spec [of example_filter example_msg example_msg] by (auto simp: bring_front_def)
qed

text \<open>
  C21: \<open>csd_filter_run()\<close> returns -EINVAL exactly when one of its arguments is NULL.  Otherwise the result
  carries the services of the RAN that the MS, the BSS and the remote side allow, each only if its
  counter is sane (not zero and within the array), or the assigned service alone once there is one, and CLEARMODE as the only codec.
\<close>

theorem csd_filter_run_spec:
  "(csd_filter_run cm fo ro eo = Inl EINVAL \<longleftrightarrow> fo = None \<or> ro = None \<or> eo = None)
   \<and> (\<forall>r. csd_filter_run cm fo ro eo = Inr r \<longrightarrow>
        csd_items (bearer_services r) =
          (if csf_assignment (the fo) = CSD_BS_NONE then allowed_services (the fo) (the eo)
           else csd_items (csd_bs_list_add_bs csd_bs_list_zero (csf_assignment (the fo))))
        \<and> ac_count (audio_codecs r) = 1
        \<and> (ac_codec (audio_codecs (the ro)) \<noteq> [] \<longrightarrow> ac_descrs (audio_codecs r) = [(''CLEARMODE'', 8000)]))"
proof (cases "fo = None \<or> ro = None \<or> eo = None")
  case True
  then show ?thesis by (auto simp: csd_filter_run_def split: option.splits)
next
  case False
  then obtain f result remote where *: "fo = Some f" "ro = Some result" "eo = Some remote" by auto
  obtain r where "filter_run3 (\<lambda>r c. Some (csd_bs_list_intersection r c)) (\<lambda>r c. Some (csd_bs_list_intersection r c))
      (\<lambda>c. csd_bs_list_is_sane (Some c)) (csf_ran f) (csf_ms f) (csf_bss f) (bearer_services remote) = Some r"
    and "csd_items r = allowed_services f remote"
    using csd.filter_run3_keeps [OF TrueI, of "\<lambda>c. csd_bs_list_is_sane (Some c)" "csf_ran f" "csf_ms f" "csf_bss f"
        "bearer_services remote"]
    unfolding allowed_services_def by blast
  with * show ?thesis
    by (cases "ac_codec (audio_codecs result)")
       (auto simp: csd_filter_run_def Let_def ac_descrs_def ac_entries_def codec_descr_def)
qed

definition example_csd_filter :: csd_filter where
  "example_csd_filter = \<lparr>csf_ran = add_all_utran_bs csd_bs_list_zero, csf_ms = csd_bs_list_zero,
     csf_bss = csd_bs_list_zero, csf_assignment = CSD_BS_25_NT_V110_4k8\<rparr>"

theorem csd_filter_run_spec_witness:
  "\<exists>r. csd_filter_run 38 (Some example_csd_filter) (Some example_msg) (Some example_msg) = Inr r
     \<and> csd_items (bearer_services r) = [CSD_BS_25_NT_V110_4k8]
     \<and> ac_descrs (audio_codecs r) = [(''CLEARMODE'', 8000)]"
proof -
  have "csd_items (csd_bs_list_add_bs csd_bs_list_zero CSD_BS_25_NT_V110_4k8) = [CSD_BS_25_NT_V110_4k8]"
    by code_simp
  moreover obtain r where "csd_filter_run 38 (Some example_csd_filter) (Some example_msg) (Some example_msg) = Inr r"
    by (simp add: csd_filter_run_def Let_def)
  moreover have "ac_codec (audio_codecs example_msg) \<noteq> []"
    by (simp add: example_msg_def sdp_audio_codecs_zero_def)
  ultimately show ?thesis
    using csd_filter_run_spec [of 38 "Some example_csd_filter" "Some example_msg" "Some example_msg"]
    by (auto simp: example_csd_filter_def)
qed

end
