(* ===== verification/Sdp_Text.thy ===== *)
theory Sdp_Text
  imports Sdp_Msg "HOL-Library.Sublist" "HOL-Library.Monad_Syntax"
begin

text \<open>
  SDP as text: \<open>sdp_msg_to_sdp_str_buf()\<close>, \<open>sdp_msg_from_sdp_str()\<close> and the functions they call in
  \<open>src/src/libmsc/sdp_msg.c\<close>.  A pointer into the message is the rest of the string from there on, so a pointer
  is at or past another when its rest is not longer.  Writing past the end of a buffer yields \<open>None\<close>.
\<close>

subsection \<open>C string functions\<close>

abbreviation CR :: char where "CR \<equiv> CHR 0x0D"
abbreviation LF :: char where "LF \<equiv> CHR 0x0A"

definition CRLF :: string where "CRLF = [CR, LF]"

definition c_isspace :: "char \<Rightarrow> bool" where
  "c_isspace c \<longleftrightarrow> (of_char c :: nat) \<in> {9, 10, 11, 12, 13, 32}"

definition c_isdigit :: "char \<Rightarrow> bool" where
  "c_isdigit c \<longleftrightarrow> 48 \<le> (of_char c :: nat) \<and> (of_char c :: nat) \<le> 57"

definition c_strchr :: "string \<Rightarrow> char \<Rightarrow> string option" where
  "c_strchr s c = (case dropWhile (\<lambda>x. x \<noteq> c) s of [] \<Rightarrow> None | y # ys \<Rightarrow> Some (y # ys))"

fun c_strstr :: "string \<Rightarrow> string \<Rightarrow> string option" where
  "c_strstr [] pat = (if pat = [] then Some [] else None)"
| "c_strstr (x # xs) pat = (if prefix pat (x # xs) then Some (x # xs) else c_strstr xs pat)"

definition skip_ws :: "string \<Rightarrow> string" where
  "skip_ws s = dropWhile c_isspace s"

text \<open>
  The conversion \<open>%u\<close> of \<open>sscanf()\<close>: white space, an optional sign, digits.  The value is the one
  \<open>strtoul()\<close> yields, with a 64 bit \<open>unsigned long\<close>, cast to \<open>unsigned int\<close>.
\<close>

definition dec_val :: "string \<Rightarrow> nat" where
  "dec_val ds = foldl (\<lambda>n c. 10 * n + (of_char c - 48)) 0 ds"

definition strtoul_uint :: "bool \<Rightarrow> nat \<Rightarrow> nat" where
  "strtoul_uint neg n = (if n \<ge> 2 ^ 64 then 2 ^ 32 - 1 else if neg then (2 ^ 64 - n) mod 2 ^ 32 else n mod 2 ^ 32)"

definition scan_u :: "string \<Rightarrow> (nat \<times> string) option" where
  "scan_u s =
     (let s1 = skip_ws s;
          neg = (case s1 of c # _ \<Rightarrow> c = CHR ''-'' | [] \<Rightarrow> False);
          s2 = (case s1 of c # r \<Rightarrow> if c = CHR ''-'' \<or> c = CHR ''+'' then r else s1 | [] \<Rightarrow> []);
          ds = takeWhile c_isdigit s2
      in if ds = [] then None else Some (strtoul_uint neg (dec_val ds), drop (length ds) s2))"

text \<open>A \<open>%u\<close> after a slash, as in the format \<open>/%u\<close>.\<close>

definition scan_slash_u :: "string \<Rightarrow> (nat \<times> string) option" where
  "scan_slash_u s = (case s of c # r \<Rightarrow> if c = CHR ''/'' then scan_u r else None | [] \<Rightarrow> None)"

subsection \<open>Composing\<close>

text \<open>The functions on addresses of libosmocore.\<close>

record ip_lib =
  ip_is_v6 :: "string \<Rightarrow> bool"
  sockaddr_from_str :: "sockaddr_str \<Rightarrow> string \<Rightarrow> nat \<Rightarrow> sockaddr_str"

text \<open>The conversion \<open>%d\<close> of an \<open>unsigned int\<close>.\<close>

definition print_d :: "nat \<Rightarrow> string" where
  "print_d n = (if n < 2 ^ 31 then dec_str n else ''-'' @ dec_str (2 ^ 32 - n))"

definition sdp_mode_str :: "sdp_mode_e \<Rightarrow> string" where
  "sdp_mode_str m = (case m of SDP_MODE_UNSET \<Rightarrow> ''-'' | SDP_MODE_SENDONLY \<Rightarrow> ''sendonly'' | SDP_MODE_RECVONLY \<Rightarrow> ''recvonly''
     | SDP_MODE_SENDRECV \<Rightarrow> ''sendrecv'' | SDP_MODE_INACTIVE \<Rightarrow> ''inactive'')"

definition codec_lines :: "sdp_audio_codec \<Rightarrow> string" where
  "codec_lines c =
     (if \<not> sdp_audio_codec_is_set (Some c) then ''''
      else ''a=rtpmap:'' @ print_d (payload_type c) @ '' '' @ subtype_name c @ ''/'' @ print_d (if rate c > 0 then rate c else 8000) @ CRLF
        @ (if fmtp c \<noteq> [] then ''a=fmtp:'' @ print_d (payload_type c) @ '' '' @ fmtp c @ CRLF else ''''))"

definition sdp_msg_to_sdp_str :: "ip_lib \<Rightarrow> sdp_msg option \<Rightarrow> string" where
  "sdp_msg_to_sdp_str L so =
     (case so of None \<Rightarrow> ''''
      | Some sdp \<Rightarrow>
          let a = (if ip (rtp sdp) \<noteq> [] then ip (rtp sdp) else ''0.0.0.0'');
              ipv = (if ip_is_v6 L a then ''6'' else ''4'')
          in ''v=0'' @ CRLF
             @ ''o=OsmoMSC 0 0 IN IP'' @ ipv @ '' '' @ a @ CRLF
             @ ''s=GSM Call'' @ CRLF
             @ ''c=IN IP'' @ ipv @ '' '' @ a @ CRLF
             @ ''t=0 0'' @ CRLF
             @ ''m=audio '' @ print_d (port (rtp sdp)) @ '' RTP/AVP''
             @ concat (map (\<lambda>c. '' '' @ print_d (payload_type c)) (ac_entries (audio_codecs sdp))) @ CRLF
             @ concat (map codec_lines (ac_entries (audio_codecs sdp)))
             @ ''a=ptime:'' @ print_d (if ptime sdp > 0 then ptime sdp else 20) @ CRLF
             @ (if mode sdp \<noteq> SDP_MODE_UNSET then ''a='' @ sdp_mode_str (mode sdp) @ CRLF else ''''))"

text \<open>What ends up in a buffer of \<open>dst_size\<close> characters, and the number of characters needed.\<close>

definition sdp_msg_to_sdp_str_buf :: "ip_lib \<Rightarrow> nat \<Rightarrow> sdp_msg option \<Rightarrow> string \<times> nat" where
  "sdp_msg_to_sdp_str_buf L dst_size so = (strlcpy dst_size (sdp_msg_to_sdp_str L so), length (sdp_msg_to_sdp_str L so))"

subsection \<open>Parsing\<close>

definition sdp_msg_line_end :: "string \<Rightarrow> string" where
  "sdp_msg_line_end src =
     (case c_strchr src CR of Some e \<Rightarrow> e
      | None \<Rightarrow> (case c_strchr src LF of Some e \<Rightarrow> e | None \<Rightarrow> []))"

text \<open>
  \<open>sscanf(audio_name, " %31[^/]/%u/%u", ...)\<close>: the name, and what the two numbers convert to, if they do.
\<close>

definition scan_rtpmap :: "string \<Rightarrow> (string \<times> nat option \<times> nat option) option" where
  "scan_rtpmap s =
     (let s1 = skip_ws s; name = take 31 (takeWhile (\<lambda>c. c \<noteq> CHR ''/'') s1)
      in if name = [] then None
         else (case scan_slash_u (drop (length name) s1) of
                 None \<Rightarrow> Some (name, None, None)
               | Some (r, s2) \<Rightarrow> Some (name, Some r, map_option fst (scan_slash_u s2))))"

text \<open>The result: the message as far as it was filled, and the error code.\<close>

definition parse_rtpmap :: "sdp_msg \<Rightarrow> string \<Rightarrow> (sdp_msg \<times> errno option) option" where
  "parse_rtpmap sdp src =
     (case scan_u (drop 7 src) of None \<Rightarrow> Some (sdp, Some EINVAL)
      | Some (pt, _) \<Rightarrow>
          (case c_strchr src CHR '' '' of None \<Rightarrow> Some (sdp, Some EINVAL)
           | Some audio_name \<Rightarrow>
               if length audio_name \<le> length (sdp_msg_line_end src) then Some (sdp, Some EINVAL)
               else (case sdp_audio_codecs_by_payload_type (audio_codecs sdp) pt True of
                       (ac, None) \<Rightarrow> Some (sdp\<lparr>audio_codecs := ac\<rparr>, Some ENOSPC)
                     | (ac, Some i) \<Rightarrow>
                         (case scan_rtpmap audio_name of None \<Rightarrow> Some (sdp\<lparr>audio_codecs := ac\<rparr>, Some EINVAL)
                          | Some (name, r, ch) \<Rightarrow>
                              if length name \<ge> 16 then None
                              else Some (sdp\<lparr>audio_codecs := ac_upd ac i (\<lambda>c. c\<lparr>subtype_name := name,
                                                rate := (case r of None \<Rightarrow> rate c | Some v \<Rightarrow> v)\<rparr>)\<rparr>,
                                         if ch \<noteq> None \<and> ch \<noteq> Some 1 then Some ENOTSUP else None)))))"

definition parse_fmtp :: "sdp_msg \<Rightarrow> string \<Rightarrow> (sdp_msg \<times> errno option) option" where
  "parse_fmtp sdp src =
     (case scan_u (drop 5 src) of None \<Rightarrow> Some (sdp, Some EINVAL)
      | Some (pt, _) \<Rightarrow>
          (case c_strchr src CHR '' '' of None \<Rightarrow> Some (sdp, Some EINVAL)
           | Some sp \<Rightarrow>
               let fmtp_str = tl sp; line_end = sdp_msg_line_end src in
               if length fmtp_str \<le> length line_end then Some (sdp, Some EINVAL)
               else (case sdp_audio_codecs_by_payload_type (audio_codecs sdp) pt True of
                       (ac, None) \<Rightarrow> Some (sdp\<lparr>audio_codecs := ac\<rparr>, Some ENOSPC)
                     | (ac, Some i) \<Rightarrow>
                         let v = take (length fmtp_str - length line_end) fmtp_str in
                         if length v \<ge> 256 then None
                         else Some (sdp\<lparr>audio_codecs := ac_upd ac i (\<lambda>c. c\<lparr>fmtp := v\<rparr>)\<rparr>, None))))"

definition sdp_parse_attrib :: "sdp_msg \<Rightarrow> string \<Rightarrow> (sdp_msg \<times> errno option) option" where
  "sdp_parse_attrib sdp src =
     (if prefix ''rtpmap:'' src then parse_rtpmap sdp src
      else if prefix ''fmtp:'' src then parse_fmtp sdp src
      else if prefix ''ptime:'' src then
        (case scan_u (drop 6 src) of None \<Rightarrow> Some (sdp, Some EINVAL) | Some (n, _) \<Rightarrow> Some (sdp\<lparr>ptime := n\<rparr>, None))
      else if prefix ''rtcp:'' src then Some (sdp, None)
      else if prefix (sdp_mode_str SDP_MODE_SENDRECV) src then Some (sdp\<lparr>mode := SDP_MODE_SENDRECV\<rparr>, None)
      else if prefix (sdp_mode_str SDP_MODE_SENDONLY) src then Some (sdp\<lparr>mode := SDP_MODE_SENDONLY\<rparr>, None)
      else if prefix (sdp_mode_str SDP_MODE_RECVONLY) src then Some (sdp\<lparr>mode := SDP_MODE_RECVONLY\<rparr>, None)
      else if prefix (sdp_mode_str SDP_MODE_INACTIVE) src then Some (sdp\<lparr>mode := SDP_MODE_INACTIVE\<rparr>, None)
      else Some (sdp, None))"

definition sdp_msg_payload_type_names :: "(nat \<times> string) list" where
  "sdp_msg_payload_type_names = [(0, ''PCMU''), (3, ''GSM''), (8, ''PCMA''), (18, ''G729''), (110, ''GSM-EFR''),
     (111, ''GSM-HR-08''), (112, ''AMR''), (113, ''AMR-WB'')]"

definition skip_sp :: "string \<Rightarrow> string" where
  "skip_sp s = dropWhile (\<lambda>c. c = CHR '' '') s"

text \<open>The loop that skips three words.\<close>

fun skip_words :: "nat \<Rightarrow> string \<Rightarrow> string \<Rightarrow> string option" where
  "skip_words 0 line_end p = Some p"
| "skip_words (Suc n) line_end p =
     (case c_strchr p CHR '' '' of None \<Rightarrow> None
      | Some q \<Rightarrow> if length (skip_sp q) \<le> length line_end then None else skip_words n line_end (skip_sp q))"

lemma c_strchr_length: "c_strchr s c = Some r \<Longrightarrow> length r \<le> length s"
  by (auto simp: c_strchr_def length_dropWhile_le split: list.splits)

lemma c_strchr_hd: "c_strchr s c = Some r \<Longrightarrow> \<exists>r'. r = c # r'"
  unfolding c_strchr_def by (auto split: list.splits simp: dropWhile_eq_Cons_conv dest: sym)

lemma next_word_shorter:
  assumes "length line_end < length p"
  shows "length (skip_sp (case c_strchr p CHR '' '' of None \<Rightarrow> line_end | Some q \<Rightarrow> q)) < length p"
proof (cases "c_strchr p CHR '' ''")
  case None
  then show ?thesis using assms length_dropWhile_le [of "\<lambda>c. c = CHR '' ''" line_end] by (simp add: skip_sp_def)
next
  case (Some q)
  then obtain r where "q = CHR '' '' # r" using c_strchr_hd by blast
  with Some c_strchr_length [OF Some] length_dropWhile_le [of "\<lambda>c. c = CHR '' ''" r] show ?thesis by (simp add: skip_sp_def)
qed

text \<open>The list of payload type numbers.\<close>

function parse_payload_types :: "string \<Rightarrow> string \<Rightarrow> sdp_audio_codecs \<Rightarrow> sdp_audio_codecs \<times> errno option" where
  "parse_payload_types line_end p ac =
     (if length p \<le> length line_end then (ac, None)
      else (case scan_u p of None \<Rightarrow> (ac, Some EINVAL)
            | Some (pt, _) \<Rightarrow>
                (case sdp_audio_codecs_by_payload_type ac pt True of
                   (ac1, None) \<Rightarrow> (ac1, Some ENOSPC)
                 | (ac1, Some i) \<Rightarrow>
                     parse_payload_types line_end (skip_sp (case c_strchr p CHR '' '' of None \<Rightarrow> line_end | Some q \<Rightarrow> q))
                       (case map_of sdp_msg_payload_type_names (payload_type (ac_codec ac1 ! i)) of None \<Rightarrow> ac1
                        | Some name \<Rightarrow> ac_upd ac1 i (\<lambda>c. c\<lparr>subtype_name := strlcpy 16 name\<rparr>)))))"
  by pat_completeness auto
termination
  by (relation "measure (\<lambda>(_, p, _). length p)") (auto simp: next_word_shorter not_le)

declare parse_payload_types.simps [simp del]

definition sdp_parse_media_description :: "sdp_msg \<Rightarrow> string \<Rightarrow> sdp_msg \<times> errno option" where
  "sdp_parse_media_description sdp src =
     (case (if prefix ''audio'' src then scan_u (drop 5 src) else None) of None \<Rightarrow> (sdp, Some ENOTSUP)
      | Some (pt, _) \<Rightarrow>
          if pt > 0xffff then (sdp, Some EINVAL)
          else let sdp1 = sdp\<lparr>rtp := (rtp sdp)\<lparr>port := pt\<rparr>\<rparr>; line_end = sdp_msg_line_end src in
            (case skip_words 3 line_end src of None \<Rightarrow> (sdp1, Some EINVAL)
             | Some p \<Rightarrow> (case parse_payload_types line_end p (audio_codecs sdp1) of (ac, rc) \<Rightarrow> (sdp1\<lparr>audio_codecs := ac\<rparr>, rc))))"

text \<open>
  \<open>sscanf(src, "IN %s %s", ipv, addr_str)\<close> into arrays of 10 and 46 characters, without field widths.
\<close>

definition sdp_parse_connection_info :: "ip_lib \<Rightarrow> sdp_msg \<Rightarrow> string \<Rightarrow> (sdp_msg \<times> errno option) option" where
  "sdp_parse_connection_info L sdp src =
     (if \<not> prefix ''IN'' src then Some (sdp, Some EINVAL)
      else let s1 = skip_ws (drop 2 src); ipv = takeWhile (\<lambda>c. \<not> c_isspace c) s1;
               s2 = skip_ws (drop (length ipv) s1); addr = takeWhile (\<lambda>c. \<not> c_isspace c) s2 in
        if length ipv \<ge> 10 then None
        else if ipv = [] \<or> addr = [] then Some (sdp, Some EINVAL)
        else if length addr \<ge> 46 then None
        else if ipv \<noteq> ''IP4'' then Some (sdp, Some ENOTSUP)
        else Some (sdp\<lparr>rtp := sockaddr_from_str L (rtp sdp) addr (port (rtp sdp))\<rparr>, None))"

definition sdp_parse_line :: "ip_lib \<Rightarrow> sdp_msg \<Rightarrow> char \<Rightarrow> string \<Rightarrow> (sdp_msg \<times> errno option) option" where
  "sdp_parse_line L sdp attrib pos =
     (if attrib = CHR ''a'' then sdp_parse_attrib sdp pos
      else if attrib = CHR ''m'' then Some (sdp_parse_media_description sdp pos)
      else if attrib = CHR ''c'' then sdp_parse_connection_info L sdp pos
      else Some (sdp, None))"

lemma c_strstr_length: "c_strstr s pat = Some r \<Longrightarrow> length r \<le> length s"
  by (induction s pat rule: c_strstr.induct) (auto split: if_splits)

lemma c_strstr_CRLF_shorter: "c_strstr s CRLF = Some r \<Longrightarrow> length (tl r) < length s"
  by (induction s CRLF rule: c_strstr.induct) (auto simp: CRLF_def split: if_splits)

text \<open>The walk over the lines; \<open>pos\<close> is at the start of a line or at a line end character.\<close>

function sdp_parse_lines :: "ip_lib \<Rightarrow> sdp_msg \<Rightarrow> string \<Rightarrow> (sdp_msg \<times> errno option) option" where
  "sdp_parse_lines L sdp pos =
     (case pos of [] \<Rightarrow> Some (sdp, None)
      | c # s \<Rightarrow>
          if c = CR \<or> c = LF then sdp_parse_lines L sdp s
          else if s = [] \<or> hd s \<noteq> CHR ''='' then
            (case c_strstr (c # s) CRLF of None \<Rightarrow> Some (sdp, None) | Some q \<Rightarrow> sdp_parse_lines L sdp (tl q))
          else (case sdp_parse_line L sdp c (tl s) of
                  None \<Rightarrow> None
                | Some (sdp1, Some e) \<Rightarrow> Some (sdp1, Some e)
                | Some (sdp1, None) \<Rightarrow>
                    (case c_strstr (tl s) CRLF of None \<Rightarrow> Some (sdp1, None) | Some q \<Rightarrow> sdp_parse_lines L sdp1 (tl q))))"
  by pat_completeness auto
termination
proof (relation "measure (\<lambda>(_, _, pos). length pos)", goal_cases)
  case (3 L sdp pos c s q)
  then show ?case using c_strstr_CRLF_shorter [of "c # s" q] by simp
next
  case (4 L sdp pos c s x sdp1 y q)
  then show ?case using c_strstr_CRLF_shorter [of "tl s" q] by simp
qed simp_all

declare sdp_parse_lines.simps [simp del]

definition sdp_msg_zero :: sdp_msg where
  "sdp_msg_zero = \<lparr>rtp = \<lparr>ip = [], port = 0\<rparr>, ptime = 0, mode = SDP_MODE_UNSET, audio_codecs = sdp_audio_codecs_zero,
     bearer_services = csd_bs_list_zero\<rparr>"

definition sdp_msg_from_sdp_str :: "ip_lib \<Rightarrow> string option \<Rightarrow> (sdp_msg \<times> errno option) option" where
  "sdp_msg_from_sdp_str L src = (case src of None \<Rightarrow> Some (sdp_msg_zero, None) | Some s \<Rightarrow> sdp_parse_lines L sdp_msg_zero s)"

subsection \<open>Reading back what was printed\<close>

lemma of_char_digit: "n < 10 \<Longrightarrow> (of_char (digit_char n) :: nat) = 48 + n"
  by (simp add: digit_char_def)

lemma dec_val_dec_str: "dec_val (dec_str n) = n"
proof (induction n rule: dec_str.induct)
  case (1 n)
  then show ?case
    by (cases "n < 10") (simp_all add: dec_str.simps [of n] dec_val_def of_char_digit)
qed

lemma dec_str_digits: "c \<in> set (dec_str n) \<Longrightarrow> c_isdigit c"
proof (induction n rule: dec_str.induct)
  case (1 n)
  then show ?case
    by (cases "n < 10") (auto simp: dec_str.simps [of n] c_isdigit_def of_char_digit)
qed

lemma dec_str_not_Nil [simp]: "dec_str n \<noteq> []"
  by (simp add: dec_str.simps [of n])

lemma isdigit_not_special:
  "c_isdigit c \<Longrightarrow> \<not> c_isspace c \<and> c \<noteq> CHR ''-'' \<and> c \<noteq> CHR ''+'' \<and> c \<noteq> CHR ''/'' \<and> c \<noteq> CHR '' '' \<and> c \<noteq> CR \<and> c \<noteq> LF"
  by (auto simp: c_isdigit_def c_isspace_def)

lemma scan_u_skip [simp]: "scan_u (CHR '' '' # s) = scan_u s"
  by (simp add: scan_u_def skip_ws_def c_isspace_def)

lemma scan_u_dec_str:
  assumes "n < 2 ^ 32" and "rest = [] \<or> \<not> c_isdigit (hd rest)"
  shows "scan_u (dec_str n @ rest) = Some (n, rest)"
proof -
  obtain d ds where d: "dec_str n = d # ds" using dec_str_not_Nil by (meson list.exhaust)
  have digs: "\<And>c. c \<in> set (d # ds) \<Longrightarrow> c_isdigit c" using dec_str_digits [of _ n] d by simp
  have tw: "takeWhile c_isdigit (d # ds @ rest) = d # ds"
    using digs assms(2) by (cases rest) (simp_all add: takeWhile_append2)
  have "dec_val (d # ds) = n" using dec_val_dec_str [of n] d by simp
  moreover have "strtoul_uint False n = n" using assms(1) by (simp add: strtoul_uint_def)
  ultimately show ?thesis
    using tw isdigit_not_special [OF digs [of d]] by (simp add: scan_u_def skip_ws_def d Let_def)
qed

lemma c_strchr_append: "c \<notin> set a \<Longrightarrow> c_strchr (a @ c # b) c = Some (c # b)"
  unfolding c_strchr_def by (subst dropWhile_append2) auto

lemma c_strchr_skip: "c \<notin> set a \<Longrightarrow> c_strchr (a @ b) c = c_strchr b c"
  unfolding c_strchr_def by (subst dropWhile_append2) auto

lemma c_strstr_CRLF: "CR \<notin> set a \<Longrightarrow> c_strstr (a @ CRLF @ b) CRLF = Some (CRLF @ b)"
  by (induction a) (auto simp: CRLF_def)

lemma line_end_append: "CR \<notin> set a \<Longrightarrow> sdp_msg_line_end (a @ CRLF @ b) = CRLF @ b"
  by (simp add: sdp_msg_line_end_def CRLF_def c_strchr_append)

text \<open>One line of a message, taken off the front.\<close>

lemma parse_lines_line:
  assumes "CR \<notin> set body" and "c \<noteq> CR" and "c \<noteq> LF"
  shows "sdp_parse_lines L sdp (c # CHR ''='' # body @ CRLF @ rest) =
     (case sdp_parse_line L sdp c (body @ CRLF @ rest) of
        None \<Rightarrow> None
      | Some (sdp1, Some e) \<Rightarrow> Some (sdp1, Some e)
      | Some (sdp1, None) \<Rightarrow> sdp_parse_lines L sdp1 rest)"
proof -
  have skip: "sdp_parse_lines L s (LF # rest) = sdp_parse_lines L s rest" for s
    by (subst sdp_parse_lines.simps) simp
  have "c_strstr (body @ CRLF @ rest) CRLF = Some (CRLF @ rest)" by (rule c_strstr_CRLF) fact
  moreover have "tl (CRLF @ rest) = LF # rest" by (simp add: CRLF_def)
  ultimately show ?thesis
    using assms by (subst sdp_parse_lines.simps) (auto simp: skip split: option.splits)
qed

text \<open>What the round trip needs of a codec: its name has at most 15 characters and can be scanned back.\<close>

definition codec_printable :: "sdp_audio_codec \<Rightarrow> bool" where
  "codec_printable c \<longleftrightarrow> payload_type c < 2 ^ 31 \<and> rate c < 2 ^ 31
     \<and> subtype_name c \<noteq> [] \<and> length (subtype_name c) < 16
     \<and> (\<forall>x\<in>set (subtype_name c). \<not> c_isspace x \<and> x \<noteq> CHR ''/'')
     \<and> length (fmtp c) < 256 \<and> CR \<notin> set (fmtp c)"

text \<open>A codec as it comes back.\<close>

definition codec_read :: "sdp_audio_codec \<Rightarrow> sdp_audio_codec" where
  "codec_read c = c\<lparr>rate := (if rate c > 0 then rate c else 8000)\<rparr>"

text \<open>A codec as the media line alone introduces it.\<close>

definition codec_intro :: "nat \<Rightarrow> sdp_audio_codec" where
  "codec_intro pt = sdp_audio_codec_zero\<lparr>payload_type := pt, rate := 8000,
     subtype_name := (case map_of sdp_msg_payload_type_names pt of None \<Rightarrow> [] | Some n \<Rightarrow> strlcpy 16 n)\<rparr>"

lemma entries_len: "sdp_pt_inv ac \<Longrightarrow> length (ac_entries ac) = ac_count ac"
  by (simp add: ac_entries_def sdp_pt_inv_def)

lemma by_pt_at:
  assumes "sdp_pt_inv ac" and "ac_entries ac = ds @ c # rs"
  shows "sdp_audio_codecs_by_payload_type ac (payload_type c) True = (ac, Some (length ds))"
proof -
  have "payload_type c \<notin> payload_type ` set ds" using assms by (auto simp: sdp_pt_inv_def)
  then have "first_idx (\<lambda>x. payload_type x = payload_type c) (ds @ c # rs) = Some (length ds)"
    by (induction ds) auto
  then show ?thesis using assms(2) by (simp add: sdp_audio_codecs_by_payload_type_def)
qed

lemma ac_upd_at:
  assumes "sdp_pt_inv ac" and "ac_entries ac = ds @ c # rs" and "payload_type (f c) = payload_type c"
  shows "ac_entries (ac_upd ac (length ds) f) = ds @ f c # rs" and "sdp_pt_inv (ac_upd ac (length ds) f)"
proof -
  have "length ds < ac_count ac" using entries_len [OF assms(1)] assms(2) by simp
  then show e: "ac_entries (ac_upd ac (length ds) f) = ds @ f c # rs"
    using assms(1,2) by (simp add: entries_ac_upd sdp_pt_inv_def)
  show "sdp_pt_inv (ac_upd ac (length ds) f)"
    using assms(1,2,3) e by (simp add: sdp_pt_inv_def)
qed

text \<open>A new payload type number on the media line.\<close>

lemma intro_codec:
  assumes inv: "sdp_pt_inv ac" and new: "pt \<notin> payload_type ` set (ac_entries ac)" and room: "ac_count ac < 16"
  obtains ac1 ac2 i where "sdp_audio_codecs_by_payload_type ac pt True = (ac1, Some i)"
    and "(case map_of sdp_msg_payload_type_names (payload_type (ac_codec ac1 ! i)) of None \<Rightarrow> ac1
          | Some name \<Rightarrow> ac_upd ac1 i (\<lambda>c. c\<lparr>subtype_name := strlcpy 16 name\<rparr>)) = ac2"
    and "ac_entries ac2 = ac_entries ac @ [codec_intro pt]" and "sdp_pt_inv ac2" and "ac_count ac2 = Suc (ac_count ac)"
proof -
  let ?c = "sdp_audio_codec_zero\<lparr>payload_type := pt, rate := 8000\<rparr>"
  obtain ac1 where e1: "sdp_audio_codecs_by_payload_type ac pt True = (ac1, Some (ac_count ac))"
    and e2: "ac_entries ac1 = ac_entries ac @ [?c]" and e3: "ac_count ac1 = Suc (ac_count ac)" "length (ac_codec ac1) = 16"
    using by_payload_type_created [OF inv new room] by blast
  have inv1: "sdp_pt_inv ac1" using inv new e2 e3 room by (auto simp: sdp_pt_inv_def)
  have len: "ac_count ac = length (ac_entries ac)" using entries_len [OF inv] by simp
  have c: "ac_codec ac1 ! ac_count ac = ?c"
  proof -
    have "ac_codec ac1 ! ac_count ac = ac_entries ac1 ! ac_count ac" using e3 room by (simp add: ac_entries_def)
    also have "\<dots> = ?c" unfolding e2 len by (rule nth_append_length)
    finally show ?thesis .
  qed
  have z: "subtype_name sdp_audio_codec_zero = []" by (simp add: sdp_audio_codec_zero_def)
  show thesis
  proof (cases "map_of sdp_msg_payload_type_names pt")
    case None
    show thesis
      by (rule that [OF e1 refl]) (use None c e2 e3 inv1 z in \<open>simp_all add: codec_intro_def sdp_audio_codec_zero_def\<close>)
  next
    case (Some n)
    let ?f = "\<lambda>c. c\<lparr>subtype_name := strlcpy 16 n\<rparr>"
    have "ac_entries (ac_upd ac1 (ac_count ac) ?f) = ac_entries ac @ [?f ?c]"
      "sdp_pt_inv (ac_upd ac1 (ac_count ac) ?f)"
      using ac_upd_at [OF inv1 e2, of ?f, folded len] by simp_all
    then show thesis
      by (intro that [OF e1 refl]) (use Some c e3 in \<open>simp_all add: codec_intro_def sdp_audio_codec_zero_def\<close>)
  qed
qed

text \<open>The payload type numbers of a media line, printed and read.\<close>

definition print_pts :: "nat list \<Rightarrow> string" where
  "print_pts pts = concat (map (\<lambda>pt. '' '' @ print_d pt) pts)"

lemma print_d_plain: "n < 2 ^ 31 \<Longrightarrow> print_d n = dec_str n"
  by (simp add: print_d_def)

lemma parse_pts_printed:
  assumes "\<And>pt. pt \<in> set pts \<Longrightarrow> pt < 2 ^ 31" and "sdp_pt_inv ac" and "distinct pts"
    and "set pts \<inter> payload_type ` set (ac_entries ac) = {}" and "ac_count ac + length pts \<le> 16"
  shows "\<exists>ac'. parse_payload_types (CRLF @ rest) (skip_sp (print_pts pts @ CRLF @ rest)) ac = (ac', None)
    \<and> ac_entries ac' = ac_entries ac @ map codec_intro pts \<and> sdp_pt_inv ac'"
  using assms
proof (induction pts arbitrary: ac)
  case Nil
  then show ?case
    by (subst parse_payload_types.simps) (simp add: print_pts_def skip_sp_def CRLF_def)
next
  case (Cons pt pts)
  let ?tail = "print_pts pts @ CRLF @ rest"
  have new: "pt \<notin> payload_type ` set (ac_entries ac)" and room: "ac_count ac < 16" using Cons.prems(4,5) by auto
  obtain ac1 ac2 i where e: "sdp_audio_codecs_by_payload_type ac pt True = (ac1, Some i)"
    "(case map_of sdp_msg_payload_type_names (payload_type (ac_codec ac1 ! i)) of None \<Rightarrow> ac1
       | Some name \<Rightarrow> ac_upd ac1 i (\<lambda>c. c\<lparr>subtype_name := strlcpy 16 name\<rparr>)) = ac2"
    and ac2: "ac_entries ac2 = ac_entries ac @ [codec_intro pt]" "sdp_pt_inv ac2" "ac_count ac2 = Suc (ac_count ac)"
    by (rule intro_codec [OF Cons.prems(2) new room])
  have pp: "payload_type (codec_intro pt) = pt" by (simp add: codec_intro_def)
  obtain ac' where ac': "parse_payload_types (CRLF @ rest) (skip_sp ?tail) ac2 = (ac', None)"
    "ac_entries ac' = ac_entries ac2 @ map codec_intro pts" "sdp_pt_inv ac'"
    using Cons.IH [of ac2] Cons.prems ac2 pp by auto
  obtain d ds where d: "dec_str pt = d # ds" using dec_str_not_Nil by (meson list.exhaust)
  have dd: "d \<noteq> CHR '' ''" using dec_str_digits [of d pt] isdigit_not_special [of d] d by auto
  have pos: "skip_sp (print_pts (pt # pts) @ CRLF @ rest) = dec_str pt @ ?tail"
    using Cons.prems(1) dd d by (simp add: print_pts_def skip_sp_def print_d_plain)
  have hd_tail: "\<not> c_isdigit (hd ?tail)"
    by (cases pts) (simp_all add: print_pts_def CRLF_def c_isdigit_def)
  have sc: "scan_u (dec_str pt @ ?tail) = Some (pt, ?tail)"
    by (rule scan_u_dec_str) (use Cons.prems(1) [of pt] hd_tail in auto)
  have nosp: "CHR '' '' \<notin> set (dec_str pt)" using dec_str_digits isdigit_not_special by blast
  have nxt: "parse_payload_types (CRLF @ rest)
      (skip_sp (case c_strchr (dec_str pt @ ?tail) CHR '' '' of None \<Rightarrow> CRLF @ rest | Some q \<Rightarrow> q)) ac2 = (ac', None)"
  proof (cases pts)
    case Nil
    have "length (skip_sp (case c_strchr (CRLF @ rest) CHR '' '' of None \<Rightarrow> CRLF @ rest | Some q \<Rightarrow> q)) \<le> length (CRLF @ rest)"
      unfolding skip_sp_def
      by (rule order_trans [OF length_dropWhile_le]) (auto split: option.splits dest: c_strchr_length)
    moreover have "ac' = ac2"
      using ac'(1) unfolding Nil by (subst (asm) parse_payload_types.simps) (simp add: print_pts_def skip_sp_def CRLF_def)
    ultimately show ?thesis
      unfolding Nil by (subst parse_payload_types.simps) (simp add: print_pts_def c_strchr_skip [OF nosp])
  next
    case Cons
    then show ?thesis using ac'(1) by (simp add: print_pts_def c_strchr_append [OF nosp])
  qed
  have longer: "\<not> length (dec_str pt @ ?tail) \<le> length (CRLF @ rest)" by (simp add: d)
  have "parse_payload_types (CRLF @ rest) (dec_str pt @ ?tail) ac = (ac', None)"
    using longer sc e nxt by (subst parse_payload_types.simps) simp
  then show ?case using ac' ac2 pos by auto
qed

lemma scan_rtpmap_printed:
  assumes "codec_printable c" and "n < 2 ^ 31"
  shows "scan_rtpmap ('' '' @ subtype_name c @ ''/'' @ dec_str n @ CRLF @ rest) = Some (subtype_name c, Some n, None)"
proof -
  let ?n = "subtype_name c" and ?r = "''/'' @ dec_str n @ CRLF @ rest"
  have ok: "?n \<noteq> []" "length ?n < 16" "\<And>x. x \<in> set ?n \<Longrightarrow> \<not> c_isspace x \<and> x \<noteq> CHR ''/''"
    using assms(1) by (auto simp: codec_printable_def)
  have ws: "skip_ws ('' '' @ ?n @ ?r) = ?n @ ?r"
    using ok by (cases ?n) (simp_all add: skip_ws_def c_isspace_def)
  have "takeWhile (\<lambda>x. x \<noteq> CHR ''/'') (?n @ ?r) = ?n"
    by (subst takeWhile_append2) (use ok(3) in auto)
  then have name: "take 31 (takeWhile (\<lambda>x. x \<noteq> CHR ''/'') (?n @ ?r)) = ?n" using ok(2) by simp
  have "scan_u (dec_str n @ CRLF @ rest) = Some (n, CRLF @ rest)"
    by (rule scan_u_dec_str) (use assms(2) in \<open>simp_all add: CRLF_def c_isdigit_def\<close>)
  then have "scan_slash_u ?r = Some (n, CRLF @ rest)" by (simp add: scan_slash_u_def)
  moreover have "scan_slash_u (CRLF @ rest) = None" by (simp add: scan_slash_u_def CRLF_def)
  ultimately show ?thesis
    unfolding scan_rtpmap_def Let_def ws name using ok(1) by simp
qed

lemma no_sp_digits [simp]: "CHR '' '' \<notin> set (dec_str n)" "CR \<notin> set (dec_str n)"
  by (auto dest!: dec_str_digits isdigit_not_special)

lemma isspace_CR [simp]: "c_isspace CR"
  by (simp add: c_isspace_def)

lemma codec_printable_CR: "codec_printable c \<Longrightarrow> CR \<notin> set (subtype_name c)"
  using isspace_CR unfolding codec_printable_def by blast

lemma scan_u_then_space: "n < 2 ^ 31 \<Longrightarrow> scan_u (dec_str n @ '' '' @ rest) = Some (n, '' '' @ rest)"
  by (rule scan_u_dec_str) (simp_all add: c_isdigit_def)

text \<open>Past the keyword of an attribute and the payload type number.\<close>

lemma strchr_after_pt: "CHR '' '' \<notin> set k \<Longrightarrow> c_strchr (k @ dec_str n @ '' '' @ rest) CHR '' '' = Some ('' '' @ rest)"
  using c_strchr_append [of "CHR '' ''" "k @ dec_str n" rest] by simp

lemma line_end_after_pt:
  assumes "CR \<notin> set k" and "CR \<notin> set b"
  shows "sdp_msg_line_end (k @ dec_str n @ '' '' @ b @ CRLF @ rest) = CRLF @ rest"
  using line_end_append [of "k @ dec_str n @ '' '' @ b" rest] assms by simp

lemma parse_rtpmap_printed:
  assumes p: "codec_printable c" and n: "n < 2 ^ 31" and inv: "sdp_pt_inv (audio_codecs sdp)"
    and e: "ac_entries (audio_codecs sdp) = ds @ c0 # rs" and pt: "payload_type c0 = payload_type c"
  obtains ac where "parse_rtpmap sdp (''rtpmap:'' @ dec_str (payload_type c) @ '' '' @ (subtype_name c @ ''/'' @ dec_str n) @ CRLF @ rest)
      = Some (sdp\<lparr>audio_codecs := ac\<rparr>, None)"
    and "ac_entries ac = ds @ c0\<lparr>subtype_name := subtype_name c, rate := n\<rparr> # rs" and "sdp_pt_inv ac"
proof -
  let ?f = "\<lambda>x. x\<lparr>subtype_name := subtype_name c, rate := n\<rparr>"
  let ?b = "subtype_name c @ ''/'' @ dec_str n"
  have ok: "payload_type c < 2 ^ 31" "CR \<notin> set ?b" "length (subtype_name c) < 16"
    using p codec_printable_CR [OF p] by (simp_all add: codec_printable_def)
  have look: "sdp_audio_codecs_by_payload_type (audio_codecs sdp) (payload_type c) True = (audio_codecs sdp, Some (length ds))"
    using by_pt_at [OF inv e] pt by simp
  have scan: "scan_rtpmap ('' '' @ ?b @ CRLF @ rest) = Some (subtype_name c, Some n, None)"
    using scan_rtpmap_printed [OF p n] by simp
  have le: "sdp_msg_line_end (''rtpmap:'' @ dec_str (payload_type c) @ '' '' @ ?b @ CRLF @ rest) = CRLF @ rest"
    by (rule line_end_after_pt) (use ok(2) in \<open>simp_all\<close>)
  have sp: "c_strchr (''rtpmap:'' @ dec_str (payload_type c) @ '' '' @ ?b @ CRLF @ rest) CHR '' '' = Some ('' '' @ ?b @ CRLF @ rest)"
    by (rule strchr_after_pt) simp
  have su: "scan_u (drop 7 (''rtpmap:'' @ dec_str (payload_type c) @ '' '' @ ?b @ CRLF @ rest)) = Some (payload_type c, '' '' @ ?b @ CRLF @ rest)"
    using scan_u_then_space [OF ok(1)] by simp
  have "parse_rtpmap sdp (''rtpmap:'' @ dec_str (payload_type c) @ '' '' @ ?b @ CRLF @ rest)
      = Some (sdp\<lparr>audio_codecs := ac_upd (audio_codecs sdp) (length ds) ?f\<rparr>, None)"
    by (simp only: parse_rtpmap_def su sp le scan look option.case prod.case) (use ok(3) in simp)
  then show thesis by (rule that) (use ac_upd_at [OF inv e, of ?f] in simp_all)
qed

lemma parse_fmtp_printed:
  assumes p: "codec_printable c" "fmtp c \<noteq> []" and inv: "sdp_pt_inv (audio_codecs sdp)"
    and e: "ac_entries (audio_codecs sdp) = ds @ c0 # rs" and pt: "payload_type c0 = payload_type c"
  obtains ac where "parse_fmtp sdp (''fmtp:'' @ dec_str (payload_type c) @ '' '' @ fmtp c @ CRLF @ rest)
      = Some (sdp\<lparr>audio_codecs := ac\<rparr>, None)"
    and "ac_entries ac = ds @ c0\<lparr>fmtp := fmtp c\<rparr> # rs" and "sdp_pt_inv ac"
proof -
  let ?f = "\<lambda>x. x\<lparr>fmtp := fmtp c\<rparr>" and ?src = "''fmtp:'' @ dec_str (payload_type c) @ '' '' @ fmtp c @ CRLF @ rest"
  have ok: "payload_type c < 2 ^ 31" "CR \<notin> set (fmtp c)" "length (fmtp c) < 256"
    using p by (auto simp: codec_printable_def)
  have look: "sdp_audio_codecs_by_payload_type (audio_codecs sdp) (payload_type c) True = (audio_codecs sdp, Some (length ds))"
    using by_pt_at [OF inv e] pt by simp
  have le: "sdp_msg_line_end ?src = CRLF @ rest"
    by (rule line_end_after_pt) (use ok(2) in \<open>simp_all\<close>)
  have sp: "c_strchr ?src CHR '' '' = Some ('' '' @ fmtp c @ CRLF @ rest)"
    by (rule strchr_after_pt) simp
  have su: "scan_u (drop 5 ?src) = Some (payload_type c, '' '' @ fmtp c @ CRLF @ rest)"
    using scan_u_then_space [OF ok(1)] by simp
  have "parse_fmtp sdp ?src = Some (sdp\<lparr>audio_codecs := ac_upd (audio_codecs sdp) (length ds) ?f\<rparr>, None)"
    by (simp only: parse_fmtp_def su sp le look option.case prod.case Let_def) (use ok(3) p(2) in simp)
  then show thesis by (rule that) (use ac_upd_at [OF inv e, of ?f] in simp_all)
qed

text \<open>A line \<open>a=...\<close> whose attribute parses without error.\<close>

lemma parse_lines_attrib:
  assumes "CR \<notin> set body" and "sdp_parse_attrib sdp (body @ CRLF @ rest) = Some (sdp1, None)"
  shows "sdp_parse_lines L sdp (''a='' @ body @ CRLF @ rest) = sdp_parse_lines L sdp1 rest"
  using parse_lines_line [OF assms(1), of "CHR ''a''" L sdp rest] assms(2)
  by (simp add: sdp_parse_line_def)


text \<open>The lines of one codec, which the media line has introduced.\<close>

lemma parse_codec_lines:
  assumes p: "codec_printable c" and inv: "sdp_pt_inv (audio_codecs sdp)"
    and e: "ac_entries (audio_codecs sdp) = ds @ codec_intro (payload_type c) # rs"
  shows "\<exists>ac. sdp_parse_lines L sdp (codec_lines c @ rest) = sdp_parse_lines L (sdp\<lparr>audio_codecs := ac\<rparr>) rest
    \<and> ac_entries ac = ds @ codec_read c # rs \<and> sdp_pt_inv ac"
proof -
  let ?c0 = "codec_intro (payload_type c)" and ?pt = "dec_str (payload_type c)"
  define r where "r = (if rate c > 0 then rate c else 8000)"
  define c1 where "c1 = ?c0\<lparr>subtype_name := subtype_name c, rate := r\<rparr>"
  define more where "more = (if fmtp c \<noteq> [] then ''a='' @ (''fmtp:'' @ ?pt @ '' '' @ fmtp c) @ CRLF @ rest else rest)"
  have r: "r < 2 ^ 31" and n: "subtype_name c \<noteq> []" "payload_type c < 2 ^ 31" and cr: "CR \<notin> set (fmtp c)"
    using p by (auto simp: codec_printable_def r_def)
  have all: "codec_lines c @ rest = ''a='' @ (''rtpmap:'' @ ?pt @ '' '' @ (subtype_name c @ ''/'' @ dec_str r)) @ CRLF @ more"
    using n r by (simp add: codec_lines_def sdp_audio_codec_is_set_def print_d_plain r_def more_def)
  obtain ac1 where a1: "parse_rtpmap sdp (''rtpmap:'' @ ?pt @ '' '' @ (subtype_name c @ ''/'' @ dec_str r) @ CRLF @ more)
      = Some (sdp\<lparr>audio_codecs := ac1\<rparr>, None)"
    and e1: "ac_entries ac1 = ds @ c1 # rs" and inv1: "sdp_pt_inv ac1"
    using parse_rtpmap_printed [OF p r inv e, of more] unfolding c1_def by (auto simp: codec_intro_def)
  have "sdp_parse_lines L sdp (codec_lines c @ rest) = sdp_parse_lines L (sdp\<lparr>audio_codecs := ac1\<rparr>) more"
    unfolding all
    by (rule parse_lines_attrib)
      (use a1 codec_printable_CR [OF p] in \<open>simp_all add: sdp_parse_attrib_def\<close>)
  moreover have "\<exists>ac. sdp_parse_lines L (sdp\<lparr>audio_codecs := ac1\<rparr>) more = sdp_parse_lines L (sdp\<lparr>audio_codecs := ac\<rparr>) rest
    \<and> ac_entries ac = ds @ codec_read c # rs \<and> sdp_pt_inv ac"
  proof (cases "fmtp c = []")
    case True
    then have "c1 = codec_read c" by (simp add: c1_def codec_read_def r_def codec_intro_def sdp_audio_codec_zero_def)
    then show ?thesis using True e1 inv1 by (auto simp: more_def)
  next
    case False
    obtain ac2 where a2: "parse_fmtp (sdp\<lparr>audio_codecs := ac1\<rparr>) (''fmtp:'' @ ?pt @ '' '' @ fmtp c @ CRLF @ rest)
        = Some (sdp\<lparr>audio_codecs := ac2\<rparr>, None)"
      and e2: "ac_entries ac2 = ds @ c1\<lparr>fmtp := fmtp c\<rparr> # rs" and inv2: "sdp_pt_inv ac2"
      using parse_fmtp_printed [OF p False, of "sdp\<lparr>audio_codecs := ac1\<rparr>" ds c1 rs rest] e1 inv1
      by (auto simp: c1_def codec_intro_def)
    have "c1\<lparr>fmtp := fmtp c\<rparr> = codec_read c" by (simp add: c1_def codec_read_def r_def codec_intro_def sdp_audio_codec_zero_def)
    moreover have "sdp_parse_lines L (sdp\<lparr>audio_codecs := ac1\<rparr>) more = sdp_parse_lines L (sdp\<lparr>audio_codecs := ac2\<rparr>) rest"
      unfolding more_def if_P [OF False]
      by (rule parse_lines_attrib) (use a2 cr in \<open>simp_all add: sdp_parse_attrib_def\<close>)
    ultimately show ?thesis using e2 inv2 by auto
  qed
  ultimately show ?thesis by simp
qed

lemma parse_all_codec_lines:
  assumes "\<forall>c\<in>set cs. codec_printable c" and "sdp_pt_inv (audio_codecs sdp)"
    and "ac_entries (audio_codecs sdp) = ds @ map (\<lambda>c. codec_intro (payload_type c)) cs"
  shows "\<exists>ac. sdp_parse_lines L sdp (concat (map codec_lines cs) @ rest) = sdp_parse_lines L (sdp\<lparr>audio_codecs := ac\<rparr>) rest
    \<and> ac_entries ac = ds @ map codec_read cs \<and> sdp_pt_inv ac"
  using assms
proof (induction cs arbitrary: sdp ds)
  case Nil
  then show ?case by (intro exI [of _ "audio_codecs sdp"]) simp
next
  case (Cons c cs)
  obtain ac1 where a: "sdp_parse_lines L sdp (codec_lines c @ concat (map codec_lines cs) @ rest)
      = sdp_parse_lines L (sdp\<lparr>audio_codecs := ac1\<rparr>) (concat (map codec_lines cs) @ rest)"
    "ac_entries ac1 = ds @ codec_read c # map (\<lambda>c. codec_intro (payload_type c)) cs" "sdp_pt_inv ac1"
    using parse_codec_lines [of c sdp ds "map (\<lambda>c. codec_intro (payload_type c)) cs" L "concat (map codec_lines cs) @ rest"]
      Cons.prems by auto
  then show ?case using Cons.IH [of "sdp\<lparr>audio_codecs := ac1\<rparr>" "ds @ [codec_read c]"] Cons.prems(1) by auto
qed

text \<open>The address as it is printed.\<close>

definition print_ip :: "sdp_msg \<Rightarrow> string" where
  "print_ip m = (if ip (rtp m) \<noteq> [] then ip (rtp m) else ''0.0.0.0'')"

text \<open>
  What \<open>osmo_ip_str_type()\<close> and \<open>osmo_sockaddr_str_from_str()\<close> do with an IPv4 address in dotted notation: it is not
  an IPv6 address, and it is stored as given, with the port.
\<close>

definition ip4_laws :: "ip_lib \<Rightarrow> string \<Rightarrow> bool" where
  "ip4_laws L a \<longleftrightarrow> \<not> ip_is_v6 L a \<and> (\<forall>r p. sockaddr_from_str L r a p = \<lparr>ip = a, port = p\<rparr>)"

definition sdp_printable :: "sdp_msg \<Rightarrow> bool" where
  "sdp_printable m \<longleftrightarrow> sdp_pt_inv (audio_codecs m) \<and> ac_entries (audio_codecs m) \<noteq> []
     \<and> (\<forall>c\<in>set (ac_entries (audio_codecs m)). codec_printable c)
     \<and> length (print_ip m) < 46 \<and> (\<forall>x\<in>set (print_ip m). \<not> c_isspace x)
     \<and> port (rtp m) < 2 ^ 16 \<and> ptime m < 2 ^ 31"

lemma parse_lines_ignored:
  assumes "CR \<notin> set body" and "c \<notin> {CHR ''a'', CHR ''m'', CHR ''c'', CR, LF}"
  shows "sdp_parse_lines L sdp (c # CHR ''='' # body @ CRLF @ rest) = sdp_parse_lines L sdp rest"
  using parse_lines_line [OF assms(1), of c L sdp rest] assms(2) by (simp add: sdp_parse_line_def)

lemma parse_connection_printed:
  assumes "ip4_laws L a" and "a \<noteq> []" and "length a < 46" and "\<forall>x\<in>set a. \<not> c_isspace x"
  shows "sdp_parse_lines L sdp (''c='' @ (''IN IP4 '' @ a) @ CRLF @ rest)
    = sdp_parse_lines L (sdp\<lparr>rtp := \<lparr>ip = a, port = port (rtp sdp)\<rparr>\<rparr>) rest"
proof -
  have tw: "takeWhile (\<lambda>c. \<not> c_isspace c) (a @ CRLF @ rest) = a"
    by (subst takeWhile_append2) (use assms(4) in \<open>auto simp: CRLF_def\<close>)
  have ws: "skip_ws (CHR '' '' # a @ CRLF @ rest) = a @ CRLF @ rest"
    using assms(2,4) by (cases a) (simp_all add: skip_ws_def c_isspace_def)
  have "sdp_parse_connection_info L sdp (''IN IP4 '' @ a @ CRLF @ rest) = Some (sdp\<lparr>rtp := \<lparr>ip = a, port = port (rtp sdp)\<rparr>\<rparr>, None)"
    using assms(1,2,3) tw ws
    by (simp add: sdp_parse_connection_info_def Let_def skip_ws_def c_isspace_def ip4_laws_def)
  moreover have "CR \<notin> set a" using assms(4) isspace_CR by blast
  ultimately show ?thesis
    using parse_lines_line [of "''IN IP4 '' @ a" "CHR ''c''" L sdp rest] by (simp add: sdp_parse_line_def)
qed

lemma skip_sp_dec_str: "skip_sp (dec_str n @ s) = dec_str n @ s"
proof -
  obtain d ds where d: "dec_str n = d # ds" using dec_str_not_Nil by (meson list.exhaust)
  then have "d \<noteq> CHR '' ''" using dec_str_digits [of d n] isdigit_not_special [of d] by auto
  then show ?thesis by (simp add: skip_sp_def d)
qed

lemma parse_media_printed:
  assumes pts: "\<And>pt. pt \<in> set pts \<Longrightarrow> pt < 2 ^ 31" "distinct pts" "pts \<noteq> []" "length pts \<le> 16"
    and n: "n < 2 ^ 16" and z: "audio_codecs sdp = sdp_audio_codecs_zero"
  shows "\<exists>ac. sdp_parse_media_description sdp (''audio '' @ dec_str n @ '' RTP/AVP'' @ print_pts pts @ CRLF @ rest)
      = (sdp\<lparr>rtp := (rtp sdp)\<lparr>port := n\<rparr>, audio_codecs := ac\<rparr>, None)
    \<and> ac_entries ac = map codec_intro pts \<and> sdp_pt_inv ac"
proof -
  let ?tail = "print_pts pts @ CRLF @ rest"
  let ?src = "''audio '' @ dec_str n @ '' RTP/AVP'' @ ?tail"
  obtain pt pts' where pc: "pts = pt # pts'" using pts(3) by (cases pts) auto
  obtain e es where e: "dec_str pt = e # es" using dec_str_not_Nil by (meson list.exhaust)
  have ee: "e \<noteq> CHR '' ''" using dec_str_digits [of e pt] isdigit_not_special [of e] e by auto
  have tail: "?tail = CHR '' '' # dec_str pt @ print_pts pts' @ CRLF @ rest"
    using pts(1) [of pt] by (simp add: print_pts_def pc print_d_plain)
  have su: "scan_u (drop 5 ?src) = Some (n, '' RTP/AVP'' @ ?tail)"
    using scan_u_then_space [of n "''RTP/AVP'' @ ?tail"] n by simp
  have CR: "CR \<notin> set (print_pts pts)" using pts(1) by (auto simp: print_pts_def print_d_plain)
  have le: "sdp_msg_line_end ?src = CRLF @ rest"
    using line_end_append [of "''audio '' @ dec_str n @ '' RTP/AVP'' @ print_pts pts" rest] CR by simp
  have s1: "c_strchr ?src CHR '' '' = Some (CHR '' '' # dec_str n @ '' RTP/AVP'' @ ?tail)"
    using c_strchr_append [of "CHR '' ''" "''audio''" "dec_str n @ '' RTP/AVP'' @ ?tail"] by simp
  have k1: "skip_sp (CHR '' '' # dec_str n @ '' RTP/AVP'' @ ?tail) = dec_str n @ '' RTP/AVP'' @ ?tail"
    using skip_sp_dec_str by (simp add: skip_sp_def)
  have s2: "c_strchr (dec_str n @ '' RTP/AVP'' @ ?tail) CHR '' '' = Some ('' RTP/AVP'' @ ?tail)"
    using c_strchr_append [of "CHR '' ''" "dec_str n" "''RTP/AVP'' @ ?tail"] by simp
  have k2: "skip_sp ('' RTP/AVP'' @ ?tail) = ''RTP/AVP'' @ ?tail" by (simp add: skip_sp_def)
  have s3: "c_strchr (''RTP/AVP'' @ ?tail) CHR '' '' = Some ?tail"
    using c_strchr_append [of "CHR '' ''" "''RTP/AVP''" "dec_str pt @ print_pts pts' @ CRLF @ rest"] tail by simp
  have w: "skip_words 3 (CRLF @ rest) ?src = Some (skip_sp ?tail)"
    unfolding numeral_3_eq_3
    by (simp only: skip_words.simps s1 k1 s2 k2 s3 option.case) (use ee in \<open>simp add: skip_sp_def e tail\<close>)
  have inv: "sdp_pt_inv (audio_codecs sdp)" "ac_entries (audio_codecs sdp) = []" "ac_count (audio_codecs sdp) = 0"
    unfolding z using sdp_pt_inv_zero by (simp_all add: sdp_audio_codecs_zero_def ac_entries_def)
  obtain ac where "parse_payload_types (CRLF @ rest) (skip_sp ?tail) (audio_codecs sdp) = (ac, None)"
    "ac_entries ac = map codec_intro pts" "sdp_pt_inv ac"
    using parse_pts_printed [OF pts(1) inv(1) pts(2), of rest] inv(2,3) pts(4) by auto
  moreover have "prefix ''audio'' ?src" by simp
  ultimately show ?thesis
    unfolding sdp_parse_media_description_def su le Let_def w using n by (intro exI [of _ ac]) simp
qed

text \<open>The lines before the media line.\<close>

lemma parse_preamble:
  assumes "ip4_laws L a" and "a \<noteq> []" and "length a < 46" and "\<forall>x\<in>set a. \<not> c_isspace x"
  shows "sdp_parse_lines L sdp_msg_zero (''v='' @ ''0'' @ CRLF @ ''o='' @ (''OsmoMSC 0 0 IN IP4 '' @ a) @ CRLF
      @ ''s='' @ ''GSM Call'' @ CRLF @ ''c='' @ (''IN IP4 '' @ a) @ CRLF @ ''t='' @ ''0 0'' @ CRLF @ rest)
    = sdp_parse_lines L (sdp_msg_zero\<lparr>rtp := \<lparr>ip = a, port = 0\<rparr>\<rparr>) rest"
proof -
  have "CR \<notin> set a" using assms(4) isspace_CR by blast
  then show ?thesis
    using parse_lines_ignored [of "''0''" "CHR ''v''"] parse_lines_ignored [of "''OsmoMSC 0 0 IN IP4 '' @ a" "CHR ''o''"]
      parse_lines_ignored [of "''GSM Call''" "CHR ''s''"] parse_lines_ignored [of "''0 0''" "CHR ''t''"]
      parse_connection_printed [OF assms]
    by (simp add: sdp_msg_zero_def)
qed

lemma parse_mode_printed:
  "sdp_parse_lines L sdp (if m \<noteq> SDP_MODE_UNSET then ''a='' @ sdp_mode_str m @ CRLF else '''')
    = Some (if m = SDP_MODE_UNSET then sdp else sdp\<lparr>mode := m\<rparr>, None)"
proof (cases "m = SDP_MODE_UNSET")
  case False
  have "CR \<notin> set (sdp_mode_str m)" by (cases m) (simp_all add: sdp_mode_str_def)
  moreover have "sdp_parse_attrib sdp (sdp_mode_str m @ CRLF @ '''') = Some (sdp\<lparr>mode := m\<rparr>, None)"
    using False by (cases m) (simp_all add: sdp_mode_str_def sdp_parse_attrib_def)
  ultimately have "sdp_parse_lines L sdp (''a='' @ sdp_mode_str m @ CRLF @ '''') = sdp_parse_lines L (sdp\<lparr>mode := m\<rparr>) ''''"
    by (rule parse_lines_attrib)
  then show ?thesis using False by (simp add: sdp_parse_lines.simps [of _ _ "[]"])
qed (simp add: sdp_parse_lines.simps [of _ _ "[]"])

lemma parse_ptime_printed:
  assumes "n < 2 ^ 31"
  shows "sdp_parse_lines L sdp (''a=ptime:'' @ dec_str n @ CRLF @ rest) = sdp_parse_lines L (sdp\<lparr>ptime := n\<rparr>) rest"
proof -
  have "scan_u (dec_str n @ CRLF @ rest) = Some (n, CRLF @ rest)"
    by (rule scan_u_dec_str) (use assms in \<open>simp_all add: CRLF_def c_isdigit_def\<close>)
  then show ?thesis
    using parse_lines_attrib [of "''ptime:'' @ dec_str n" sdp rest "sdp\<lparr>ptime := n\<rparr>" L] by (simp add: sdp_parse_attrib_def)
qed

text \<open>What comes back of a message.\<close>

definition sdp_read_as :: "sdp_msg \<Rightarrow> sdp_msg \<Rightarrow> bool" where
  "sdp_read_as m m' \<longleftrightarrow> rtp m' = \<lparr>ip = print_ip m, port = port (rtp m)\<rparr>
     \<and> ptime m' = (if ptime m > 0 then ptime m else 20) \<and> mode m' = mode m
     \<and> ac_entries (audio_codecs m') = map codec_read (ac_entries (audio_codecs m))
     \<and> sdp_pt_inv (audio_codecs m') \<and> bearer_services m' = csd_bs_list_zero"

lemma sdp_text_read:
  assumes p: "sdp_printable m" and L: "ip4_laws L (print_ip m)"
  shows "\<exists>m'. sdp_parse_lines L sdp_msg_zero (sdp_msg_to_sdp_str L (Some m)) = Some (m', None) \<and> sdp_read_as m m'"
proof -
  define a where "a = print_ip m"
  define cs where "cs = ac_entries (audio_codecs m)"
  define pts where "pts = map payload_type cs"
  define t where "t = (if ptime m > 0 then ptime m else 20)"
  define fin where "fin = (if mode m \<noteq> SDP_MODE_UNSET then ''a='' @ sdp_mode_str (mode m) @ CRLF else '''')"
  define codecs where "codecs = concat (map codec_lines cs) @ ''a=ptime:'' @ dec_str t @ CRLF @ fin"
  define media where "media = ''audio '' @ dec_str (port (rtp m)) @ '' RTP/AVP'' @ print_pts pts"
  have ok: "sdp_pt_inv (audio_codecs m)" "cs \<noteq> []" "\<forall>c\<in>set cs. codec_printable c" "length a < 46"
    "\<forall>x\<in>set a. \<not> c_isspace x" "port (rtp m) < 2 ^ 16" "ptime m < 2 ^ 31"
    using p by (auto simp: sdp_printable_def a_def cs_def)
  have t: "t < 2 ^ 31" using ok(7) by (simp add: t_def)
  have a: "a \<noteq> []" by (simp add: a_def print_ip_def)
  have pts: "\<And>pt. pt \<in> set pts \<Longrightarrow> pt < 2 ^ 31" "distinct pts" "pts \<noteq> []" "length pts \<le> 16"
    using ok(1,2,3) entries_len [OF ok(1)] by (auto simp: pts_def cs_def sdp_pt_inv_def codec_printable_def)
  have whole: "sdp_msg_to_sdp_str L (Some m) = ''v='' @ ''0'' @ CRLF @ ''o='' @ (''OsmoMSC 0 0 IN IP4 '' @ a) @ CRLF
      @ ''s='' @ ''GSM Call'' @ CRLF @ ''c='' @ (''IN IP4 '' @ a) @ CRLF @ ''t='' @ ''0 0'' @ CRLF @ ''m='' @ media @ CRLF @ codecs"
    using L ok(6) t
    by (simp add: sdp_msg_to_sdp_str_def ip4_laws_def print_ip_def a_def media_def codecs_def print_d_plain cs_def
        pts_def print_pts_def fin_def t_def Let_def comp_def)
  let ?m1 = "sdp_msg_zero\<lparr>rtp := \<lparr>ip = a, port = 0\<rparr>\<rparr>"
  have "sdp_parse_lines L sdp_msg_zero (sdp_msg_to_sdp_str L (Some m)) = sdp_parse_lines L ?m1 (''m='' @ media @ CRLF @ codecs)"
    unfolding whole by (rule parse_preamble [OF L [folded a_def] a ok(4,5)])
  moreover obtain ac1 where m1: "sdp_parse_media_description ?m1 (media @ CRLF @ codecs)
      = (?m1\<lparr>rtp := (rtp ?m1)\<lparr>port := port (rtp m)\<rparr>, audio_codecs := ac1\<rparr>, None)"
    and ac1: "ac_entries ac1 = map codec_intro pts" "sdp_pt_inv ac1"
    using parse_media_printed [OF pts ok(6), of ?m1 codecs] by (auto simp: media_def sdp_msg_zero_def)
  let ?m2 = "sdp_msg_zero\<lparr>rtp := \<lparr>ip = a, port = port (rtp m)\<rparr>, audio_codecs := ac1\<rparr>"
  have "CR \<notin> set media" using pts(1) by (auto simp: media_def print_pts_def print_d_plain)
  then have "sdp_parse_lines L ?m1 (''m='' @ media @ CRLF @ codecs) = sdp_parse_lines L ?m2 codecs"
    using parse_lines_line [of media "CHR ''m''" L ?m1 codecs] m1 by (simp add: sdp_parse_line_def)
  moreover obtain ac2 where "sdp_parse_lines L ?m2 codecs
      = sdp_parse_lines L (?m2\<lparr>audio_codecs := ac2\<rparr>) (''a=ptime:'' @ dec_str t @ CRLF @ fin)"
    and ac2: "ac_entries ac2 = map codec_read cs" "sdp_pt_inv ac2"
    using parse_all_codec_lines [OF ok(3), of ?m2 "[]" L "''a=ptime:'' @ dec_str t @ CRLF @ fin"] ac1
    by (auto simp: codecs_def pts_def comp_def)
  ultimately have "sdp_parse_lines L sdp_msg_zero (sdp_msg_to_sdp_str L (Some m))
      = sdp_parse_lines L (?m2\<lparr>audio_codecs := ac2, ptime := t\<rparr>) fin"
    using parse_ptime_printed [OF t] by simp
  also have "\<dots> = Some ((?m2\<lparr>audio_codecs := ac2, ptime := t\<rparr>)\<lparr>mode := mode m\<rparr>, None)"
    unfolding fin_def parse_mode_printed by (simp add: sdp_msg_zero_def)
  finally show ?thesis
    using ac2 by (auto simp: sdp_read_as_def a_def t_def cs_def sdp_msg_zero_def)
qed

subsection \<open>Properties\<close>

definition ip_lib_dotted :: ip_lib where
  "ip_lib_dotted = \<lparr>ip_is_v6 = (\<lambda>a. CHR '':'' \<in> set a), sockaddr_from_str = (\<lambda>_ a p. \<lparr>ip = a, port = p\<rparr>)\<rparr>"

definition text_ex :: sdp_msg where
  "text_ex = sdp_msg_zero\<lparr>rtp := \<lparr>ip = ''10.0.0.1'', port = 16398\<rparr>, mode := SDP_MODE_SENDRECV,
     audio_codecs := \<lparr>ac_count = 2, ac_codec =
       \<lparr>payload_type = 112, subtype_name = ''AMR'', rate = 0, fmtp = ''octet-align=1''\<rparr>
       # \<lparr>payload_type = 3, subtype_name = ''GSM'', rate = 8000, fmtp = ''''\<rparr> # replicate 14 sdp_audio_codec_zero\<rparr>\<rparr>"

lemma text_ex_printable: "sdp_printable text_ex" "ip4_laws ip_lib_dotted (print_ip text_ex)"
  by (simp_all add: sdp_printable_def text_ex_def print_ip_def ip4_laws_def ip_lib_dotted_def sdp_pt_inv_def ac_entries_def
      codec_printable_def c_isspace_def sdp_msg_zero_def)

text \<open>
  C19: A message that is composed as SDP text and parsed again keeps its RTP address and port, its packetisation time, its
  mode and all its codecs in order, with their payload type numbers, names, rates and format parameters; unset rates and
  packetisation times come back as the defaults that were printed.  This holds when the text fits the buffer, there is a
  codec, no two codecs share a payload type number and the names and parameters fit their fields.
\<close>

theorem sdp_text_round_trip:
  assumes "sdp_printable m" and "ip4_laws L (print_ip m)" and "snd (sdp_msg_to_sdp_str_buf L n (Some m)) < n"
  shows "\<exists>m'. sdp_msg_from_sdp_str L (Some (fst (sdp_msg_to_sdp_str_buf L n (Some m)))) = Some (m', None) \<and> sdp_read_as m m'"
proof -
  have "fst (sdp_msg_to_sdp_str_buf L n (Some m)) = sdp_msg_to_sdp_str L (Some m)"
    using assms(3) by (simp add: sdp_msg_to_sdp_str_buf_def strlcpy_def)
  then show ?thesis using sdp_text_read [OF assms(1,2)] by (simp add: sdp_msg_from_sdp_str_def)
qed

theorem sdp_text_round_trip_witness:
  "\<exists>n m'. sdp_msg_from_sdp_str ip_lib_dotted (Some (fst (sdp_msg_to_sdp_str_buf ip_lib_dotted n (Some text_ex)))) = Some (m', None)
     \<and> sdp_read_as text_ex m'"
  using sdp_text_round_trip [OF text_ex_printable, of "Suc (length (sdp_msg_to_sdp_str ip_lib_dotted (Some text_ex)))"]
  by (auto simp: sdp_msg_to_sdp_str_buf_def)

text \<open>
  C33: A message without codecs is composed as text that the parser refuses as invalid, because its media line has no
  payload type numbers.
\<close>

theorem sdp_text_without_codecs:
  assumes "ac_entries (audio_codecs m) = []" and "ip4_laws L (print_ip m)" and "length (print_ip m) < 46"
    and "\<forall>x\<in>set (print_ip m). \<not> c_isspace x" and "port (rtp m) < 2 ^ 16" and "ptime m < 2 ^ 31"
  shows "\<exists>m'. sdp_msg_from_sdp_str L (Some (sdp_msg_to_sdp_str L (Some m))) = Some (m', Some EINVAL)"
proof -
  define a where "a = print_ip m"
  define t where "t = (if ptime m > 0 then ptime m else 20)"
  define media where "media = ''audio '' @ dec_str (port (rtp m)) @ '' RTP/AVP''"
  define fin where "fin = ''a=ptime:'' @ dec_str t @ CRLF
    @ (if mode m \<noteq> SDP_MODE_UNSET then ''a='' @ sdp_mode_str (mode m) @ CRLF else '''')"
  have a: "a \<noteq> []" by (simp add: a_def print_ip_def)
  have whole: "sdp_msg_to_sdp_str L (Some m) = ''v='' @ ''0'' @ CRLF @ ''o='' @ (''OsmoMSC 0 0 IN IP4 '' @ a) @ CRLF
      @ ''s='' @ ''GSM Call'' @ CRLF @ ''c='' @ (''IN IP4 '' @ a) @ CRLF @ ''t='' @ ''0 0'' @ CRLF @ ''m='' @ media @ CRLF @ fin"
    using assms by (simp add: sdp_msg_to_sdp_str_def ip4_laws_def print_ip_def a_def media_def fin_def print_d_plain t_def Let_def)
  let ?m1 = "sdp_msg_zero\<lparr>rtp := \<lparr>ip = a, port = 0\<rparr>\<rparr>"
  have step: "sdp_parse_lines L sdp_msg_zero (sdp_msg_to_sdp_str L (Some m)) = sdp_parse_lines L ?m1 (''m='' @ media @ CRLF @ fin)"
    unfolding whole by (rule parse_preamble [OF assms(2) [folded a_def] a assms(3,4) [folded a_def]])
  have su: "scan_u (drop 5 (media @ CRLF @ fin)) = Some (port (rtp m), '' RTP/AVP'' @ CRLF @ fin)"
    using scan_u_then_space [of "port (rtp m)" "''RTP/AVP'' @ CRLF @ fin"] assms(5) by (simp add: media_def)
  have nosp: "CHR '' '' \<notin> set (''RTP/AVP'' @ CRLF @ fin)"
    by (cases "mode m") (auto simp: fin_def CRLF_def sdp_mode_str_def)
  have s1: "c_strchr (media @ CRLF @ fin) CHR '' '' = Some (CHR '' '' # dec_str (port (rtp m)) @ '' RTP/AVP'' @ CRLF @ fin)"
    using c_strchr_append [of "CHR '' ''" "''audio''" "dec_str (port (rtp m)) @ '' RTP/AVP'' @ CRLF @ fin"] by (simp add: media_def)
  have k1: "skip_sp (CHR '' '' # dec_str (port (rtp m)) @ '' RTP/AVP'' @ CRLF @ fin) = dec_str (port (rtp m)) @ '' RTP/AVP'' @ CRLF @ fin"
    using skip_sp_dec_str by (simp add: skip_sp_def)
  have s2: "c_strchr (dec_str (port (rtp m)) @ '' RTP/AVP'' @ CRLF @ fin) CHR '' '' = Some ('' RTP/AVP'' @ CRLF @ fin)"
    using c_strchr_append [of "CHR '' ''" "dec_str (port (rtp m))" "''RTP/AVP'' @ CRLF @ fin"] by simp
  have k2: "skip_sp ('' RTP/AVP'' @ CRLF @ fin) = ''RTP/AVP'' @ CRLF @ fin" by (simp add: skip_sp_def)
  have s3: "c_strchr (''RTP/AVP'' @ CRLF @ fin) CHR '' '' = None"
    using c_strchr_skip [OF nosp, of "[]"] by (simp add: c_strchr_def)
  have "skip_words 3 e (media @ CRLF @ fin) = None" for e
    unfolding numeral_3_eq_3 by (simp only: skip_words.simps s1 k1 s2 k2 s3 option.case if_cancel)
  moreover have "CR \<notin> set media" by (simp add: media_def)
  ultimately show ?thesis
    using su assms(5) step parse_lines_line [of media "CHR ''m''" L ?m1 fin]
    by (simp add: sdp_parse_line_def sdp_parse_media_description_def Let_def sdp_msg_from_sdp_str_def media_def)
qed

theorem sdp_text_without_codecs_witness:
  "\<exists>m'. sdp_msg_from_sdp_str ip_lib_dotted (Some (sdp_msg_to_sdp_str ip_lib_dotted (Some sdp_msg_zero))) = Some (m', Some EINVAL)"
  by (rule sdp_text_without_codecs)
    (simp_all add: sdp_msg_zero_def sdp_audio_codecs_zero_def ac_entries_def print_ip_def ip4_laws_def ip_lib_dotted_def c_isspace_def)

text \<open>Format parameters of 256 characters or more are written past the end of the field.\<close>

lemma parse_fmtp_overflow:
  assumes "length f \<ge> 256" and "CR \<notin> set f" and "pt < 2 ^ 31"
    and "snd (sdp_audio_codecs_by_payload_type (audio_codecs sdp) pt True) \<noteq> None"
  shows "sdp_parse_attrib sdp (''fmtp:'' @ dec_str pt @ '' '' @ f @ CRLF @ rest) = None"
proof -
  let ?src = "''fmtp:'' @ dec_str pt @ '' '' @ f @ CRLF @ rest"
  have "sdp_msg_line_end ?src = CRLF @ rest" by (rule line_end_after_pt) (use assms(2) in simp_all)
  moreover have "c_strchr ?src CHR '' '' = Some ('' '' @ f @ CRLF @ rest)" by (rule strchr_after_pt) simp
  moreover have "scan_u (drop 5 ?src) = Some (pt, '' '' @ f @ CRLF @ rest)" using scan_u_then_space [OF assms(3)] by simp
  ultimately have "parse_fmtp sdp ?src = None"
    using assms(1,4) by (auto simp: parse_fmtp_def Let_def split: prod.splits)
  then show ?thesis by (simp add: sdp_parse_attrib_def)
qed

end
