(* ===== verification/Osmo_Fsm.thy ===== *)
theory Osmo_Fsm
  imports Prelude
begin

text \<open>
  The interface of the state machines to \<open>osmo_fsm\<close> of libosmocore, which is not part of the
  repository.  What the library decides is the parameter \<open>fsm_lib\<close>: whether it delivers an event, given
  the \<open>in_event_mask\<close> of the current state, and whether it performs a state change, given the
  \<open>out_state_mask\<close>; both also depend on whether the instance is already terminating.  The predicate
  \<open>fsm_laws\<close> states the documented decisions.  The states, masks, actions and private data of each
  machine are those of the source.  The locale \<open>fsm_safe\<close> is the reachability argument that the
  machines share.
\<close>

record ('s, 'e) fsm_state =
  in_event_mask :: "'e list"
  out_state_mask :: "'s list"

record ('s, 'e) fsm_lib =
  ev_allowed :: "'e list \<Rightarrow> bool \<Rightarrow> 'e \<Rightarrow> bool"
  chg_allowed :: "'s list \<Rightarrow> bool \<Rightarrow> 's \<Rightarrow> bool"
  term_allowed :: "bool \<Rightarrow> bool"

text \<open>
  An event or a state change is accepted exactly when the mask has its bit and the instance is not
  terminating; terminating a terminating instance is ignored.
\<close>

definition fsm_laws :: "('s, 'e) fsm_lib \<Rightarrow> bool" where
  "fsm_laws L \<longleftrightarrow>
     (\<forall>m t e. ev_allowed L m t e = (e \<in> set m \<and> \<not> t))
     \<and> (\<forall>m t s. chg_allowed L m t s = (s \<in> set m \<and> \<not> t))
     \<and> (\<forall>t. term_allowed L t = (\<not> t))"

definition fsm_lib_masks :: "('s, 'e) fsm_lib" where
  "fsm_lib_masks = \<lparr>ev_allowed = (\<lambda>m t e. e \<in> set m \<and> \<not> t), chg_allowed = (\<lambda>m t s. s \<in> set m \<and> \<not> t),
     term_allowed = Not\<rparr>"

lemma fsm_laws_masks [simp]: "fsm_laws fsm_lib_masks"
  by (simp add: fsm_laws_def fsm_lib_masks_def)

text \<open>The timer that a state change starts: none, a number of seconds, or a timer of \<open>osmo_tdef\<close>.\<close>

datatype fsm_timer = NO_TIMER | TIMER_SECS nat | TIMER_T nat

subsection \<open>Reachability\<close>

inductive fsm_reach :: "('w \<Rightarrow> 'e \<Rightarrow> 'w option) \<Rightarrow> 'w \<Rightarrow> 'w \<Rightarrow> bool" for step where
  fsm_reach_refl: "fsm_reach step w w"
| fsm_reach_step: "fsm_reach step w0 w \<Longrightarrow> step w e = Some w' \<Longrightarrow> fsm_reach step w0 w'"

text \<open>A run over a list of inputs.\<close>

fun fsm_run :: "('w \<Rightarrow> 'e \<Rightarrow> 'w option) \<Rightarrow> 'w \<Rightarrow> 'e list \<Rightarrow> 'w option" where
  "fsm_run step w [] = Some w"
| "fsm_run step w (e # es) = (case step w e of None \<Rightarrow> None | Some w' \<Rightarrow> fsm_run step w' es)"

lemma fsm_reach_trans: "fsm_reach step w' w'' \<Longrightarrow> fsm_reach step w w' \<Longrightarrow> fsm_reach step w w''"
  by (induction rule: fsm_reach.induct) (auto intro: fsm_reach_step)

lemma fsm_run_reach: "fsm_run step w es = Some w' \<Longrightarrow> fsm_reach step w w'"
proof (induction es arbitrary: w)
  case (Cons e es)
  then obtain v where "step w e = Some v" "fsm_reach step v w'"
    by (auto split: option.splits)
  then show ?case
    by (blast intro: fsm_reach_trans fsm_reach_step fsm_reach_refl)
qed (simp add: fsm_reach_refl)

text \<open>
  The contract of a machine: under the assumptions on its parameters, every step from a state that
  satisfies the invariant is defined, that is, it violates no assertion and follows no NULL pointer,
  and leads to a state that satisfies the invariant.
\<close>

locale fsm_safe =
  fixes step :: "'p \<Rightarrow> 'w \<Rightarrow> 'e \<Rightarrow> 'w option"
    and params_ok :: "'p \<Rightarrow> bool"
    and inv :: "'p \<Rightarrow> 'w \<Rightarrow> bool"
  assumes step_keeps: "params_ok p \<Longrightarrow> inv p w \<Longrightarrow> \<exists>w'. step p w e = Some w' \<and> inv p w'"
begin

lemma reach_keeps:
  assumes "params_ok p" and "inv p w0" and "fsm_reach (step p) w0 w"
  shows "inv p w"
  using assms(3,2)
proof (induction rule: fsm_reach.induct)
  case (fsm_reach_step w0 w e w')
  then show ?case using step_keeps [OF assms(1), of w e] by simp
qed

lemma reach_defined:
  "params_ok p \<Longrightarrow> inv p w0 \<Longrightarrow> fsm_reach (step p) w0 w \<Longrightarrow> step p w e \<noteq> None"
  using step_keeps [OF _ reach_keeps] by fastforce

end

end
