(* ===== verification/Vlr_Types.thy ===== *)
theory Vlr_Types
  imports Gsm_Types Osmo_Fsm
begin

text \<open>
  The data of the VLR (\<open>src/include/osmocom/vlr/vlr.h\<close>) and the translation of GMM causes to reject
  causes of \<open>src/src/libvlr/vlr.c\<close>.  The pointer \<open>last_tuple\<close> into the array of authentication tuples is
  an index; pointers to state machine instances are flags that say whether they are set.
\<close>

subsection \<open>Causes\<close>

text \<open>The enumerators of \<open>enum gsm48_gmm_cause\<close> and \<open>enum gsm48_reject_value\<close> that the code names.\<close>

datatype gmm_cause =
    GMM_CAUSE_IMSI_UNKNOWN | GMM_CAUSE_ILLEGAL_MS | GMM_CAUSE_IMEI_NOT_ACCEPTED | GMM_CAUSE_ILLEGAL_ME
  | GMM_CAUSE_GPRS_NOTALLOWED | GMM_CAUSE_GPRS_OTHER_NOTALLOWED | GMM_CAUSE_MS_ID_NOT_DERIVED
  | GMM_CAUSE_IMPL_DETACHED | GMM_CAUSE_PLMN_NOTALLOWED | GMM_CAUSE_LA_NOTALLOWED
  | GMM_CAUSE_ROAMING_NOTALLOWED | GMM_CAUSE_NO_GPRS_PLMN | GMM_CAUSE_MSC_TEMP_NOTREACH
  | GMM_CAUSE_SYNC_FAIL | GMM_CAUSE_CONGESTION | GMM_CAUSE_SEM_INCORR_MSG | GMM_CAUSE_INV_MAND_INFO
  | GMM_CAUSE_MSGT_NOTEXIST_NOTIMPL | GMM_CAUSE_MSGT_INCOMP_P_STATE | GMM_CAUSE_IE_NOTEXIST_NOTIMPL
  | GMM_CAUSE_COND_IE_ERR | GMM_CAUSE_MSG_INCOMP_P_STATE | GMM_CAUSE_PROTO_ERR_UNSPEC
  | GMM_CAUSE_NO_SUIT_CELL_IN_LA | GMM_CAUSE_MAC_FAIL | GMM_CAUSE_GSM_AUTH_UNACCEPT
  | GMM_CAUSE_NOT_AUTH_FOR_CSG | GMM_CAUSE_SMS_VIA_GPRS_IN_RA | GMM_CAUSE_NO_PDP_ACTIVATED
  | GMM_CAUSE_NET_FAIL | GMM_CAUSE_OTHER nat

datatype reject_value =
    GSM48_REJECT_IMSI_UNKNOWN_IN_HLR | GSM48_REJECT_ILLEGAL_MS | GSM48_REJECT_IMEI_NOT_ACCEPTED
  | GSM48_REJECT_ILLEGAL_ME | GSM48_REJECT_GPRS_NOT_ALLOWED | GSM48_REJECT_SERVICES_NOT_ALLOWED
  | GSM48_REJECT_MS_IDENTITY_NOT_DERVIVABLE | GSM48_REJECT_IMPLICITLY_DETACHED
  | GSM48_REJECT_PLMN_NOT_ALLOWED | GSM48_REJECT_LOC_NOT_ALLOWED | GSM48_REJECT_ROAMING_NOT_ALLOWED
  | GSM48_REJECT_GPRS_NOT_ALLOWED_IN_PLMN | GSM48_REJECT_MSC_TMP_NOT_REACHABLE
  | GSM48_REJECT_SYNCH_FAILURE | GSM48_REJECT_CONGESTION | GSM48_REJECT_INCORRECT_MESSAGE
  | GSM48_REJECT_INVALID_MANDANTORY_INF | GSM48_REJECT_MSG_TYPE_NOT_IMPLEMENTED
  | GSM48_REJECT_MSG_TYPE_NOT_COMPATIBLE | GSM48_REJECT_INF_ELEME_NOT_IMPLEMENTED
  | GSM48_REJECT_CONDTIONAL_IE_ERROR | GSM48_REJECT_MSG_NOT_COMPATIBLE | GSM48_REJECT_PROTOCOL_ERROR
  | GSM48_REJECT_NO_SUIT_CELL_IN_LA | GSM48_REJECT_MAC_FAILURE | GSM48_REJECT_GSM_AUTH_UNACCEPTABLE
  | GSM48_REJECT_NOT_AUTH_FOR_CSG | GSM48_REJECT_SMS_PROV_VIA_GPRS_IN_RA
  | GSM48_REJECT_NO_PDP_CONTEXT_ACTIVATED | GSM48_REJECT_NETWORK_FAILURE
  | GSM48_REJECT_CALL_CAN_NOT_BE_IDENTIFIED | GSM48_REJECT_SRV_OPT_TMP_OUT_OF_ORDER | GSM48_REJECT_OTHER nat

fun vlr_gmm_cause_to_reject_cause :: "gmm_cause \<Rightarrow> reject_value" where
  "vlr_gmm_cause_to_reject_cause GMM_CAUSE_IMSI_UNKNOWN = GSM48_REJECT_IMSI_UNKNOWN_IN_HLR"
| "vlr_gmm_cause_to_reject_cause GMM_CAUSE_ILLEGAL_MS = GSM48_REJECT_ILLEGAL_MS"
| "vlr_gmm_cause_to_reject_cause GMM_CAUSE_IMEI_NOT_ACCEPTED = GSM48_REJECT_IMEI_NOT_ACCEPTED"
| "vlr_gmm_cause_to_reject_cause GMM_CAUSE_ILLEGAL_ME = GSM48_REJECT_ILLEGAL_ME"
| "vlr_gmm_cause_to_reject_cause GMM_CAUSE_GPRS_NOTALLOWED = GSM48_REJECT_GPRS_NOT_ALLOWED"
| "vlr_gmm_cause_to_reject_cause GMM_CAUSE_GPRS_OTHER_NOTALLOWED = GSM48_REJECT_SERVICES_NOT_ALLOWED"
| "vlr_gmm_cause_to_reject_cause GMM_CAUSE_MS_ID_NOT_DERIVED = GSM48_REJECT_MS_IDENTITY_NOT_DERVIVABLE"
| "vlr_gmm_cause_to_reject_cause GMM_CAUSE_IMPL_DETACHED = GSM48_REJECT_IMPLICITLY_DETACHED"
| "vlr_gmm_cause_to_reject_cause GMM_CAUSE_PLMN_NOTALLOWED = GSM48_REJECT_PLMN_NOT_ALLOWED"
| "vlr_gmm_cause_to_reject_cause GMM_CAUSE_LA_NOTALLOWED = GSM48_REJECT_LOC_NOT_ALLOWED"
| "vlr_gmm_cause_to_reject_cause GMM_CAUSE_ROAMING_NOTALLOWED = GSM48_REJECT_ROAMING_NOT_ALLOWED"
| "vlr_gmm_cause_to_reject_cause GMM_CAUSE_NO_GPRS_PLMN = GSM48_REJECT_GPRS_NOT_ALLOWED_IN_PLMN"
| "vlr_gmm_cause_to_reject_cause GMM_CAUSE_MSC_TEMP_NOTREACH = GSM48_REJECT_MSC_TMP_NOT_REACHABLE"
| "vlr_gmm_cause_to_reject_cause GMM_CAUSE_SYNC_FAIL = GSM48_REJECT_SYNCH_FAILURE"
| "vlr_gmm_cause_to_reject_cause GMM_CAUSE_CONGESTION = GSM48_REJECT_CONGESTION"
| "vlr_gmm_cause_to_reject_cause GMM_CAUSE_SEM_INCORR_MSG = GSM48_REJECT_INCORRECT_MESSAGE"
| "vlr_gmm_cause_to_reject_cause GMM_CAUSE_INV_MAND_INFO = GSM48_REJECT_INVALID_MANDANTORY_INF"
| "vlr_gmm_cause_to_reject_cause GMM_CAUSE_MSGT_NOTEXIST_NOTIMPL = GSM48_REJECT_MSG_TYPE_NOT_IMPLEMENTED"
| "vlr_gmm_cause_to_reject_cause GMM_CAUSE_MSGT_INCOMP_P_STATE = GSM48_REJECT_MSG_TYPE_NOT_COMPATIBLE"
| "vlr_gmm_cause_to_reject_cause GMM_CAUSE_IE_NOTEXIST_NOTIMPL = GSM48_REJECT_INF_ELEME_NOT_IMPLEMENTED"
| "vlr_gmm_cause_to_reject_cause GMM_CAUSE_COND_IE_ERR = GSM48_REJECT_CONDTIONAL_IE_ERROR"
| "vlr_gmm_cause_to_reject_cause GMM_CAUSE_MSG_INCOMP_P_STATE = GSM48_REJECT_MSG_NOT_COMPATIBLE"
| "vlr_gmm_cause_to_reject_cause GMM_CAUSE_PROTO_ERR_UNSPEC = GSM48_REJECT_PROTOCOL_ERROR"
| "vlr_gmm_cause_to_reject_cause GMM_CAUSE_NO_SUIT_CELL_IN_LA = GSM48_REJECT_NO_SUIT_CELL_IN_LA"
| "vlr_gmm_cause_to_reject_cause GMM_CAUSE_MAC_FAIL = GSM48_REJECT_MAC_FAILURE"
| "vlr_gmm_cause_to_reject_cause GMM_CAUSE_GSM_AUTH_UNACCEPT = GSM48_REJECT_GSM_AUTH_UNACCEPTABLE"
| "vlr_gmm_cause_to_reject_cause GMM_CAUSE_NOT_AUTH_FOR_CSG = GSM48_REJECT_NOT_AUTH_FOR_CSG"
| "vlr_gmm_cause_to_reject_cause GMM_CAUSE_SMS_VIA_GPRS_IN_RA = GSM48_REJECT_SMS_PROV_VIA_GPRS_IN_RA"
| "vlr_gmm_cause_to_reject_cause GMM_CAUSE_NO_PDP_ACTIVATED = GSM48_REJECT_NO_PDP_CONTEXT_ACTIVATED"
| "vlr_gmm_cause_to_reject_cause GMM_CAUSE_NET_FAIL = GSM48_REJECT_NETWORK_FAILURE"
| "vlr_gmm_cause_to_reject_cause (GMM_CAUSE_OTHER n) = GSM48_REJECT_NETWORK_FAILURE"

definition vlr_reject_causes_ps :: "reject_value \<Rightarrow> reject_value" where
  "vlr_reject_causes_ps c =
     (if c = GSM48_REJECT_CALL_CAN_NOT_BE_IDENTIFIED then GSM48_REJECT_NETWORK_FAILURE else c)"

definition vlr_reject_causes_cs :: "reject_value \<Rightarrow> reject_value" where
  "vlr_reject_causes_cs c =
     (if c \<in> {GSM48_REJECT_NO_SUIT_CELL_IN_LA, GSM48_REJECT_MAC_FAILURE, GSM48_REJECT_GSM_AUTH_UNACCEPTABLE,
              GSM48_REJECT_NOT_AUTH_FOR_CSG, GSM48_REJECT_SMS_PROV_VIA_GPRS_IN_RA,
              GSM48_REJECT_NO_PDP_CONTEXT_ACTIVATED} then GSM48_REJECT_NETWORK_FAILURE else c)"

definition vlr_gmm_cause_to_reject_cause_domain :: "gmm_cause \<Rightarrow> bool \<Rightarrow> reject_value" where
  "vlr_gmm_cause_to_reject_cause_domain c is_cs =
     (let r = vlr_gmm_cause_to_reject_cause c in if is_cs then vlr_reject_causes_cs r else vlr_reject_causes_ps r)"

subsection \<open>Subscriber record\<close>

text \<open>
  \<open>struct osmo_auth_vector\<close> of libosmocore: \<open>v_res\<close> is the 16 byte array of which \<open>v_res_len\<close> bytes are
  used, \<open>v_sres\<close> has 4 bytes, and \<open>v_umts\<close> is the bit \<open>OSMO_AUTH_TYPE_UMTS\<close> of \<open>auth_types\<close>.
\<close>

record auth_vector =
  v_rand :: "8 word list"
  v_autn :: "8 word list"
  v_res :: "8 word list"
  v_res_len :: nat
  v_sres :: "8 word list"
  v_umts :: bool

definition auth_vector_zero :: auth_vector where
  "auth_vector_zero = \<lparr>v_rand = replicate 16 0, v_autn = replicate 16 0, v_res = replicate 16 0, v_res_len = 0,
     v_sres = replicate 4 0, v_umts = False\<rparr>"

record vlr_auth_tuple =
  use_count :: int
  key_seq :: int
  vec :: auth_vector

abbreviation (input) VLR_KEY_SEQ_INVAL :: int where "VLR_KEY_SEQ_INVAL \<equiv> 7"

datatype vlr_sec_ctx = VLR_SEC_CTX_NONE | VLR_SEC_CTX_GSM | VLR_SEC_CTX_UMTS

record pdp_data =
  pdp_context_id :: nat
  pdp_type_org :: nat
  pdp_type_nr :: nat
  pdp_address :: "8 word list list"
  pdp_apn_str :: string
  pdp_qos :: "8 word list"

text \<open>Values of 3GPP TS 23.003: the reserved TMSI and the two most significant bits of a P-TMSI.\<close>

abbreviation (input) GSM_RESERVED_TMSI :: "32 word" where "GSM_RESERVED_TMSI \<equiv> 0xFFFFFFFF"
abbreviation (input) GSM23003_TMSI_SGSN_MASK :: "32 word" where "GSM23003_TMSI_SGSN_MASK \<equiv> 0xC0000000"

text \<open>The states of the SGs association, the service a paging is for, and a location area.\<close>

datatype sgs_ue_fsm_state = SGS_UE_ST_NULL | SGS_UE_ST_LA_UPD_PRES | SGS_UE_ST_ASSOCIATED

datatype sgsap_service_ind = SGSAP_SERV_IND_CS_CALL | SGSAP_SERV_IND_SMS | SGSAP_SERV_IND_PAGING_TIMEOUT

record location_area_id =
  lai_mcc :: nat
  lai_mnc :: nat
  lai_lac :: "16 word"

definition lai_zero :: location_area_id where
  "lai_zero = \<lparr>lai_mcc = 0, lai_mnc = 0, lai_lac = 0\<rparr>"

text \<open>The entries of \<open>struct osmo_use_count\<close>: who uses the record and how often.\<close>

type_synonym use_counts = "(string \<times> int) list"

text \<open>
  The parts of \<open>struct vlr_subscr\<close> that the modelled functions read or write.  \<open>vs_sgs_state\<close> is
  \<open>sgs_fsm->state\<close>, \<open>vs_ts6_2\<close> says whether its timer is pending and \<open>vs_sgs_cbs\<close> whether the callbacks of
  the SGs interface are set.  \<open>vs_requests\<close> lists the pending paging requests, by the
  transaction they belong to; \<open>vs_paging_timer\<close> and \<open>vs_ts5\<close> say whether the paging response timer and
  the timer Ts5 are pending.
\<close>

record vlr_subscr =
  vs_imsi :: string
  vs_msisdn :: string
  vs_name :: string
  vs_id :: nat
  vs_hlr :: "8 word list"
  vs_tuples :: "vlr_auth_tuple list"
  vs_last_tuple :: "nat option"
  vs_sec_ctx :: vlr_sec_ctx
  vs_tmsi :: "32 word"
  vs_tmsi_new :: "32 word"
  vs_imei :: string
  vs_imeisv :: string
  vs_imsi_detached :: bool
  vs_uses :: use_counts
  vs_max_uses :: int
  vs_lu_fsm :: bool
  vs_auth_fsm :: bool
  vs_parq_fsm :: bool
  vs_lu_complete :: bool
  vs_expire_lu :: nat
  vs_msc_conn_ref :: "nat option"
  vs_pdp_list :: "pdp_data list"
  vs_is_paging :: bool
  vs_requests :: "nat list"
  vs_paging_timer :: bool
  vs_attached_via :: rat_type
  vs_ts5 :: bool
  vs_lai :: location_area_id
  vs_conf_by_radio :: bool
  vs_sub_dataconf :: bool
  vs_loc_conf :: bool
  vs_dormant :: bool
  vs_cancel_loc_rx :: bool
  vs_ms_not_reachable :: bool
  vs_la_allowed :: bool
  vs_sgs_state :: sgs_ue_fsm_state
  vs_ts6_2 :: bool
  vs_ts6_2_secs :: nat
  vs_sgs_cbs :: bool
  vs_mme_name :: string
  vs_sgs_lai :: location_area_id
  vs_cs_lac :: "8 word"
  vs_paging_serv :: sgsap_service_ind
  vs_last_eutran_plmn :: "(nat \<times> nat) option"

abbreviation (input) IMSI_SIZE :: nat where "IMSI_SIZE \<equiv> 16"

definition tuple_zero :: vlr_auth_tuple where
  "tuple_zero = \<lparr>use_count = 0, key_seq = 0, vec = auth_vector_zero\<rparr>"

text \<open>An empty slot of the tuple array, as allocation and \<open>vlr_subscr_update_tuples()\<close> leave it.\<close>

definition tuple_unset :: vlr_auth_tuple where
  "tuple_unset = tuple_zero\<lparr>key_seq := VLR_KEY_SEQ_INVAL\<rparr>"

definition vlr_subscr_zero :: vlr_subscr where
  "vlr_subscr_zero = \<lparr>vs_imsi = [], vs_msisdn = [], vs_name = [], vs_id = 0, vs_hlr = [],
     vs_tuples = replicate 5 tuple_zero, vs_last_tuple = None, vs_sec_ctx = VLR_SEC_CTX_NONE,
     vs_tmsi = 0, vs_tmsi_new = 0, vs_imei = [], vs_imeisv = [], vs_imsi_detached = False,
     vs_uses = [], vs_max_uses = 0, vs_lu_fsm = False, vs_auth_fsm = False, vs_parq_fsm = False,
     vs_lu_complete = False, vs_expire_lu = 0, vs_msc_conn_ref = None, vs_pdp_list = [],
     vs_is_paging = False, vs_requests = [], vs_paging_timer = False, vs_attached_via = RAT_UNKNOWN, vs_ts5 = False,
     vs_lai = lai_zero, vs_conf_by_radio = False, vs_sub_dataconf = False, vs_loc_conf = False, vs_dormant = False,
     vs_cancel_loc_rx = False, vs_ms_not_reachable = False, vs_la_allowed = False, vs_sgs_state = SGS_UE_ST_NULL, vs_ts6_2 = False,
     vs_ts6_2_secs = 0, vs_sgs_cbs = False, vs_mme_name = [], vs_sgs_lai = lai_zero, vs_cs_lac = 0,
     vs_paging_serv = SGSAP_SERV_IND_CS_CALL, vs_last_eutran_plmn = None\<rparr>"

text \<open>Configuration of \<open>struct vlr_instance\<close>.\<close>

record vlr_cfg =
  auth_tuple_max_reuse_count :: int
  auth_reuse_old_sets_on_error :: bool
  cfg_is_ps :: bool

end
