(* ===== verification/Vlr_Auth.thy ===== *)
theory Vlr_Auth
  imports Vlr_Types
begin

text \<open>
  Authentication of a subscriber: the tuple functions and the state machine of
  \<open>src/src/libvlr/vlr_auth_fsm.c\<close>, with \<open>vlr_subscr_update_tuples()\<close> and \<open>vlr_use_umts_aka()\<close> of
  \<open>src/src/libvlr/vlr.c\<close>.  An \<open>auth_world\<close> is the subscriber, the machine instance with its private data
  and the messages and events sent so far, in order.  A handler that violates an assertion or follows
  a NULL pointer yields \<open>None\<close>.  The library decisions are the parameter \<open>L\<close> of \<open>Osmo_Fsm\<close>.
\<close>

subsection \<open>Authentication tuples\<close>

text \<open>The loop over the array; \<open>idx\<close> is an unsigned 32 bit number.\<close>

fun next_tuple_loop :: "vlr_auth_tuple list \<Rightarrow> nat \<Rightarrow> nat \<Rightarrow> nat option \<Rightarrow> nat option" where
  "next_tuple_loop ts idx 0 best = best"
| "next_tuple_loop ts idx (Suc c) best =
     (let i = ((idx + 1) mod 2 ^ 32) mod length ts in
      if key_seq (ts ! i) = VLR_KEY_SEQ_INVAL then next_tuple_loop ts i c best
      else next_tuple_loop ts i c
        (case best of None \<Rightarrow> Some i
         | Some b \<Rightarrow> if use_count (ts ! i) < use_count (ts ! b) then Some i else Some b))"

definition vlr_subscr_next_auth_tuple :: "vlr_subscr option \<Rightarrow> int \<Rightarrow> nat option" where
  "vlr_subscr_next_auth_tuple vo max_reuse_count =
     (case vo of None \<Rightarrow> None
      | Some vsub \<Rightarrow>
          let ts = vs_tuples vsub;
              ks = (case vs_last_tuple vsub of None \<Rightarrow> VLR_KEY_SEQ_INVAL | Some i \<Rightarrow> key_seq (ts ! i));
              idx = (if ks = VLR_KEY_SEQ_INVAL then length ts - 1 else nat (ks mod 2 ^ 32))
          in (case next_tuple_loop ts idx (length ts) None of
                None \<Rightarrow> None
              | Some i \<Rightarrow> if max_reuse_count \<ge> 0 \<and> use_count (ts ! i) > max_reuse_count then None else Some i))"

text \<open>
  \<open>at->use_count++\<close>.  The counter is an unbounded integer: the overflow of the C \<open>int\<close>, after 2^31 uses of one tuple,
  is left out.
\<close>

definition tuple_use :: "nat \<Rightarrow> vlr_subscr \<Rightarrow> vlr_subscr" where
  "tuple_use i vsub = vsub\<lparr>vs_tuples := (vs_tuples vsub)[i := (vs_tuples vsub ! i)\<lparr>use_count := use_count (vs_tuples vsub ! i) + 1\<rparr>]\<rparr>"

definition vlr_subscr_get_auth_tuple :: "vlr_subscr \<Rightarrow> int \<Rightarrow> vlr_subscr \<times> nat option" where
  "vlr_subscr_get_auth_tuple vsub max_reuse_count =
     (case vlr_subscr_next_auth_tuple (Some vsub) max_reuse_count of
        None \<Rightarrow> (vsub, None)
      | Some i \<Rightarrow> (tuple_use i vsub, Some i))"

definition vlr_subscr_has_auth_tuple :: "vlr_subscr \<Rightarrow> int \<Rightarrow> bool" where
  "vlr_subscr_has_auth_tuple vsub max_reuse_count \<longleftrightarrow> vlr_subscr_next_auth_tuple (Some vsub) max_reuse_count \<noteq> None"

definition auth_try_reuse_tuple :: "vlr_cfg \<Rightarrow> vlr_subscr \<Rightarrow> int \<Rightarrow> vlr_subscr \<times> bool" where
  "auth_try_reuse_tuple cfg vsub ks =
     (case vs_last_tuple vsub of None \<Rightarrow> (vsub, False)
      | Some i \<Rightarrow>
          let mx = auth_tuple_max_reuse_count cfg; at = vs_tuples vsub ! i in
          if mx \<ge> 0 \<and> use_count at > mx then (vsub, False)
          else if key_seq at \<noteq> ks then (vsub, False)
          else (tuple_use i vsub, True))"

text \<open>The vectors of a GSUP message; \<open>num_auth_vectors\<close> is the length of the list.\<close>

definition vlr_subscr_update_tuples :: "vlr_subscr \<Rightarrow> auth_vector list \<Rightarrow> vlr_subscr" where
  "vlr_subscr_update_tuples vsub vecs =
     (let n = length (vs_tuples vsub);
          ts = (if vecs \<noteq> [] then replicate n tuple_unset else vs_tuples vsub);
          ts' = foldl (\<lambda>ts i. if i \<ge> n then ts else ts[i := (ts ! i)\<lparr>vec := vecs ! i, key_seq := int i\<rparr>])
                  ts [0..<length vecs]
      in vsub\<lparr>vs_tuples := ts', vs_last_tuple := None\<rparr>)"

definition vlr_use_umts_aka :: "auth_vector \<Rightarrow> bool \<Rightarrow> bool" where
  "vlr_use_umts_aka v is_r99 = (if \<not> is_r99 then False else if \<not> v_umts v then False else True)"

text \<open>
  \<open>None\<close> is the failing assertion.  The response is a pointer, which may be NULL, to \<open>res_len\<close> bytes;
  \<open>sizeof(vec->sres)\<close> is 4.
\<close>

definition check_auth_resp :: "vlr_subscr \<Rightarrow> bool \<Rightarrow> bool \<Rightarrow> 8 word list option \<Rightarrow> (vlr_subscr \<times> bool) option" where
  "check_auth_resp vsub is_r99 is_utran res =
     (case vs_last_tuple vsub of None \<Rightarrow> None
      | Some i \<Rightarrow>
          let v = vec (vs_tuples vsub ! i);
              out_false = (vsub\<lparr>vs_sec_ctx := VLR_SEC_CTX_NONE\<rparr>, False)
          in Some (case res of None \<Rightarrow> out_false
            | Some r \<Rightarrow>
                if r = [] then out_false
                else if length r \<noteq> v_res_len v \<and> length r \<noteq> 4 then out_false
                else let check_umts = (is_r99 \<and> v_umts v \<and> length r = v_res_len v) in
                  if is_utran \<and> \<not> check_umts then out_false
                  else if check_umts then
                    (if length r \<noteq> v_res_len v \<or> r \<noteq> take (length r) (v_res v) then out_false
                     else (vsub\<lparr>vs_sec_ctx := VLR_SEC_CTX_UMTS\<rparr>, True))
                  else
                    (if length r \<noteq> 4 \<or> r \<noteq> take 4 (v_sres v) then out_false
                     else (vsub\<lparr>vs_sec_ctx := VLR_SEC_CTX_GSM\<rparr>, True))))"

subsection \<open>The state machine\<close>

datatype auth_state =
    VLR_SUB_AS_NEEDS_AUTH | VLR_SUB_AS_NEEDS_AUTH_WAIT_AI | VLR_SUB_AS_WAIT_RESP | VLR_SUB_AS_AUTHENTICATED
  | VLR_SUB_AS_NEEDS_RESYNC | VLR_SUB_AS_NEEDS_AUTH_WAIT_SAI_RESYNC | VLR_SUB_AS_WAIT_RESP_RESYNC
  | VLR_SUB_AS_WAIT_ID_IMSI | VLR_SUB_AS_AUTH_FAILED

datatype auth_event =
    VLR_AUTH_E_START | VLR_AUTH_E_HLR_SAI_ACK | VLR_AUTH_E_HLR_SAI_NACK | VLR_AUTH_E_HLR_SAI_ABORT
  | VLR_AUTH_E_MS_AUTH_RESP | VLR_AUTH_E_MS_AUTH_FAIL | VLR_AUTH_E_MS_ID_IMSI

record auth_resp_par =
  par_is_r99 :: bool
  par_is_utran :: bool
  par_res :: "8 word list option"

text \<open>An event with the data it carries.\<close>

datatype auth_msg =
    AM_START | AM_SAI_ACK "auth_vector list" | AM_SAI_NACK gmm_cause | AM_SAI_ABORT gmm_cause
  | AM_AUTH_RESP auth_resp_par | AM_AUTH_FAIL "8 word list option" | AM_ID_IMSI string

primrec auth_msg_event :: "auth_msg \<Rightarrow> auth_event" where
  "auth_msg_event AM_START = VLR_AUTH_E_START"
| "auth_msg_event (AM_SAI_ACK vs) = VLR_AUTH_E_HLR_SAI_ACK"
| "auth_msg_event (AM_SAI_NACK c) = VLR_AUTH_E_HLR_SAI_NACK"
| "auth_msg_event (AM_SAI_ABORT c) = VLR_AUTH_E_HLR_SAI_ABORT"
| "auth_msg_event (AM_AUTH_RESP p) = VLR_AUTH_E_MS_AUTH_RESP"
| "auth_msg_event (AM_AUTH_FAIL a) = VLR_AUTH_E_MS_AUTH_FAIL"
| "auth_msg_event (AM_ID_IMSI s) = VLR_AUTH_E_MS_ID_IMSI"

text \<open>The table; the state without an entry is zero initialised.\<close>

primrec auth_fsm_states :: "auth_state \<Rightarrow> (auth_state, auth_event) fsm_state" where
  "auth_fsm_states VLR_SUB_AS_NEEDS_AUTH = \<lparr>in_event_mask = [VLR_AUTH_E_START],
     out_state_mask = [VLR_SUB_AS_NEEDS_AUTH_WAIT_AI, VLR_SUB_AS_WAIT_RESP]\<rparr>"
| "auth_fsm_states VLR_SUB_AS_NEEDS_AUTH_WAIT_AI = \<lparr>in_event_mask = [VLR_AUTH_E_HLR_SAI_ACK, VLR_AUTH_E_HLR_SAI_NACK],
     out_state_mask = [VLR_SUB_AS_AUTH_FAILED, VLR_SUB_AS_WAIT_RESP]\<rparr>"
| "auth_fsm_states VLR_SUB_AS_WAIT_RESP = \<lparr>in_event_mask = [VLR_AUTH_E_MS_AUTH_RESP, VLR_AUTH_E_MS_AUTH_FAIL],
     out_state_mask = [VLR_SUB_AS_WAIT_ID_IMSI, VLR_SUB_AS_AUTH_FAILED, VLR_SUB_AS_AUTHENTICATED,
                       VLR_SUB_AS_NEEDS_AUTH_WAIT_SAI_RESYNC]\<rparr>"
| "auth_fsm_states VLR_SUB_AS_NEEDS_AUTH_WAIT_SAI_RESYNC = \<lparr>in_event_mask = [VLR_AUTH_E_HLR_SAI_ACK, VLR_AUTH_E_HLR_SAI_NACK],
     out_state_mask = [VLR_SUB_AS_AUTH_FAILED, VLR_SUB_AS_WAIT_RESP_RESYNC]\<rparr>"
| "auth_fsm_states VLR_SUB_AS_WAIT_RESP_RESYNC = \<lparr>in_event_mask = [VLR_AUTH_E_MS_AUTH_RESP, VLR_AUTH_E_MS_AUTH_FAIL],
     out_state_mask = [VLR_SUB_AS_AUTH_FAILED, VLR_SUB_AS_AUTHENTICATED]\<rparr>"
| "auth_fsm_states VLR_SUB_AS_WAIT_ID_IMSI = \<lparr>in_event_mask = [VLR_AUTH_E_MS_ID_IMSI], out_state_mask = [VLR_SUB_AS_NEEDS_AUTH]\<rparr>"
| "auth_fsm_states VLR_SUB_AS_AUTHENTICATED = \<lparr>in_event_mask = [], out_state_mask = []\<rparr>"
| "auth_fsm_states VLR_SUB_AS_AUTH_FAILED = \<lparr>in_event_mask = [], out_state_mask = []\<rparr>"
| "auth_fsm_states VLR_SUB_AS_NEEDS_RESYNC = \<lparr>in_event_mask = [], out_state_mask = []\<rparr>"

text \<open>
  The timers of the states: \<open>msc_auth_tdef_states\<close> and \<open>sgsn_auth_tdef_states\<close>.  A state of these tables has its timer, whatever
  duration is configured: that an operator may configure 0, for which the library starts no timer, is left out.
\<close>

definition auth_fsm_state_tdef :: "bool \<Rightarrow> auth_state \<Rightarrow> fsm_timer" where
  "auth_fsm_state_tdef is_ps s =
     (if s \<in> {VLR_SUB_AS_WAIT_RESP, VLR_SUB_AS_WAIT_RESP_RESYNC} then TIMER_T (if is_ps then 3360 else 3260)
      else if s = VLR_SUB_AS_WAIT_ID_IMSI then TIMER_T (if is_ps then 3370 else 3270)
      else NO_TIMER)"

abbreviation (input) GSM_29002_TIMER_M :: nat where "GSM_29002_TIMER_M \<equiv> 30"

datatype auth_fsm_result = AUTH_FSM_PASSED | AUTH_FSM_NO_AUTH_INFO | AUTH_FSM_FAILURE

text \<open>
  What the machine sends: an authentication request and an identity request to the MS, a request for
  authentication information (with AUTS and RAND for a resynchronisation) and a failure report to the
  HLR, and the event that ends the procedure in the parent machine, with the reject cause.
\<close>

datatype auth_out =
    TX_AUTH_REQ vlr_auth_tuple bool | TX_ID_REQ_IMSI | TX_SAI_REQ "(8 word list \<times> 8 word list) option"
  | TX_AUTH_FAIL_REP | PARENT_TERM_EVENT nat "reject_value option"

record auth_fi =
  af_state :: auth_state
  af_terminating :: bool
  af_timer :: fsm_timer
  af_parent_term_event :: nat
  af_by_imsi :: bool
  af_is_r99 :: bool
  af_is_utran :: bool
  af_auth_requested :: bool
  af_max_reuse_count :: int
  af_event_success :: nat
  af_event_no_auth_info :: nat
  af_event_failure :: nat

record auth_world =
  aw_vsub :: vlr_subscr
  aw_fi :: auth_fi
  aw_out :: "auth_out list"

type_synonym auth_lib = "(auth_state, auth_event) fsm_lib"

definition auth_emit :: "auth_out \<Rightarrow> auth_world \<Rightarrow> auth_world" where
  "auth_emit x w = w\<lparr>aw_out := aw_out w @ [x]\<rparr>"

definition auth_fsm_onenter_failed :: "auth_world \<Rightarrow> auth_world" where
  "auth_fsm_onenter_failed w = (if af_auth_requested (aw_fi w) then auth_emit TX_AUTH_FAIL_REP w else w)"

text \<open>\<open>osmo_fsm_inst_state_chg()\<close> on this machine, with the only \<open>onenter\<close> function of the table.\<close>

definition auth_state_chg :: "auth_lib \<Rightarrow> auth_state \<Rightarrow> fsm_timer \<Rightarrow> auth_world \<Rightarrow> auth_world" where
  "auth_state_chg L s t w =
     (let fi = aw_fi w in
      if chg_allowed L (out_state_mask (auth_fsm_states (af_state fi))) (af_terminating fi) s then
        let w' = w\<lparr>aw_fi := fi\<lparr>af_state := s, af_timer := t\<rparr>\<rparr> in
        if s = VLR_SUB_AS_AUTH_FAILED then auth_fsm_onenter_failed w' else w'
      else w)"

definition auth_tdef_state_chg :: "auth_lib \<Rightarrow> vlr_cfg \<Rightarrow> auth_state \<Rightarrow> auth_world \<Rightarrow> auth_world" where
  "auth_tdef_state_chg L cfg s = auth_state_chg L s (auth_fsm_state_tdef (cfg_is_ps cfg) s)"

definition auth_fsm_cleanup :: "auth_world \<Rightarrow> auth_world" where
  "auth_fsm_cleanup w = w\<lparr>aw_vsub := (aw_vsub w)\<lparr>vs_auth_fsm := False\<rparr>\<rparr>"

text \<open>\<open>osmo_fsm_inst_term()\<close>: the cleanup function, then the event to the parent.\<close>

definition auth_inst_term :: "auth_lib \<Rightarrow> reject_value option \<Rightarrow> auth_world \<Rightarrow> auth_world" where
  "auth_inst_term L data w =
     (if term_allowed L (af_terminating (aw_fi w)) then
        let w' = w\<lparr>aw_fi := (aw_fi w)\<lparr>af_terminating := True, af_timer := NO_TIMER\<rparr>\<rparr> in
        auth_emit (PARENT_TERM_EVENT (af_parent_term_event (aw_fi w)) data) (auth_fsm_cleanup w')
      else w)"

definition auth_set_term_event :: "nat \<Rightarrow> auth_world \<Rightarrow> auth_world" where
  "auth_set_term_event ev w = w\<lparr>aw_fi := (aw_fi w)\<lparr>af_parent_term_event := ev\<rparr>\<rparr>"

definition auth_fsm_term :: "auth_lib \<Rightarrow> auth_fsm_result \<Rightarrow> reject_value option \<Rightarrow> auth_world \<Rightarrow> auth_world" where
  "auth_fsm_term L result cause w =
     auth_inst_term L cause
       (case result of
          AUTH_FSM_PASSED \<Rightarrow>
            auth_set_term_event (af_event_success (aw_fi w)) (auth_state_chg L VLR_SUB_AS_AUTHENTICATED NO_TIMER w)
        | AUTH_FSM_NO_AUTH_INFO \<Rightarrow>
            auth_set_term_event (af_event_no_auth_info (aw_fi w)) (auth_state_chg L VLR_SUB_AS_AUTH_FAILED NO_TIMER w)
        | AUTH_FSM_FAILURE \<Rightarrow>
            auth_set_term_event (af_event_failure (aw_fi w)) (auth_state_chg L VLR_SUB_AS_AUTH_FAILED NO_TIMER w))"

subsection \<open>Actions\<close>

text \<open>\<open>_vlr_subscr_authenticate()\<close>\<close>

definition vlr_subscr_authenticate :: "auth_lib \<Rightarrow> auth_world \<Rightarrow> auth_world" where
  "vlr_subscr_authenticate L w =
     (case vlr_subscr_get_auth_tuple (aw_vsub w) (af_max_reuse_count (aw_fi w)) of
        (_, None) \<Rightarrow> auth_fsm_term L AUTH_FSM_FAILURE (Some GSM48_REJECT_NETWORK_FAILURE) w
      | (vsub, Some i) \<Rightarrow>
          let at = vs_tuples vsub ! i;
              use_umts_aka = vlr_use_umts_aka (vec at) (af_is_r99 (aw_fi w))
          in auth_emit (TX_AUTH_REQ at use_umts_aka)
               (w\<lparr>aw_fi := (aw_fi w)\<lparr>af_auth_requested := True\<rparr>, aw_vsub := vsub\<lparr>vs_last_tuple := Some i\<rparr>\<rparr>))"

definition auth_set_max_reuse :: "int \<Rightarrow> auth_world \<Rightarrow> auth_world" where
  "auth_set_max_reuse n w = w\<lparr>aw_fi := (aw_fi w)\<lparr>af_max_reuse_count := n\<rparr>\<rparr>"

definition auth_fsm_needs_auth :: "auth_lib \<Rightarrow> vlr_cfg \<Rightarrow> auth_world \<Rightarrow> auth_world" where
  "auth_fsm_needs_auth L cfg w =
     (let w1 = auth_set_max_reuse (auth_tuple_max_reuse_count cfg) w in
      if \<not> vlr_subscr_has_auth_tuple (aw_vsub w1) (af_max_reuse_count (aw_fi w1)) then
        auth_state_chg L VLR_SUB_AS_NEEDS_AUTH_WAIT_AI (TIMER_SECS GSM_29002_TIMER_M) (auth_emit (TX_SAI_REQ None) w1)
      else vlr_subscr_authenticate L (auth_tdef_state_chg L cfg VLR_SUB_AS_WAIT_RESP w1))"

text \<open>An answer of the HLR that brings no vectors, other than "IMSI unknown".\<close>

definition sai_procedure_error :: "auth_msg \<Rightarrow> bool" where
  "sai_procedure_error m =
     (case m of AM_SAI_ACK vecs \<Rightarrow> vecs = [] | AM_SAI_NACK c \<Rightarrow> c \<noteq> GMM_CAUSE_IMSI_UNKNOWN
      | AM_SAI_ABORT c \<Rightarrow> True | _ \<Rightarrow> False)"

definition auth_update_tuples :: "auth_vector list \<Rightarrow> auth_world \<Rightarrow> auth_world" where
  "auth_update_tuples vecs w = w\<lparr>aw_vsub := vlr_subscr_update_tuples (aw_vsub w) vecs\<rparr>"

definition auth_fsm_wait_ai :: "auth_lib \<Rightarrow> vlr_cfg \<Rightarrow> auth_msg \<Rightarrow> auth_world \<Rightarrow> auth_world" where
  "auth_fsm_wait_ai L cfg m w =
     (let pass = (\<lambda>w. vlr_subscr_authenticate L (auth_tdef_state_chg L cfg VLR_SUB_AS_WAIT_RESP w)) in
      if sai_procedure_error m \<and> auth_reuse_old_sets_on_error cfg \<and> vlr_subscr_has_auth_tuple (aw_vsub w) (-1)
      then pass (auth_set_max_reuse (-1) w)
      else (case m of
          AM_SAI_ACK vecs \<Rightarrow>
            if vecs = [] then auth_fsm_term L AUTH_FSM_FAILURE (Some GSM48_REJECT_NETWORK_FAILURE) w
            else pass (auth_update_tuples vecs w)
        | AM_SAI_NACK c \<Rightarrow> auth_fsm_term L AUTH_FSM_NO_AUTH_INFO (Some (vlr_gmm_cause_to_reject_cause_domain c True)) w
        | AM_SAI_ABORT c \<Rightarrow> auth_fsm_term L AUTH_FSM_FAILURE (Some (vlr_gmm_cause_to_reject_cause_domain c True)) w
        | _ \<Rightarrow> w))"

definition auth_set_vsub :: "vlr_subscr \<Rightarrow> auth_world \<Rightarrow> auth_world" where
  "auth_set_vsub vsub w = w\<lparr>aw_vsub := vsub\<rparr>"

definition auth_fsm_wait_auth_resp :: "auth_lib \<Rightarrow> vlr_cfg \<Rightarrow> auth_msg \<Rightarrow> auth_world \<Rightarrow> auth_world option" where
  "auth_fsm_wait_auth_resp L cfg m w =
     (case m of
        AM_AUTH_RESP par \<Rightarrow>
          map_option (\<lambda>(vsub, rc). let w1 = auth_set_vsub vsub w in
              if \<not> rc then
                (if \<not> af_by_imsi (aw_fi w1) then auth_tdef_state_chg L cfg VLR_SUB_AS_WAIT_ID_IMSI (auth_emit TX_ID_REQ_IMSI w1)
                 else auth_fsm_term L AUTH_FSM_FAILURE (Some GSM48_REJECT_ILLEGAL_MS) w1)
              else auth_fsm_term L AUTH_FSM_PASSED None w1)
            (check_auth_resp (aw_vsub w) (par_is_r99 par) (par_is_utran par) (par_res par))
      | AM_AUTH_FAIL (Some auts) \<Rightarrow>
          map_option (\<lambda>i. auth_state_chg L VLR_SUB_AS_NEEDS_AUTH_WAIT_SAI_RESYNC (TIMER_SECS GSM_29002_TIMER_M)
              (auth_emit (TX_SAI_REQ (Some (auts, v_rand (vec (vs_tuples (aw_vsub w) ! i))))) w))
            (vs_last_tuple (aw_vsub w))
      | AM_AUTH_FAIL None \<Rightarrow> Some (auth_fsm_term L AUTH_FSM_FAILURE (Some GSM48_REJECT_ILLEGAL_MS) w)
      | _ \<Rightarrow> Some w)"

text \<open>The function goes on after the termination in its first statement.\<close>

definition auth_fsm_wait_ai_resync :: "auth_lib \<Rightarrow> vlr_cfg \<Rightarrow> auth_msg \<Rightarrow> auth_world \<Rightarrow> auth_world" where
  "auth_fsm_wait_ai_resync L cfg m w =
     (let w1 = (if sai_procedure_error m
                then auth_fsm_term L AUTH_FSM_FAILURE (Some GSM48_REJECT_NETWORK_FAILURE) w else w) in
      case m of
        AM_SAI_ACK vecs \<Rightarrow>
          vlr_subscr_authenticate L (auth_tdef_state_chg L cfg VLR_SUB_AS_WAIT_RESP_RESYNC (auth_update_tuples vecs w1))
      | AM_SAI_NACK c \<Rightarrow>
          auth_fsm_term L AUTH_FSM_FAILURE
            (Some (if c = GMM_CAUSE_IMSI_UNKNOWN then GSM48_REJECT_IMSI_UNKNOWN_IN_HLR else GSM48_REJECT_NETWORK_FAILURE)) w1
      | _ \<Rightarrow> w1)"

definition auth_fsm_wait_auth_resp_resync :: "auth_lib \<Rightarrow> vlr_cfg \<Rightarrow> auth_msg \<Rightarrow> auth_world \<Rightarrow> auth_world option" where
  "auth_fsm_wait_auth_resp_resync L cfg m w =
     (case m of
        AM_AUTH_RESP par \<Rightarrow>
          map_option (\<lambda>(vsub, rc). let w1 = auth_set_vsub vsub w in
              if \<not> rc then
                (if \<not> af_by_imsi (aw_fi w1) then auth_tdef_state_chg L cfg VLR_SUB_AS_WAIT_ID_IMSI (auth_emit TX_ID_REQ_IMSI w1)
                 else auth_fsm_term L AUTH_FSM_FAILURE (Some GSM48_REJECT_SYNCH_FAILURE) w1)
              else auth_fsm_term L AUTH_FSM_PASSED None w1)
            (check_auth_resp (aw_vsub w) (par_is_r99 par) (par_is_utran par) (par_res par))
      | AM_AUTH_FAIL auts \<Rightarrow> Some (auth_fsm_term L AUTH_FSM_FAILURE (Some GSM48_REJECT_SYNCH_FAILURE) w)
      | _ \<Rightarrow> Some w)"

text \<open>
  \<open>osmo_fsm_inst_dispatch(fi, VLR_AUTH_E_START, NULL)\<close>: every action but that of the initial state
  ignores this event.
\<close>

definition auth_dispatch_start :: "auth_lib \<Rightarrow> vlr_cfg \<Rightarrow> auth_world \<Rightarrow> auth_world" where
  "auth_dispatch_start L cfg w =
     (let fi = aw_fi w in
      if ev_allowed L (in_event_mask (auth_fsm_states (af_state fi))) (af_terminating fi) VLR_AUTH_E_START
         \<and> af_state fi = VLR_SUB_AS_NEEDS_AUTH
      then auth_fsm_needs_auth L cfg w else w)"

definition auth_learn_imsi :: "string \<Rightarrow> auth_world \<Rightarrow> auth_world" where
  "auth_learn_imsi s w =
     (let vsub = aw_vsub w;
          vsub' = (if vs_imsi vsub \<noteq> [] \<and> vs_imsi vsub \<noteq> s then vsub else vsub\<lparr>vs_imsi := strlcpy IMSI_SIZE s\<rparr>)
      in w\<lparr>aw_vsub := vsub', aw_fi := (aw_fi w)\<lparr>af_by_imsi := True\<rparr>\<rparr>)"

definition auth_fsm_wait_imsi :: "auth_lib \<Rightarrow> vlr_cfg \<Rightarrow> auth_msg \<Rightarrow> auth_world \<Rightarrow> auth_world" where
  "auth_fsm_wait_imsi L cfg m w =
     (case m of
        AM_ID_IMSI s \<Rightarrow> auth_dispatch_start L cfg (auth_state_chg L VLR_SUB_AS_NEEDS_AUTH NO_TIMER (auth_learn_imsi s w))
      | _ \<Rightarrow> w)"

text \<open>The \<open>action\<close> column of the table; the initial state asserts that it only sees the start event.\<close>

definition auth_action :: "auth_lib \<Rightarrow> vlr_cfg \<Rightarrow> auth_msg \<Rightarrow> auth_world \<Rightarrow> auth_world option" where
  "auth_action L cfg m w =
     (case af_state (aw_fi w) of
        VLR_SUB_AS_NEEDS_AUTH \<Rightarrow> if m = AM_START then Some (auth_fsm_needs_auth L cfg w) else None
      | VLR_SUB_AS_NEEDS_AUTH_WAIT_AI \<Rightarrow> Some (auth_fsm_wait_ai L cfg m w)
      | VLR_SUB_AS_WAIT_RESP \<Rightarrow> auth_fsm_wait_auth_resp L cfg m w
      | VLR_SUB_AS_NEEDS_AUTH_WAIT_SAI_RESYNC \<Rightarrow> Some (auth_fsm_wait_ai_resync L cfg m w)
      | VLR_SUB_AS_WAIT_RESP_RESYNC \<Rightarrow> auth_fsm_wait_auth_resp_resync L cfg m w
      | VLR_SUB_AS_WAIT_ID_IMSI \<Rightarrow> Some (auth_fsm_wait_imsi L cfg m w)
      | _ \<Rightarrow> Some w)"

definition auth_dispatch :: "auth_lib \<Rightarrow> vlr_cfg \<Rightarrow> auth_msg \<Rightarrow> auth_world \<Rightarrow> auth_world option" where
  "auth_dispatch L cfg m w =
     (let fi = aw_fi w in
      if ev_allowed L (in_event_mask (auth_fsm_states (af_state fi))) (af_terminating fi) (auth_msg_event m)
      then auth_action L cfg m w else Some w)"

definition auth_fi_alloc :: "bool \<Rightarrow> bool \<Rightarrow> bool \<Rightarrow> nat \<Rightarrow> nat \<Rightarrow> nat \<Rightarrow> auth_fi" where
  "auth_fi_alloc by_imsi is_r99 is_utran ev_success ev_no_info ev_failure =
     \<lparr>af_state = VLR_SUB_AS_NEEDS_AUTH, af_terminating = False, af_timer = NO_TIMER,
      af_parent_term_event = ev_failure, af_by_imsi = by_imsi, af_is_r99 = is_r99, af_is_utran = is_utran,
      af_auth_requested = False, af_max_reuse_count = 0,
      af_event_success = ev_success, af_event_no_auth_info = ev_no_info, af_event_failure = ev_failure\<rparr>"

text \<open>
  \<open>auth_fsm_start()\<close>; the events of the parent are numbers.  When one of the two allocations fails
  the parent gets its failure event and there is no machine.
\<close>

definition auth_fsm_start ::
    "auth_lib \<Rightarrow> vlr_cfg \<Rightarrow> bool \<Rightarrow> bool \<Rightarrow> vlr_subscr \<Rightarrow> nat \<Rightarrow> nat \<Rightarrow> nat \<Rightarrow> bool \<Rightarrow> bool \<Rightarrow> auth_out + auth_world" where
  "auth_fsm_start L cfg fi_ok priv_ok vsub ev_success ev_no_info ev_failure is_r99 is_utran =
     (if \<not> fi_ok then Inl (PARENT_TERM_EVENT ev_failure None)
      else if \<not> priv_ok then Inl (PARENT_TERM_EVENT ev_failure None)
      else Inr (auth_dispatch_start L cfg
       \<lparr>aw_vsub = vsub\<lparr>vs_auth_fsm := True\<rparr>,
        aw_fi = auth_fi_alloc (vs_imsi vsub \<noteq> []) is_r99 is_utran ev_success ev_no_info ev_failure,
        aw_out = []\<rparr>))"

text \<open>
  What can happen to a running machine: an event, the expiry of the timer of its state, after which
  the library terminates the instance, or its termination by \<open>vlr_subscr_cancel_attach_fsm()\<close> or
  \<open>vlr_subscr_disconnected()\<close>.
\<close>

datatype auth_input = AI_MSG auth_msg | AI_TIMEOUT | AI_CANCEL

definition auth_step :: "auth_lib \<times> vlr_cfg \<Rightarrow> auth_world \<Rightarrow> auth_input \<Rightarrow> auth_world option" where
  "auth_step p w i =
     (case i of
        AI_MSG m \<Rightarrow> auth_dispatch (fst p) (snd p) m w
      | AI_TIMEOUT \<Rightarrow> Some (if af_timer (aw_fi w) = NO_TIMER then w else auth_inst_term (fst p) None w)
      | AI_CANCEL \<Rightarrow> Some (auth_inst_term (fst p) None w))"

subsection \<open>Selection of a tuple\<close>

abbreviation tuple_valid :: "vlr_auth_tuple \<Rightarrow> bool" where
  "tuple_valid t \<equiv> key_seq t \<noteq> VLR_KEY_SEQ_INVAL"

definition pick_tuple :: "vlr_auth_tuple list \<Rightarrow> nat option \<Rightarrow> nat \<Rightarrow> nat option" where
  "pick_tuple ts best i =
     (if tuple_valid (ts ! i)
      then (case best of None \<Rightarrow> Some i | Some b \<Rightarrow> if use_count (ts ! i) < use_count (ts ! b) then Some i else Some b)
      else best)"

text \<open>The loop is a fold over the slots in cyclic order.\<close>

lemma next_tuple_loop_Suc:
  "next_tuple_loop ts idx (Suc c) best =
     next_tuple_loop ts (((idx + 1) mod 2 ^ 32) mod length ts) c (pick_tuple ts best (((idx + 1) mod 2 ^ 32) mod length ts))"
  by (simp add: Let_def pick_tuple_def)

lemma next_tuple_loop_fold:
  assumes "0 < length ts" and "length ts < 2 ^ 32"
  shows "next_tuple_loop ts idx c best =
    foldl (pick_tuple ts) best (map (\<lambda>k. (((idx + 1) mod 2 ^ 32) mod length ts + k) mod length ts) [0..<c])"
proof (induction c arbitrary: idx best)
  case (Suc c)
  define i where "i = ((idx + 1) mod 2 ^ 32) mod length ts"
  have i: "i < length ts" using assms(1) by (simp add: i_def)
  then have le: "(i + 1) mod 2 ^ 32 = i + 1" using assms(2) by simp
  have rest: "map (\<lambda>k. (((i + 1) mod 2 ^ 32) mod length ts + k) mod length ts) [0..<c]
      = map (\<lambda>k. (i + Suc k) mod length ts) [0..<c]"
    by (simp only: le mod_add_left_eq) simp
  have "[0..<Suc c] = 0 # map Suc [0..<c]"
    by (simp add: upt_conv_Cons map_Suc_upt del: upt_Suc)
  then have all: "map (\<lambda>k. (i + k) mod length ts) [0..<Suc c] = i # map (\<lambda>k. (i + Suc k) mod length ts) [0..<c]"
    using i by (simp add: comp_def del: upt_Suc)
  show ?case
    by (simp only: next_tuple_loop_Suc i_def [symmetric] Suc.IH [of i] rest all foldl.simps)
qed simp

definition picked :: "vlr_auth_tuple list \<Rightarrow> nat list \<Rightarrow> nat option \<Rightarrow> bool" where
  "picked ts xs r =
     (case r of None \<Rightarrow> \<forall>j\<in>set xs. \<not> tuple_valid (ts ! j)
      | Some i \<Rightarrow> \<exists>p<length xs. xs ! p = i \<and> tuple_valid (ts ! i)
          \<and> (\<forall>j\<in>set xs. tuple_valid (ts ! j) \<longrightarrow> use_count (ts ! i) \<le> use_count (ts ! j))
          \<and> (\<forall>q<p. tuple_valid (ts ! (xs ! q)) \<longrightarrow> use_count (ts ! i) < use_count (ts ! (xs ! q))))"

lemma picked_snoc: "picked ts xs r \<Longrightarrow> picked ts (xs @ [x]) (pick_tuple ts r x)"
proof (cases r)
  case None
  assume "picked ts xs r"
  with None show ?thesis
    by (auto simp: picked_def pick_tuple_def nth_append intro!: exI [of _ "length xs"])
next
  case (Some b)
  assume "picked ts xs r"
  with Some obtain p where p: "p < length xs" "xs ! p = b" "tuple_valid (ts ! b)"
      "\<forall>j\<in>set xs. tuple_valid (ts ! j) \<longrightarrow> use_count (ts ! b) \<le> use_count (ts ! j)"
      "\<forall>q<p. tuple_valid (ts ! (xs ! q)) \<longrightarrow> use_count (ts ! b) < use_count (ts ! (xs ! q))"
    by (auto simp: picked_def)
  show ?thesis
  proof (cases "tuple_valid (ts ! x) \<and> use_count (ts ! x) < use_count (ts ! b)")
    case True
    with p show ?thesis
      by (auto simp: Some picked_def pick_tuple_def nth_append intro!: exI [of _ "length xs"])
  next
    case False
    with p show ?thesis
      by (auto simp: Some picked_def pick_tuple_def nth_append intro!: exI [of _ p])
  qed
qed

lemma picked_foldl: "picked ts xs (foldl (pick_tuple ts) None xs)"
  by (induction xs rule: rev_induct) (simp_all add: picked_snoc, simp add: picked_def)

lemma cyclic_all:
  fixes n :: nat
  assumes "j < n"
  shows "\<exists>k<n. (s + k) mod n = j"
proof (intro exI conjI)
  show "(j + (n - s mod n)) mod n < n" using assms by simp
  have "(s + (j + (n - s mod n)) mod n) mod n = (s mod n + (j + (n - s mod n))) mod n"
    by (metis mod_add_left_eq mod_add_right_eq)
  also have "s mod n + (j + (n - s mod n)) = j + n"
    using mod_less_divisor [of n s] assms by linarith
  finally show "(s + (j + (n - s mod n)) mod n) mod n = j" using assms by simp
qed

lemma cyclic_image: "(\<lambda>k. (s + k) mod n) ` {0..<n} = {0..<n::nat}"
proof
  show "{0..<n} \<subseteq> (\<lambda>k. (s + k) mod n) ` {0..<n}"
    using cyclic_all [of _ n s] by (fastforce simp: image_iff)
qed auto

text \<open>The slot at which the search starts: the one after the slot of the last key sequence number.\<close>

definition tuple_start :: "vlr_subscr \<Rightarrow> nat" where
  "tuple_start vsub =
     (let ts = vs_tuples vsub;
          ks = (case vs_last_tuple vsub of None \<Rightarrow> VLR_KEY_SEQ_INVAL | Some i \<Rightarrow> key_seq (ts ! i));
          idx = (if ks = VLR_KEY_SEQ_INVAL then length ts - 1 else nat (ks mod 2 ^ 32))
      in ((idx + 1) mod 2 ^ 32) mod length ts)"

definition tuple_order :: "vlr_subscr \<Rightarrow> nat list" where
  "tuple_order vsub = map (\<lambda>k. (tuple_start vsub + k) mod length (vs_tuples vsub)) [0..<length (vs_tuples vsub)]"

lemma tuple_order_nth:
  "k < length (vs_tuples vsub) \<Longrightarrow> tuple_order vsub ! k = (tuple_start vsub + k) mod length (vs_tuples vsub)"
  by (simp add: tuple_order_def)

lemma tuple_order_set: "set (tuple_order vsub) = {0..<length (vs_tuples vsub)}"
  by (simp add: tuple_order_def cyclic_image)

lemma next_tuple_picked:
  assumes "length (vs_tuples vsub) = 5"
  obtains r where "picked (vs_tuples vsub) (tuple_order vsub) r"
    and "vlr_subscr_next_auth_tuple (Some vsub) mx =
      (case r of None \<Rightarrow> None | Some i \<Rightarrow> if mx \<ge> 0 \<and> use_count (vs_tuples vsub ! i) > mx then None else Some i)"
proof
  show "picked (vs_tuples vsub) (tuple_order vsub) (foldl (pick_tuple (vs_tuples vsub)) None (tuple_order vsub))"
    by (rule picked_foldl)
  have "0 < length (vs_tuples vsub)" "length (vs_tuples vsub) < 2 ^ 32" using assms by simp_all
  from next_tuple_loop_fold [OF this]
  show "vlr_subscr_next_auth_tuple (Some vsub) mx =
      (case foldl (pick_tuple (vs_tuples vsub)) None (tuple_order vsub) of None \<Rightarrow> None
       | Some i \<Rightarrow> if mx \<ge> 0 \<and> use_count (vs_tuples vsub ! i) > mx then None else Some i)"
    by (simp only: vlr_subscr_next_auth_tuple_def tuple_order_def tuple_start_def Let_def option.case)
qed

lemma next_tuple_bound:
  assumes "length (vs_tuples vsub) = 5" and "vlr_subscr_next_auth_tuple (Some vsub) mx = Some i"
  shows "i < 5"
proof -
  obtain r where "picked (vs_tuples vsub) (tuple_order vsub) r"
    and "vlr_subscr_next_auth_tuple (Some vsub) mx =
      (case r of None \<Rightarrow> None | Some i \<Rightarrow> if mx \<ge> 0 \<and> use_count (vs_tuples vsub ! i) > mx then None else Some i)"
    using next_tuple_picked [OF assms(1)] by blast
  with assms(2) have "i \<in> set (tuple_order vsub)"
    by (auto simp: picked_def split: option.splits if_splits)
  then show ?thesis using assms(1) by (simp add: tuple_order_set)
qed

text \<open>
  C4: the tuple chosen for an authentication is valid and least used among all valid tuples of the
  subscriber, its use count is within the configured maximum if there is one, and among equally used
  tuples it is the first in cyclic order after the last one used.  No tuple is chosen exactly when
  every valid tuple has been used more often than the maximum.
\<close>

theorem next_auth_tuple_least_used:
  assumes "length (vs_tuples vsub) = 5"
  shows "case vlr_subscr_next_auth_tuple (Some vsub) mx of
      None \<Rightarrow> \<forall>j<5. tuple_valid (vs_tuples vsub ! j) \<longrightarrow> 0 \<le> mx \<and> mx < use_count (vs_tuples vsub ! j)
    | Some i \<Rightarrow> i < 5 \<and> tuple_valid (vs_tuples vsub ! i) \<and> (0 \<le> mx \<longrightarrow> use_count (vs_tuples vsub ! i) \<le> mx)
        \<and> (\<forall>j<5. tuple_valid (vs_tuples vsub ! j) \<longrightarrow> use_count (vs_tuples vsub ! i) \<le> use_count (vs_tuples vsub ! j))
        \<and> (\<exists>d<5. i = (tuple_start vsub + d) mod 5 \<and> (\<forall>e<d. let j = (tuple_start vsub + e) mod 5 in
             tuple_valid (vs_tuples vsub ! j) \<longrightarrow> use_count (vs_tuples vsub ! i) < use_count (vs_tuples vsub ! j)))"
proof -
  let ?xs = "tuple_order vsub"
  obtain r where pk: "picked (vs_tuples vsub) ?xs r"
    and eq: "vlr_subscr_next_auth_tuple (Some vsub) mx =
      (case r of None \<Rightarrow> None | Some i \<Rightarrow> if mx \<ge> 0 \<and> use_count (vs_tuples vsub ! i) > mx then None else Some i)"
    using next_tuple_picked [OF assms] by blast
  have all: "j < 5 \<longleftrightarrow> j \<in> set ?xs" for j by (simp add: tuple_order_set assms)
  show ?thesis
  proof (cases r)
    case None
    with pk eq show ?thesis by (simp add: picked_def flip: all)
  next
    case (Some i)
    with pk obtain p where p: "p < 5" "?xs ! p = i" "tuple_valid (vs_tuples vsub ! i)"
      "\<forall>j\<in>set ?xs. tuple_valid (vs_tuples vsub ! j) \<longrightarrow> use_count (vs_tuples vsub ! i) \<le> use_count (vs_tuples vsub ! j)"
      "\<forall>q<p. tuple_valid (vs_tuples vsub ! (?xs ! q)) \<longrightarrow> use_count (vs_tuples vsub ! i) < use_count (vs_tuples vsub ! (?xs ! q))"
      using assms by (auto simp: picked_def tuple_order_def)
    have le: "\<forall>j<5. tuple_valid (vs_tuples vsub ! j) \<longrightarrow> use_count (vs_tuples vsub ! i) \<le> use_count (vs_tuples vsub ! j)"
      using p(4) all by blast
    have first: "i = (tuple_start vsub + p) mod 5"
      "\<forall>e<p. let j = (tuple_start vsub + e) mod 5 in
         tuple_valid (vs_tuples vsub ! j) \<longrightarrow> use_count (vs_tuples vsub ! i) < use_count (vs_tuples vsub ! j)"
      using p(1,2,5) by (simp_all add: Let_def tuple_order_nth assms)
    show ?thesis
    proof (cases "mx \<ge> 0 \<and> use_count (vs_tuples vsub ! i) > mx")
      case True
      then show ?thesis using eq Some le by (auto simp: dual_order.strict_trans2)
    next
      case False
      then show ?thesis using eq Some le p(1,3) first by auto
    qed
  qed
qed

definition example_vsub :: vlr_subscr where
  "example_vsub = vlr_subscr_zero\<lparr>vs_imsi := ''901700000004620'',
     vs_tuples := [tuple_zero\<lparr>use_count := 2, key_seq := 0\<rparr>, tuple_zero\<lparr>use_count := 1, key_seq := 1\<rparr>,
                   tuple_unset, tuple_unset, tuple_unset]\<rparr>"

theorem next_auth_tuple_least_used_witness:
  "length (vs_tuples example_vsub) = 5 \<and> vlr_subscr_next_auth_tuple (Some example_vsub) 1 = Some 1"
proof -
  have len: "length (vs_tuples example_vsub) = 5" by (simp add: example_vsub_def)
  have valid: "\<not> (\<forall>j<5. tuple_valid (vs_tuples example_vsub ! j) \<longrightarrow> 0 \<le> (1 :: int) \<and> 1 < use_count (vs_tuples example_vsub ! j))"
    by (auto simp: example_vsub_def tuple_zero_def intro!: exI [of _ 1])
  have "i < 5 \<Longrightarrow> tuple_valid (vs_tuples example_vsub ! i) \<Longrightarrow> use_count (vs_tuples example_vsub ! i) \<le> 1 \<Longrightarrow> i = 1" for i
    by (auto simp: example_vsub_def tuple_zero_def tuple_unset_def less_Suc_eq numeral_eq_Suc)
  with len valid next_auth_tuple_least_used [OF len, of 1] show ?thesis
    by (cases "vlr_subscr_next_auth_tuple (Some example_vsub) 1") auto
qed

end
