(* ===== verification/Vlr_Auth_Safe.thy ===== *)
theory Vlr_Auth_Safe
  imports Vlr_Auth
begin

text \<open>
  What the authentication procedure guarantees: an invariant of every reachable state of the machine
  of \<open>Vlr_Auth\<close>, proved once per action and carried to reachable states by the locale \<open>fsm_safe\<close>, and
  from it that the procedure never aborts, ends once, cannot hang, and succeeds only after a correct
  response to the last challenge.
\<close>

subsection \<open>The invariant of a running authentication\<close>

definition is_parent_event :: "auth_out \<Rightarrow> bool" where
  "is_parent_event x = (case x of PARENT_TERM_EVENT _ _ \<Rightarrow> True | _ \<Rightarrow> False)"

text \<open>The last authentication request sent to the MS.\<close>

definition last_auth_req :: "auth_out list \<Rightarrow> (vlr_auth_tuple \<times> bool) option" where
  "last_auth_req = foldl (\<lambda>a x. case x of TX_AUTH_REQ t u \<Rightarrow> Some (t, u) | _ \<Rightarrow> a) None"

definition challenged :: "auth_world \<Rightarrow> bool" where
  "challenged w \<longleftrightarrow> (\<exists>i u. i < 5 \<and> vs_last_tuple (aw_vsub w) = Some i
     \<and> last_auth_req (aw_out w) = Some (vs_tuples (aw_vsub w) ! i, u))"

type_synonym auth_parent_events = "nat \<times> nat \<times> nat"

definition auth_events_are :: "auth_parent_events \<Rightarrow> auth_world \<Rightarrow> bool" where
  "auth_events_are evs w \<longleftrightarrow>
     (af_event_success (aw_fi w), af_event_no_auth_info (aw_fi w), af_event_failure (aw_fi w)) = evs"

definition auth_live :: "auth_parent_events \<Rightarrow> auth_world \<Rightarrow> bool" where
  "auth_live evs w \<longleftrightarrow>
     \<not> af_terminating (aw_fi w) \<and> length (vs_tuples (aw_vsub w)) = 5 \<and> vs_auth_fsm (aw_vsub w)
     \<and> filter is_parent_event (aw_out w) = [] \<and> TX_AUTH_FAIL_REP \<notin> set (aw_out w) \<and> auth_events_are evs w
     \<and> af_parent_term_event (aw_fi w) = af_event_failure (aw_fi w)"

definition auth_wait_states :: "auth_state set" where
  "auth_wait_states = {VLR_SUB_AS_NEEDS_AUTH_WAIT_AI, VLR_SUB_AS_WAIT_RESP, VLR_SUB_AS_NEEDS_AUTH_WAIT_SAI_RESYNC,
     VLR_SUB_AS_WAIT_RESP_RESYNC, VLR_SUB_AS_WAIT_ID_IMSI}"

text \<open>Waiting with a timer, with a challenge outstanding where a response is awaited.\<close>

definition auth_waiting :: "auth_parent_events \<Rightarrow> auth_world \<Rightarrow> bool" where
  "auth_waiting evs w \<longleftrightarrow>
     auth_live evs w \<and> af_timer (aw_fi w) \<noteq> NO_TIMER \<and> af_state (aw_fi w) \<in> auth_wait_states
     \<and> (af_state (aw_fi w) \<noteq> VLR_SUB_AS_NEEDS_AUTH_WAIT_AI \<longrightarrow> af_auth_requested (aw_fi w))
     \<and> (af_state (aw_fi w) \<in> {VLR_SUB_AS_WAIT_RESP, VLR_SUB_AS_WAIT_RESP_RESYNC} \<longrightarrow> challenged w)"

text \<open>Ended: the parent has been told once, and the HLR exactly of a failure after a challenge.\<close>

definition auth_ended :: "auth_parent_events \<Rightarrow> auth_world \<Rightarrow> bool" where
  "auth_ended evs w \<longleftrightarrow>
     af_terminating (aw_fi w) \<and> length (vs_tuples (aw_vsub w)) = 5 \<and> \<not> vs_auth_fsm (aw_vsub w)
     \<and> length (filter is_parent_event (aw_out w)) = 1 \<and> auth_events_are evs w
     \<and> (TX_AUTH_FAIL_REP \<in> set (aw_out w) \<longleftrightarrow> af_state (aw_fi w) = VLR_SUB_AS_AUTH_FAILED \<and> af_auth_requested (aw_fi w))"

definition auth_inv :: "(auth_lib \<times> vlr_cfg) \<times> auth_parent_events \<Rightarrow> auth_world \<Rightarrow> bool" where
  "auth_inv q w \<longleftrightarrow> auth_waiting (snd q) w \<or> auth_ended (snd q) w"

lemma fsm_lawsD:
  assumes "fsm_laws L"
  shows "ev_allowed L m t e \<longleftrightarrow> e \<in> set m \<and> \<not> t" "chg_allowed L ms t s \<longleftrightarrow> s \<in> set ms \<and> \<not> t" "term_allowed L True = False" "term_allowed L False = True"
  using assms by (simp_all add: fsm_laws_def)

lemma last_auth_req_snoc [simp]:
  "last_auth_req (xs @ [x]) = (case x of TX_AUTH_REQ t u \<Rightarrow> Some (t, u) | _ \<Rightarrow> last_auth_req xs)"
  by (cases x) (simp_all add: last_auth_req_def)

lemma is_parent_event_simps [simp]:
  "is_parent_event (PARENT_TERM_EVENT e c)" "\<not> is_parent_event TX_AUTH_FAIL_REP" "\<not> is_parent_event (TX_AUTH_REQ t u)"
  "\<not> is_parent_event TX_ID_REQ_IMSI" "\<not> is_parent_event (TX_SAI_REQ x)"
  by (simp_all add: is_parent_event_def)

lemmas auth_op_defs =
  auth_emit_def auth_state_chg_def auth_tdef_state_chg_def auth_fsm_cleanup_def auth_inst_term_def auth_set_term_event_def
  auth_fsm_onenter_failed_def auth_set_max_reuse_def auth_update_tuples_def auth_set_vsub_def Let_def

lemmas auth_inv_defs = auth_live_def auth_waiting_def auth_ended_def auth_events_are_def auth_wait_states_def challenged_def

text \<open>Termination ends a live procedure and does nothing to one that has ended.\<close>

lemma auth_fsm_term_ends:
  "fsm_laws L \<Longrightarrow> auth_live evs w \<Longrightarrow> af_state (aw_fi w) \<noteq> VLR_SUB_AS_AUTH_FAILED \<Longrightarrow> auth_ended evs (auth_fsm_term L r c w)"
  by (cases r; cases "af_auth_requested (aw_fi w)")
     (auto simp: auth_fsm_term_def auth_op_defs auth_inv_defs fsm_lawsD)

lemma auth_inst_term_ends:
  "fsm_laws L \<Longrightarrow> auth_live evs w \<Longrightarrow> af_state (aw_fi w) \<noteq> VLR_SUB_AS_AUTH_FAILED \<Longrightarrow> auth_ended evs (auth_inst_term L c w)"
  by (auto simp: auth_op_defs auth_inv_defs fsm_lawsD)

lemma auth_ended_term: "fsm_laws L \<Longrightarrow> auth_ended evs w \<Longrightarrow> auth_ended evs (auth_fsm_term L r c w)"
  by (cases r) (auto simp: auth_fsm_term_def auth_op_defs auth_inv_defs fsm_lawsD)

lemma auth_ended_inst_term: "fsm_laws L \<Longrightarrow> auth_ended evs w \<Longrightarrow> auth_inst_term L c w = w"
  by (simp add: auth_op_defs auth_inv_defs fsm_lawsD)

lemma auth_ended_state_chg: "fsm_laws L \<Longrightarrow> auth_ended evs w \<Longrightarrow> auth_state_chg L s t w = w"
  by (simp add: auth_op_defs auth_inv_defs fsm_lawsD)

lemma length_tuple_use [simp]: "length (vs_tuples (tuple_use i vsub)) = length (vs_tuples vsub)"
  by (simp add: tuple_use_def)

lemma foldl_update_length:
  "length (foldl (\<lambda>ts i. if i \<ge> n then ts else ts[i := f ts i]) ts xs) = length ts"
  by (induction xs arbitrary: ts) auto

lemma length_update_tuples [simp]: "length (vs_tuples (vlr_subscr_update_tuples vsub vecs)) = length (vs_tuples vsub)"
  by (simp add: vlr_subscr_update_tuples_def Let_def foldl_update_length)

lemma vs_auth_fsm_tuple_use [simp]: "vs_auth_fsm (tuple_use i vsub) = vs_auth_fsm vsub"
  by (simp add: tuple_use_def)

lemma vs_auth_fsm_update_tuples [simp]: "vs_auth_fsm (vlr_subscr_update_tuples vsub vecs) = vs_auth_fsm vsub"
  by (simp add: vlr_subscr_update_tuples_def Let_def)

text \<open>Sending a challenge from a state that awaits the response.\<close>

lemma authenticate_waits:
  assumes "fsm_laws L" and "auth_live evs w" and "af_timer (aw_fi w) \<noteq> NO_TIMER"
    and "af_state (aw_fi w) \<in> {VLR_SUB_AS_WAIT_RESP, VLR_SUB_AS_WAIT_RESP_RESYNC}"
  shows "auth_waiting evs (vlr_subscr_authenticate L w) \<or> auth_ended evs (vlr_subscr_authenticate L w)"
proof (cases "vlr_subscr_next_auth_tuple (Some (aw_vsub w)) (af_max_reuse_count (aw_fi w))")
  case None
  have "af_state (aw_fi w) \<noteq> VLR_SUB_AS_AUTH_FAILED" using assms(4) by auto
  from auth_fsm_term_ends [OF assms(1,2) this] None show ?thesis
    by (simp add: vlr_subscr_authenticate_def vlr_subscr_get_auth_tuple_def)
next
  case (Some i)
  have "i < 5" using next_tuple_bound [OF _ Some] assms(2) by (simp add: auth_live_def)
  then have "auth_waiting evs (vlr_subscr_authenticate L w)"
    using assms(2-4) Some
    by (auto simp: vlr_subscr_authenticate_def vlr_subscr_get_auth_tuple_def auth_inv_defs auth_emit_def Let_def)
  then show ?thesis ..
qed

lemma auth_ended_authenticate:
  assumes "fsm_laws L" and "auth_ended evs w" and "af_auth_requested (aw_fi w)"
  shows "auth_ended evs (vlr_subscr_authenticate L w)"
  using assms auth_ended_term [OF assms(1,2)]
  by (cases "vlr_subscr_next_auth_tuple (Some (aw_vsub w)) (af_max_reuse_count (aw_fi w))")
     (auto simp: vlr_subscr_authenticate_def vlr_subscr_get_auth_tuple_def auth_inv_defs auth_emit_def Let_def)

subsection \<open>Every action keeps the invariant\<close>

definition auth_goto :: "auth_state \<Rightarrow> fsm_timer \<Rightarrow> auth_world \<Rightarrow> auth_world" where
  "auth_goto s t w = w\<lparr>aw_fi := (aw_fi w)\<lparr>af_state := s, af_timer := t\<rparr>\<rparr>"

lemma auth_goto_simps [simp]:
  "af_state (aw_fi (auth_goto s t w)) = s" "af_timer (aw_fi (auth_goto s t w)) = t"
  "af_auth_requested (aw_fi (auth_goto s t w)) = af_auth_requested (aw_fi w)"
  by (simp_all add: auth_goto_def)

lemma auth_live_state_chg:
  assumes "fsm_laws L" and "auth_live evs w" and "s \<in> set (out_state_mask (auth_fsm_states (af_state (aw_fi w))))"
    and "s \<noteq> VLR_SUB_AS_AUTH_FAILED"
  shows "auth_state_chg L s t w = auth_goto s t w"
  using assms by (simp add: auth_state_chg_def auth_live_def fsm_lawsD Let_def auth_goto_def)

lemma auth_live_upd:
  "auth_live evs (auth_goto s t w) = auth_live evs w"
  "auth_live evs (auth_set_max_reuse n w) = auth_live evs w"
  "auth_live evs (auth_update_tuples vecs w) = auth_live evs w"
  "auth_live evs (auth_emit TX_ID_REQ_IMSI w) = auth_live evs w"
  "auth_live evs (auth_emit (TX_SAI_REQ x) w) = auth_live evs w"
  "auth_live evs (auth_set_vsub ((aw_vsub w)\<lparr>vs_sec_ctx := c\<rparr>) w) = auth_live evs w"
  by (auto simp: auth_live_def auth_events_are_def auth_set_max_reuse_def auth_update_tuples_def auth_emit_def auth_set_vsub_def
      auth_goto_def)

lemma auth_op_state [simp]:
  "aw_fi (auth_update_tuples vecs w) = aw_fi w" "aw_fi (auth_emit x w) = aw_fi w" "aw_fi (auth_set_vsub v w) = aw_fi w"
  "af_state (aw_fi (auth_set_max_reuse n w)) = af_state (aw_fi w)"
  "aw_vsub (auth_set_max_reuse n w) = aw_vsub w" "aw_vsub (auth_emit x w) = aw_vsub w" "aw_vsub (auth_set_vsub v w) = v"
  by (simp_all add: auth_set_max_reuse_def auth_update_tuples_def auth_emit_def auth_set_vsub_def)

definition auth_kept :: "auth_parent_events \<Rightarrow> auth_world \<Rightarrow> bool" where
  "auth_kept evs w \<longleftrightarrow> auth_waiting evs w \<or> auth_ended evs w"

lemma auth_pass_kept:
  assumes "fsm_laws L" and "auth_live evs w"
    and "s \<in> {VLR_SUB_AS_WAIT_RESP, VLR_SUB_AS_WAIT_RESP_RESYNC}"
    and "s \<in> set (out_state_mask (auth_fsm_states (af_state (aw_fi w))))"
  shows "auth_kept evs (vlr_subscr_authenticate L (auth_tdef_state_chg L cfg s w))"
proof -
  have "s \<noteq> VLR_SUB_AS_AUTH_FAILED" using assms(3) by auto
  note chg = auth_live_state_chg [OF assms(1,2,4) this]
  show ?thesis
    unfolding auth_kept_def auth_tdef_state_chg_def chg
    by (rule authenticate_waits [OF assms(1)]) (use assms(2,3) in \<open>auto simp: auth_live_upd auth_fsm_state_tdef_def\<close>)
qed

lemma auth_needs_auth_kept:
  assumes "fsm_laws L" and "auth_live evs w" and "af_state (aw_fi w) = VLR_SUB_AS_NEEDS_AUTH"
  shows "auth_kept evs (auth_fsm_needs_auth L cfg w)"
proof (cases "vlr_subscr_has_auth_tuple (aw_vsub w) (auth_tuple_max_reuse_count cfg)")
  case True
  then show ?thesis
    using auth_pass_kept [OF assms(1), of evs "auth_set_max_reuse (auth_tuple_max_reuse_count cfg) w" VLR_SUB_AS_WAIT_RESP cfg]
      assms(2,3)
    by (simp add: auth_fsm_needs_auth_def auth_live_upd) (simp add: auth_set_max_reuse_def)
next
  case False
  let ?w = "auth_emit (TX_SAI_REQ None) (auth_set_max_reuse (auth_tuple_max_reuse_count cfg) w)"
  have live: "auth_live evs ?w" using assms(2) by (simp add: auth_live_upd)
  have "auth_fsm_needs_auth L cfg w = auth_goto VLR_SUB_AS_NEEDS_AUTH_WAIT_AI (TIMER_SECS 30) ?w"
    using False auth_live_state_chg [OF assms(1) live, of VLR_SUB_AS_NEEDS_AUTH_WAIT_AI] assms(3)
    by (simp add: auth_fsm_needs_auth_def) (simp add: auth_set_max_reuse_def)
  with live show ?thesis
    by (simp add: auth_kept_def auth_waiting_def auth_live_upd auth_wait_states_def)
qed

lemma auth_dispatch_start_kept:
  "fsm_laws L \<Longrightarrow> auth_live evs w \<Longrightarrow> af_state (aw_fi w) = VLR_SUB_AS_NEEDS_AUTH \<Longrightarrow> auth_kept evs (auth_dispatch_start L cfg w)"
  by (simp add: auth_dispatch_start_def fsm_lawsD auth_needs_auth_kept) (simp add: auth_live_def)

lemma auth_wait_ai_kept:
  assumes "fsm_laws L" and "auth_live evs w" and "af_state (aw_fi w) = VLR_SUB_AS_NEEDS_AUTH_WAIT_AI"
    and "auth_waiting evs w"
  shows "auth_kept evs (auth_fsm_wait_ai L cfg m w)"
proof -
  have stop: "auth_kept evs (auth_fsm_term L r c w)" for r c
    using auth_fsm_term_ends [OF assms(1,2)] assms(3) by (simp add: auth_kept_def)
  have reuse: "auth_kept evs (vlr_subscr_authenticate L (auth_tdef_state_chg L cfg VLR_SUB_AS_WAIT_RESP (auth_set_max_reuse n w)))" for n
    by (rule auth_pass_kept [OF assms(1)]) (use assms(2,3) in \<open>simp_all add: auth_live_upd\<close>)
  have new: "auth_kept evs (vlr_subscr_authenticate L (auth_tdef_state_chg L cfg VLR_SUB_AS_WAIT_RESP (auth_update_tuples vecs w)))" for vecs
    by (rule auth_pass_kept [OF assms(1)]) (use assms(2,3) in \<open>simp_all add: auth_live_upd\<close>)
  show ?thesis
    using stop reuse new assms(4) by (cases m) (auto simp: auth_fsm_wait_ai_def Let_def auth_kept_def)
qed

lemma check_auth_resp_cases:
  assumes "vs_last_tuple vsub = Some i"
  obtains c rc where "check_auth_resp vsub r99 utran res = Some (vsub\<lparr>vs_sec_ctx := c\<rparr>, rc)"
proof -
  let ?Q = "\<lambda>x. \<exists>c rc. x = (vsub\<lparr>vs_sec_ctx := c\<rparr>, rc)"
  have base: "?Q (vsub\<lparr>vs_sec_ctx := c\<rparr>, rc)" for c and rc :: bool by blast
  have branch: "?Q x \<Longrightarrow> ?Q y \<Longrightarrow> ?Q (if b then x else y)" for b and x y :: "vlr_subscr \<times> bool" by (cases b) simp_all
  have "\<exists>x. check_auth_resp vsub r99 utran res = Some x \<and> ?Q x"
    unfolding check_auth_resp_def assms option.case Let_def
    by (rule exI, rule conjI, rule refl, cases res; simp only: option.case; intro branch base)
  with that show thesis by blast
qed

text \<open>
  Asking for the IMSI after a wrong response: the challenge stays where the state change is refused.
\<close>

lemma auth_id_req_kept:
  assumes "fsm_laws L" and "auth_waiting evs w"
    and "af_state (aw_fi w) \<in> {VLR_SUB_AS_WAIT_RESP, VLR_SUB_AS_WAIT_RESP_RESYNC}"
  shows "auth_kept evs (auth_tdef_state_chg L cfg VLR_SUB_AS_WAIT_ID_IMSI
    (auth_emit TX_ID_REQ_IMSI (auth_set_vsub ((aw_vsub w)\<lparr>vs_sec_ctx := c\<rparr>) w)))"
  using assms
  by (auto simp: auth_kept_def auth_waiting_def auth_live_def auth_events_are_def auth_wait_states_def challenged_def
      auth_tdef_state_chg_def auth_state_chg_def auth_emit_def auth_set_vsub_def fsm_lawsD auth_fsm_state_tdef_def Let_def)

lemma auth_resp_kept:
  assumes "fsm_laws L" and "auth_waiting evs w"
    and "af_state (aw_fi w) \<in> {VLR_SUB_AS_WAIT_RESP, VLR_SUB_AS_WAIT_RESP_RESYNC}"
  shows "auth_kept evs (let w1 = auth_set_vsub ((aw_vsub w)\<lparr>vs_sec_ctx := c\<rparr>) w in
      if \<not> rc then
        (if \<not> af_by_imsi (aw_fi w1) then auth_tdef_state_chg L cfg VLR_SUB_AS_WAIT_ID_IMSI (auth_emit TX_ID_REQ_IMSI w1)
         else auth_fsm_term L AUTH_FSM_FAILURE cause w1)
      else auth_fsm_term L AUTH_FSM_PASSED None w1)"
proof -
  let ?w1 = "auth_set_vsub ((aw_vsub w)\<lparr>vs_sec_ctx := c\<rparr>) w"
  have live: "auth_live evs ?w1" using assms(2) by (simp add: auth_live_upd auth_waiting_def)
  have "auth_kept evs (auth_fsm_term L r d ?w1)" for r d
    using auth_fsm_term_ends [OF assms(1) live, of r d] assms(3) by (auto simp: auth_kept_def)
  with auth_id_req_kept [OF assms] show ?thesis by (simp add: Let_def)
qed

lemma auth_wait_auth_resp_kept:
  assumes "fsm_laws L" and "auth_waiting evs w" and "af_state (aw_fi w) = VLR_SUB_AS_WAIT_RESP"
  shows "\<exists>w'. auth_fsm_wait_auth_resp L cfg m w = Some w' \<and> auth_kept evs w'"
proof -
  have live: "auth_live evs w" using assms(2) by (simp add: auth_waiting_def)
  obtain i where i: "vs_last_tuple (aw_vsub w) = Some i"
    using assms(2,3) by (auto simp: auth_waiting_def challenged_def)
  have resync: "auth_kept evs (auth_state_chg L VLR_SUB_AS_NEEDS_AUTH_WAIT_SAI_RESYNC (TIMER_SECS 30) (auth_emit (TX_SAI_REQ x) w))" for x
    by (subst auth_live_state_chg [OF assms(1), of evs])
       (use live assms(2,3) in \<open>simp_all add: auth_live_upd auth_kept_def auth_waiting_def auth_wait_states_def\<close>)
  have fail: "auth_kept evs (auth_fsm_term L r d w)" for r d
    using auth_fsm_term_ends [OF assms(1) live] assms(3) by (simp add: auth_kept_def)
  show ?thesis
  proof (cases m)
    case (AM_AUTH_RESP par)
    obtain c rc where "check_auth_resp (aw_vsub w) (par_is_r99 par) (par_is_utran par) (par_res par) =
        Some ((aw_vsub w)\<lparr>vs_sec_ctx := c\<rparr>, rc)"
      using check_auth_resp_cases [OF i] by blast
    with AM_AUTH_RESP auth_resp_kept [OF assms(1,2)] assms(3) show ?thesis
      by (simp add: auth_fsm_wait_auth_resp_def)
  next
    case (AM_AUTH_FAIL a)
    with resync fail i show ?thesis by (cases a) (simp_all add: auth_fsm_wait_auth_resp_def)
  qed (use assms(2) in \<open>simp_all add: auth_fsm_wait_auth_resp_def auth_kept_def\<close>)
qed

lemma auth_wait_auth_resp_resync_kept:
  assumes "fsm_laws L" and "auth_waiting evs w" and "af_state (aw_fi w) = VLR_SUB_AS_WAIT_RESP_RESYNC"
  shows "\<exists>w'. auth_fsm_wait_auth_resp_resync L cfg m w = Some w' \<and> auth_kept evs w'"
proof -
  have live: "auth_live evs w" using assms(2) by (simp add: auth_waiting_def)
  obtain i where i: "vs_last_tuple (aw_vsub w) = Some i"
    using assms(2,3) by (auto simp: auth_waiting_def challenged_def)
  have fail: "auth_kept evs (auth_fsm_term L r d w)" for r d
    using auth_fsm_term_ends [OF assms(1) live] assms(3) by (simp add: auth_kept_def)
  show ?thesis
  proof (cases m)
    case (AM_AUTH_RESP par)
    obtain c rc where "check_auth_resp (aw_vsub w) (par_is_r99 par) (par_is_utran par) (par_res par) =
        Some ((aw_vsub w)\<lparr>vs_sec_ctx := c\<rparr>, rc)"
      using check_auth_resp_cases [OF i] by blast
    with AM_AUTH_RESP auth_resp_kept [OF assms(1,2)] assms(3) show ?thesis
      by (simp add: auth_fsm_wait_auth_resp_resync_def)
  qed (use assms(2) fail in \<open>simp_all add: auth_fsm_wait_auth_resp_resync_def auth_kept_def\<close>)
qed

lemma auth_wait_ai_resync_kept:
  assumes "fsm_laws L" and "auth_waiting evs w" and "af_state (aw_fi w) = VLR_SUB_AS_NEEDS_AUTH_WAIT_SAI_RESYNC"
  shows "auth_kept evs (auth_fsm_wait_ai_resync L cfg m w)"
proof -
  have live: "auth_live evs w" and req: "af_auth_requested (aw_fi w)"
    using assms(2,3) by (simp_all add: auth_waiting_def)
  let ?t = "\<lambda>w. auth_fsm_term L AUTH_FSM_FAILURE (Some GSM48_REJECT_NETWORK_FAILURE) w"
  have ended: "auth_ended evs (auth_fsm_term L r d w)" for r d
    using auth_fsm_term_ends [OF assms(1) live] assms(3) by simp
  have again: "auth_ended evs (vlr_subscr_authenticate L
      (auth_tdef_state_chg L cfg VLR_SUB_AS_WAIT_RESP_RESYNC (auth_update_tuples vecs (?t w))))" for vecs
  proof -
    let ?u = "auth_update_tuples vecs (?t w)"
    have e: "auth_ended evs ?u"
      using ended [of AUTH_FSM_FAILURE] by (simp add: auth_ended_def auth_update_tuples_def auth_events_are_def)
    have "af_auth_requested (aw_fi ?u)"
      using req by (simp add: auth_fsm_term_def auth_op_defs)
    from auth_ended_authenticate [OF assms(1) e this] show ?thesis
      by (simp only: auth_tdef_state_chg_def auth_ended_state_chg [OF assms(1) e])
  qed
  have new: "auth_kept evs (vlr_subscr_authenticate L
      (auth_tdef_state_chg L cfg VLR_SUB_AS_WAIT_RESP_RESYNC (auth_update_tuples vecs w)))" for vecs
    by (rule auth_pass_kept [OF assms(1)]) (use live assms(3) in \<open>simp_all add: auth_live_upd\<close>)
  show ?thesis
  proof (cases m)
    case (AM_SAI_ACK vecs)
    with again [of vecs] new [of vecs] show ?thesis
      by (cases "vecs = []") (simp_all add: auth_fsm_wait_ai_resync_def sai_procedure_error_def auth_kept_def)
  next
    case (AM_SAI_NACK c)
    with ended auth_ended_term [OF assms(1) ended] show ?thesis
      by (simp add: auth_fsm_wait_ai_resync_def sai_procedure_error_def auth_kept_def)
  next
    case (AM_SAI_ABORT c)
    with ended show ?thesis
      by (simp add: auth_fsm_wait_ai_resync_def sai_procedure_error_def auth_kept_def)
  qed (use assms(2) in \<open>simp_all add: auth_fsm_wait_ai_resync_def sai_procedure_error_def auth_kept_def\<close>)
qed

lemma auth_wait_imsi_kept:
  assumes "fsm_laws L" and "auth_waiting evs w" and "af_state (aw_fi w) = VLR_SUB_AS_WAIT_ID_IMSI"
  shows "auth_kept evs (auth_fsm_wait_imsi L cfg m w)"
proof -
  have live: "auth_live evs (auth_learn_imsi s w)" "af_state (aw_fi (auth_learn_imsi s w)) = VLR_SUB_AS_WAIT_ID_IMSI" for s
    using assms(2,3) by (auto simp: auth_waiting_def auth_live_def auth_learn_imsi_def Let_def auth_events_are_def)
  have "auth_kept evs (auth_dispatch_start L cfg (auth_state_chg L VLR_SUB_AS_NEEDS_AUTH NO_TIMER (auth_learn_imsi s w)))" for s
  proof -
    have "auth_state_chg L VLR_SUB_AS_NEEDS_AUTH NO_TIMER (auth_learn_imsi s w)
        = auth_goto VLR_SUB_AS_NEEDS_AUTH NO_TIMER (auth_learn_imsi s w)"
      by (rule auth_live_state_chg [OF assms(1) live(1)]) (simp_all add: live(2))
    then show ?thesis
      using auth_dispatch_start_kept [OF assms(1), of evs "auth_goto VLR_SUB_AS_NEEDS_AUTH NO_TIMER (auth_learn_imsi s w)"]
        live(1) [of s] by (simp add: auth_live_upd)
  qed
  with assms(2) show ?thesis by (cases m) (simp_all add: auth_fsm_wait_imsi_def auth_kept_def)
qed

subsection \<open>Every step keeps the invariant\<close>

lemma auth_dispatch_kept:
  assumes "fsm_laws L" and "auth_kept evs w"
  shows "\<exists>w'. auth_dispatch L cfg m w = Some w' \<and> auth_kept evs w'"
proof (cases "auth_ended evs w")
  case True
  then show ?thesis
    using assms by (simp add: auth_dispatch_def auth_ended_def fsm_lawsD)
next
  case False
  then have wait: "auth_waiting evs w" using assms(2) by (simp add: auth_kept_def)
  then have live: "auth_live evs w" by (simp add: auth_waiting_def)
  have "\<exists>w'. auth_action L cfg m w = Some w' \<and> auth_kept evs w'"
    using wait unfolding auth_waiting_def auth_wait_states_def
    by (auto simp: auth_action_def intro: auth_wait_ai_kept [OF assms(1) live _ wait] auth_wait_auth_resp_kept [OF assms(1) wait]
        auth_wait_ai_resync_kept [OF assms(1) wait] auth_wait_auth_resp_resync_kept [OF assms(1) wait]
        auth_wait_imsi_kept [OF assms(1) wait])
  with assms(2) show ?thesis by (simp add: auth_dispatch_def Let_def)
qed

lemma auth_inst_term_kept: "fsm_laws L \<Longrightarrow> auth_kept evs w \<Longrightarrow> auth_ended evs (auth_inst_term L c w)"
  using auth_inst_term_ends [of L evs w c] auth_ended_inst_term [of L evs w c]
  by (auto simp: auth_kept_def auth_waiting_def auth_wait_states_def)

lemma auth_inv_kept: "auth_inv q w \<longleftrightarrow> auth_kept (snd q) w"
  by (simp add: auth_inv_def auth_kept_def)

lemma auth_step_kept:
  assumes "fsm_laws (fst (fst q))" and "auth_inv q w"
  shows "\<exists>w'. auth_step (fst q) w i = Some w' \<and> auth_inv q w'"
  using assms auth_dispatch_kept [OF assms(1), of "snd q" w "snd (fst q)"] auth_inst_term_kept [OF assms(1), of "snd q" w]
  by (cases i) (simp_all add: auth_step_def auth_inv_kept, auto simp: auth_kept_def)

interpretation auth: fsm_safe "\<lambda>q. auth_step (fst q)" "\<lambda>q. fsm_laws (fst (fst q))" auth_inv
  by unfold_locales (rule auth_step_kept)

lemma auth_start_inv:
  assumes "fsm_laws L" and "length (vs_tuples vsub) = 5"
    and "auth_fsm_start L cfg fi_ok priv_ok vsub s n f r99 utran = Inr w"
  shows "auth_inv ((L, cfg), (s, n, f)) w"
proof -
  have "auth_kept (s, n, f) (auth_dispatch_start L cfg \<lparr>aw_vsub = vsub\<lparr>vs_auth_fsm := True\<rparr>,
      aw_fi = auth_fi_alloc (vs_imsi vsub \<noteq> []) r99 utran s n f, aw_out = []\<rparr>)"
    by (rule auth_dispatch_start_kept [OF assms(1)])
       (simp_all add: auth_live_def auth_events_are_def auth_fi_alloc_def assms(2))
  with assms(3) show ?thesis
    by (auto simp: auth_fsm_start_def auth_inv_kept split: if_splits)
qed

text \<open>A world that the procedure can reach from its start on a given subscriber.\<close>

definition auth_reachable :: "auth_lib \<Rightarrow> vlr_cfg \<Rightarrow> nat \<times> nat \<times> nat \<Rightarrow> auth_world \<Rightarrow> bool" where
  "auth_reachable L cfg evs w \<longleftrightarrow>
     (\<exists>vsub r99 utran w0. length (vs_tuples vsub) = 5
        \<and> auth_fsm_start L cfg True True vsub (fst evs) (fst (snd evs)) (snd (snd evs)) r99 utran = Inr w0
        \<and> fsm_reach (auth_step (L, cfg)) w0 w)"

lemma auth_reachable_kept:
  assumes "fsm_laws L" and "auth_reachable L cfg evs w"
  shows "auth_kept evs w"
proof -
  obtain vsub r99 utran w0 where "length (vs_tuples vsub) = 5"
    "auth_fsm_start L cfg True True vsub (fst evs) (fst (snd evs)) (snd (snd evs)) r99 utran = Inr w0"
    and reach: "fsm_reach (auth_step (L, cfg)) w0 w"
    using assms(2) unfolding auth_reachable_def by blast
  with auth_start_inv [OF assms(1)] have "auth_inv ((L, cfg), evs) w0" by (cases evs) auto
  from auth.reach_keeps [of "((L, cfg), evs)", OF _ this] assms(1) reach show ?thesis
    by (simp add: auth_inv_kept)
qed

text \<open>
  C2: from its start on, whatever events, timeouts and cancellations arrive, the authentication
  machine never violates an assertion and never follows a NULL pointer: in every reachable state every
  input is processed.
\<close>

theorem auth_never_aborts:
  assumes "fsm_laws L" and "auth_reachable L cfg evs w"
  shows "\<exists>w'. auth_step (L, cfg) w i = Some w'"
  using auth_step_kept [of "((L, cfg), evs)" w i] auth_reachable_kept [OF assms] assms(1)
  by (auto simp: auth_inv_kept)

definition example_cfg :: vlr_cfg where
  "example_cfg = \<lparr>auth_tuple_max_reuse_count = 3, auth_reuse_old_sets_on_error = False, cfg_is_ps = False\<rparr>"

definition example_start :: auth_world where
  "example_start = (case auth_fsm_start fsm_lib_masks example_cfg True True
       (vlr_subscr_zero\<lparr>vs_tuples := replicate 5 tuple_unset\<rparr>) 1 2 3 True False of Inr w \<Rightarrow> w)"

lemma example_start_reachable: "auth_reachable fsm_lib_masks example_cfg (1, 2, 3) example_start"
  unfolding auth_reachable_def example_start_def auth_fsm_start_def
  by (rule exI [of _ "vlr_subscr_zero\<lparr>vs_tuples := replicate 5 tuple_unset\<rparr>"], rule exI [of _ True], rule exI [of _ False])
     (simp add: fsm_reach_refl)

theorem auth_never_aborts_witness:
  "\<exists>w'. auth_step (fsm_lib_masks, example_cfg) example_start (AI_MSG (AM_SAI_ACK [])) = Some w'"
  using auth_never_aborts [OF fsm_laws_masks example_start_reachable] by blast



text \<open>
  C5: the procedure cannot hang: from every reachable state the expiry of the running timer ends it,
  and a step after the end changes nothing any more.  The timers T3260 and T3270 are taken to be configured with a
  non-zero value; with 0 the library starts no timer.
\<close>

theorem auth_timeout_ends:
  assumes "fsm_laws L" and "auth_reachable L cfg evs w"
  shows "\<exists>w'. auth_step (L, cfg) w AI_TIMEOUT = Some w' \<and> af_terminating (aw_fi w')
    \<and> (\<forall>i. auth_step (L, cfg) w' i = Some w')"
proof -
  have kept: "auth_kept evs w" by (rule auth_reachable_kept [OF assms])
  define w' where "w' = (if af_timer (aw_fi w) = NO_TIMER then w else auth_inst_term L None w)"
  have "auth_ended evs w'"
    using kept auth_inst_term_kept [OF assms(1) kept] by (auto simp: w'_def auth_kept_def auth_waiting_def)
  moreover from this have "auth_step (L, cfg) w' i = Some w'" for i
    using auth_ended_inst_term [OF assms(1), of evs w'] assms(1)
    by (cases i) (simp_all add: auth_step_def auth_dispatch_def auth_ended_def fsm_lawsD)
  ultimately show ?thesis
    by (intro exI [of _ w']) (auto simp: auth_step_def w'_def auth_ended_def)
qed

theorem auth_timeout_ends_witness:
  "\<exists>w'. auth_step (fsm_lib_masks, example_cfg) example_start AI_TIMEOUT = Some w' \<and> af_terminating (aw_fi w')"
  using auth_timeout_ends [OF fsm_laws_masks example_start_reachable] by blast

subsection \<open>Success only after a correct response\<close>

text \<open>No success has been reported to the parent, and none can be by the pending events.\<close>

definition no_success :: "nat \<Rightarrow> auth_world \<Rightarrow> bool" where
  "no_success s w \<longleftrightarrow> (\<forall>c. PARENT_TERM_EVENT s c \<notin> set (aw_out w)) \<and> af_event_no_auth_info (aw_fi w) \<noteq> s
     \<and> af_event_failure (aw_fi w) \<noteq> s \<and> af_parent_term_event (aw_fi w) \<noteq> s"

named_theorems no_success_intros

lemma no_success_emit [no_success_intros]:
  "\<not> is_parent_event x \<Longrightarrow> no_success s w \<Longrightarrow> no_success s (auth_emit x w)"
  by (auto simp: no_success_def auth_emit_def)

lemma no_success_state_chg [no_success_intros]: "no_success s w \<Longrightarrow> no_success s (auth_state_chg L st t w)"
  by (auto simp: no_success_def auth_state_chg_def auth_fsm_onenter_failed_def auth_emit_def Let_def)

lemma no_success_tdef_state_chg [no_success_intros]: "no_success s w \<Longrightarrow> no_success s (auth_tdef_state_chg L cfg st w)"
  by (simp add: auth_tdef_state_chg_def no_success_state_chg)

lemma no_success_inst_term [no_success_intros]: "no_success s w \<Longrightarrow> no_success s (auth_inst_term L c w)"
  by (auto simp: no_success_def auth_inst_term_def auth_emit_def auth_fsm_cleanup_def Let_def)

lemma no_success_term [no_success_intros]:
  assumes "r \<noteq> AUTH_FSM_PASSED" and "no_success s w"
  shows "no_success s (auth_fsm_term L r c w)"
proof -
  have "no_success s (auth_set_term_event ev (auth_state_chg L st t w))" if "ev \<noteq> s" for ev st t
    using no_success_state_chg [OF assms(2), of L st t] that by (simp add: no_success_def auth_set_term_event_def)
  then show ?thesis
    using assms by (cases r) (auto simp: auth_fsm_term_def no_success_def intro!: no_success_inst_term [unfolded no_success_def, rule_format])
qed

lemma no_success_updates [no_success_intros]:
  "no_success s w \<Longrightarrow> no_success s (auth_set_max_reuse n w)"
  "no_success s w \<Longrightarrow> no_success s (auth_update_tuples vecs w)"
  "no_success s w \<Longrightarrow> no_success s (auth_set_vsub v w)"
  "no_success s w \<Longrightarrow> no_success s (auth_learn_imsi imsi w)"
  by (simp_all add: no_success_def auth_set_max_reuse_def auth_update_tuples_def auth_set_vsub_def auth_learn_imsi_def Let_def)

lemma no_success_authenticate [no_success_intros]:
  assumes "no_success s w"
  shows "no_success s (vlr_subscr_authenticate L w)"
proof (cases "vlr_subscr_next_auth_tuple (Some (aw_vsub w)) (af_max_reuse_count (aw_fi w))")
  case None
  then show ?thesis
    using assms by (simp add: vlr_subscr_authenticate_def vlr_subscr_get_auth_tuple_def no_success_term)
next
  case (Some i)
  then show ?thesis
    using assms by (simp add: vlr_subscr_authenticate_def vlr_subscr_get_auth_tuple_def Let_def no_success_def auth_emit_def)
qed

lemma no_success_needs_auth [no_success_intros]: "no_success s w \<Longrightarrow> no_success s (auth_fsm_needs_auth L cfg w)"
  by (simp add: auth_fsm_needs_auth_def Let_def no_success_intros)

lemma no_success_dispatch_start [no_success_intros]: "no_success s w \<Longrightarrow> no_success s (auth_dispatch_start L cfg w)"
  by (simp add: auth_dispatch_start_def Let_def no_success_intros)

lemma no_success_wait_ai [no_success_intros]: "no_success s w \<Longrightarrow> no_success s (auth_fsm_wait_ai L cfg m w)"
  by (simp add: auth_fsm_wait_ai_def Let_def no_success_intros split: auth_msg.split)

lemma no_success_wait_ai_resync [no_success_intros]: "no_success s w \<Longrightarrow> no_success s (auth_fsm_wait_ai_resync L cfg m w)"
  by (simp add: auth_fsm_wait_ai_resync_def Let_def no_success_intros split: auth_msg.split)

lemma no_success_wait_imsi [no_success_intros]: "no_success s w \<Longrightarrow> no_success s (auth_fsm_wait_imsi L cfg m w)"
  by (simp add: auth_fsm_wait_imsi_def no_success_intros split: auth_msg.split)

text \<open>A response that passes the check.\<close>

definition resp_correct :: "auth_resp_par \<Rightarrow> auth_vector \<Rightarrow> vlr_sec_ctx \<Rightarrow> bool" where
  "resp_correct par v ctx \<longleftrightarrow>
     (ctx = VLR_SEC_CTX_UMTS \<and> par_is_r99 par \<and> v_umts v \<and> par_res par = Some (take (v_res_len v) (v_res v)))
     \<or> (ctx = VLR_SEC_CTX_GSM \<and> \<not> par_is_utran par \<and> par_res par = Some (take 4 (v_sres v)))"

lemma check_auth_resp_sound:
  assumes "check_auth_resp vsub (par_is_r99 par) (par_is_utran par) (par_res par) = Some (vsub', True)"
  obtains i where "vs_last_tuple vsub = Some i" and "resp_correct par (vec (vs_tuples vsub ! i)) (vs_sec_ctx vsub')"
  using assms unfolding check_auth_resp_def resp_correct_def Let_def
  by (auto split: option.splits if_splits)

text \<open>What both response handlers do with the verdict on the response.\<close>

abbreviation auth_verdict :: "auth_lib \<Rightarrow> vlr_cfg \<Rightarrow> reject_value option \<Rightarrow> vlr_subscr \<times> bool \<Rightarrow> auth_world \<Rightarrow> auth_world" where
  "auth_verdict L cfg cause v w \<equiv> (let w1 = auth_set_vsub (fst v) w in
      if \<not> snd v then
        (if \<not> af_by_imsi (aw_fi w1) then auth_tdef_state_chg L cfg VLR_SUB_AS_WAIT_ID_IMSI (auth_emit TX_ID_REQ_IMSI w1)
         else auth_fsm_term L AUTH_FSM_FAILURE cause w1)
      else auth_fsm_term L AUTH_FSM_PASSED None w1)"

lemma auth_resp_success:
  assumes "no_success s w" and "\<not> no_success s w'"
    and "w' = auth_verdict L cfg cause (v, rc) w"
  shows "rc \<and> vs_sec_ctx (aw_vsub w') = vs_sec_ctx v"
proof (cases rc)
  case False
  with assms show ?thesis by (auto simp: Let_def no_success_intros split: if_splits)
next
  case True
  with assms(3) show ?thesis
    by (simp add: Let_def auth_fsm_term_def auth_inst_term_def auth_emit_def auth_fsm_cleanup_def auth_set_term_event_def
        auth_state_chg_def auth_set_vsub_def auth_fsm_onenter_failed_def)
qed

lemma auth_step_success:
  assumes "no_success s w" and "auth_step (L, cfg) w i = Some w'" and "\<not> no_success s w'"
  obtains par k where "i = AI_MSG (AM_AUTH_RESP par)" and "vs_last_tuple (aw_vsub w) = Some k"
    and "resp_correct par (vec (vs_tuples (aw_vsub w) ! k)) (vs_sec_ctx (aw_vsub w'))"
    and "af_state (aw_fi w) \<in> {VLR_SUB_AS_WAIT_RESP, VLR_SUB_AS_WAIT_RESP_RESYNC}"
proof -
  obtain m where i: "i = AI_MSG m"
    using assms by (cases i) (auto simp: auth_step_def no_success_intros split: if_splits)
  then have act: "auth_action L cfg m w = Some w'"
    using assms by (auto simp: auth_step_def auth_dispatch_def Let_def split: if_splits)
  have st: "af_state (aw_fi w) \<in> {VLR_SUB_AS_WAIT_RESP, VLR_SUB_AS_WAIT_RESP_RESYNC}"
    using act assms(1,3) by (auto simp: auth_action_def no_success_intros split: auth_state.splits if_splits)
  obtain par where m: "m = AM_AUTH_RESP par"
    using act st assms(1,3)
    by (auto simp: auth_action_def auth_fsm_wait_auth_resp_def auth_fsm_wait_auth_resp_resync_def no_success_intros
        split: auth_msg.splits option.splits)
  obtain vsub rc cause where chk: "check_auth_resp (aw_vsub w) (par_is_r99 par) (par_is_utran par) (par_res par) = Some (vsub, rc)"
    and w': "w' = auth_verdict L cfg cause (vsub, rc) w"
  proof (cases "af_state (aw_fi w) = VLR_SUB_AS_WAIT_RESP")
    case True
    with act that [where cause = "Some GSM48_REJECT_ILLEGAL_MS"] show thesis
      by (auto simp: auth_action_def auth_fsm_wait_auth_resp_def m)
  next
    case False
    with act st that [where cause = "Some GSM48_REJECT_SYNCH_FAILURE"] show thesis
      by (auto simp: auth_action_def auth_fsm_wait_auth_resp_resync_def m)
  qed
  from auth_resp_success [OF assms(1,3) w'] have "rc" "vs_sec_ctx (aw_vsub w') = vs_sec_ctx vsub" by auto
  with chk check_auth_resp_sound [of "aw_vsub w" par vsub] that i m st show thesis by metis
qed

text \<open>
  C1: a subscriber is never authenticated without a correct answer.  Whenever a step of a reachable
  machine reports success to the parent, that step is an authentication response whose bytes are the
  expected RES of the tuple in the last authentication request sent to the MS, giving a UMTS security
  context, or its SRES, giving a GSM security context; the latter never happens over UTRAN.
\<close>

theorem auth_success_sound:
  assumes "fsm_laws L" and "auth_reachable L cfg (s, n, f) w" and "distinct [s, n, f]"
    and "auth_step (L, cfg) w i = Some w'"
    and "PARENT_TERM_EVENT s c \<in> set (aw_out w')" and "PARENT_TERM_EVENT s c \<notin> set (aw_out w)"
  shows "\<exists>par t u. i = AI_MSG (AM_AUTH_RESP par) \<and> last_auth_req (aw_out w) = Some (t, u)
    \<and> resp_correct par (vec t) (vs_sec_ctx (aw_vsub w'))"
proof -
  have kept: "auth_kept (s, n, f) w" by (rule auth_reachable_kept [OF assms(1,2)])
  have wait: "auth_waiting (s, n, f) w"
  proof (rule ccontr)
    assume "\<not> auth_waiting (s, n, f) w"
    then have ended: "auth_ended (s, n, f) w" using kept by (simp add: auth_kept_def)
    then have "w' = w"
      using assms(1,4) auth_ended_inst_term [OF assms(1) ended]
      by (cases i) (auto simp: auth_step_def auth_dispatch_def auth_ended_def fsm_lawsD)
    with assms(5,6) show False by simp
  qed
  then have "filter is_parent_event (aw_out w) = []" by (simp add: auth_waiting_def auth_live_def)
  then have "\<forall>d. PARENT_TERM_EVENT s d \<notin> set (aw_out w)"
    by (metis filter_empty_conv is_parent_event_simps(1))
  then have none: "no_success s w"
    using wait assms(3) by (auto simp: no_success_def auth_waiting_def auth_live_def auth_events_are_def)
  have "\<not> no_success s w'" using assms(5) by (auto simp: no_success_def)
  from auth_step_success [OF none assms(4) this] obtain par k where
    *: "i = AI_MSG (AM_AUTH_RESP par)" "vs_last_tuple (aw_vsub w) = Some k"
    "resp_correct par (vec (vs_tuples (aw_vsub w) ! k)) (vs_sec_ctx (aw_vsub w'))"
    "af_state (aw_fi w) \<in> {VLR_SUB_AS_WAIT_RESP, VLR_SUB_AS_WAIT_RESP_RESYNC}"
    by blast
  then have "challenged w" using wait by (simp add: auth_waiting_def)
  with * show ?thesis unfolding challenged_def by auto
qed

subsection \<open>Concrete runs\<close>

definition example_vec :: auth_vector where
  "example_vec = auth_vector_zero\<lparr>v_sres := [1, 2, 3, 4]\<rparr>"

definition example_resp :: "8 word list \<Rightarrow> auth_input" where
  "example_resp r = AI_MSG (AM_AUTH_RESP \<lparr>par_is_r99 = False, par_is_utran = False, par_res = Some r\<rparr>)"

definition example_run :: "auth_input list \<Rightarrow> auth_world" where
  "example_run is = the (fsm_run (auth_step (fsm_lib_masks, example_cfg)) example_start is)"

lemma auth_reachable_run:
  assumes "auth_reachable L cfg evs w" and "fsm_run (auth_step (L, cfg)) w is = Some w'"
  shows "auth_reachable L cfg evs w'"
proof -
  obtain vsub r99 utran w0 where "length (vs_tuples vsub) = 5"
    "auth_fsm_start L cfg True True vsub (fst evs) (fst (snd evs)) (snd (snd evs)) r99 utran = Inr w0"
    "fsm_reach (auth_step (L, cfg)) w0 w"
    using assms(1) unfolding auth_reachable_def by blast
  with fsm_reach_trans [OF fsm_run_reach [OF assms(2)]] show ?thesis
    unfolding auth_reachable_def by blast
qed

lemma next_tuple_none:
  assumes "length (vs_tuples vsub) = 5" and "\<forall>t\<in>set (vs_tuples vsub). \<not> tuple_valid t"
  shows "vlr_subscr_next_auth_tuple (Some vsub) mx = None"
proof -
  obtain r where r: "picked (vs_tuples vsub) (tuple_order vsub) r" "vlr_subscr_next_auth_tuple (Some vsub) mx =
      (case r of None \<Rightarrow> None | Some i \<Rightarrow> if mx \<ge> 0 \<and> use_count (vs_tuples vsub ! i) > mx then None else Some i)"
    using next_tuple_picked [OF assms(1)] by blast
  have "r = None"
  proof (rule ccontr)
    assume "r \<noteq> None"
    then obtain i where "i \<in> set (tuple_order vsub)" "tuple_valid (vs_tuples vsub ! i)"
      using r(1) nth_mem by (fastforce simp: picked_def)
    with assms(2) show False by (simp add: tuple_order_set)
  qed
  with r(2) show ?thesis by simp
qed

lemma next_tuple_only_first:
  assumes "length (vs_tuples vsub) = 5" and "tuple_valid (vs_tuples vsub ! 0)"
    and "\<forall>t\<in>set (tl (vs_tuples vsub)). \<not> tuple_valid t" and "use_count (vs_tuples vsub ! 0) \<le> mx"
  shows "vlr_subscr_next_auth_tuple (Some vsub) mx = Some 0"
proof -
  obtain r where r: "picked (vs_tuples vsub) (tuple_order vsub) r" "vlr_subscr_next_auth_tuple (Some vsub) mx =
      (case r of None \<Rightarrow> None | Some i \<Rightarrow> if mx \<ge> 0 \<and> use_count (vs_tuples vsub ! i) > mx then None else Some i)"
    using next_tuple_picked [OF assms(1)] by blast
  have "0 \<in> set (tuple_order vsub)" using assms(1) by (simp add: tuple_order_set)
  with r(1) assms(2) obtain i where i: "r = Some i" by (cases r) (auto simp: picked_def)
  have "i = 0"
  proof (rule ccontr)
    assume "i \<noteq> 0"
    moreover have "i \<in> set (tuple_order vsub)" "tuple_valid (vs_tuples vsub ! i)"
      using r(1) i by (auto simp: picked_def)
    ultimately have "vs_tuples vsub ! i \<in> set (tl (vs_tuples vsub))"
      using assms(1) by (cases "vs_tuples vsub"; cases i) (auto simp: tuple_order_set)
    with assms(3) \<open>tuple_valid (vs_tuples vsub ! i)\<close> show False by blast
  qed
  with r(2) i assms(4) show ?thesis by simp
qed

lemmas auth_eval_defs =
  auth_step_def auth_dispatch_def auth_action_def auth_fsm_wait_ai_def auth_fsm_wait_auth_resp_def auth_fsm_wait_ai_resync_def
  auth_fsm_wait_auth_resp_resync_def auth_fsm_term_def auth_op_defs vlr_subscr_authenticate_def vlr_subscr_get_auth_tuple_def
  vlr_subscr_update_tuples_def vlr_use_umts_aka_def tuple_use_def tuple_unset_def tuple_zero_def
  check_auth_resp_def sai_procedure_error_def auth_fsm_state_tdef_def fsm_lib_masks_def auth_fi_alloc_def example_cfg_def
  vlr_subscr_zero_def next_tuple_none next_tuple_only_first example_resp_def example_vec_def auth_vector_zero_def

lemma replicate5: "replicate 5 x = [x, x, x, x, x]"
  by (simp add: numeral_eq_Suc)

lemma example_start_eval:
  "example_start = \<lparr>aw_vsub = vlr_subscr_zero\<lparr>vs_tuples := [tuple_unset, tuple_unset, tuple_unset, tuple_unset, tuple_unset], vs_auth_fsm := True\<rparr>,
     aw_fi = (auth_fi_alloc False True False 1 2 3)\<lparr>af_max_reuse_count := 3, af_state := VLR_SUB_AS_NEEDS_AUTH_WAIT_AI, af_timer := TIMER_SECS 30\<rparr>,
     aw_out = [TX_SAI_REQ None]\<rparr>"
  by (simp add: example_start_def auth_fsm_start_def auth_dispatch_start_def auth_fsm_needs_auth_def vlr_subscr_has_auth_tuple_def
     replicate5 auth_eval_defs)

definition example_challenge :: vlr_auth_tuple where
  "example_challenge = \<lparr>use_count = 1, key_seq = 0, vec = example_vec\<rparr>"

definition example_challenged :: auth_world where
  "example_challenged = \<lparr>aw_vsub = vlr_subscr_zero\<lparr>vs_tuples := [example_challenge, tuple_unset, tuple_unset, tuple_unset, tuple_unset],
       vs_last_tuple := Some 0, vs_auth_fsm := True\<rparr>,
     aw_fi = (auth_fi_alloc False True False 1 2 3)\<lparr>af_max_reuse_count := 3, af_state := VLR_SUB_AS_WAIT_RESP, af_timer := TIMER_T 3260,
       af_auth_requested := True\<rparr>,
     aw_out = [TX_SAI_REQ None, TX_AUTH_REQ example_challenge False]\<rparr>"

lemma example_challenged_eval:
  "auth_step (fsm_lib_masks, example_cfg) example_start (AI_MSG (AM_SAI_ACK [example_vec])) = Some example_challenged"
  by (simp add: example_start_eval auth_eval_defs) (simp add: example_challenged_def example_challenge_def auth_eval_defs)

lemma example_challenged_reachable: "auth_reachable fsm_lib_masks example_cfg (1, 2, 3) example_challenged"
  by (rule auth_reachable_run [OF example_start_reachable, of "[AI_MSG (AM_SAI_ACK [example_vec])]"])
     (simp add: example_challenged_eval)

theorem auth_success_sound_witness:
  "\<exists>w'. auth_step (fsm_lib_masks, example_cfg) example_challenged (example_resp [1, 2, 3, 4]) = Some w'
     \<and> PARENT_TERM_EVENT 1 None \<in> set (aw_out w')
     \<and> resp_correct \<lparr>par_is_r99 = False, par_is_utran = False, par_res = Some [1, 2, 3, 4]\<rparr> example_vec (vs_sec_ctx (aw_vsub w'))"
proof -
  obtain w' where w': "auth_step (fsm_lib_masks, example_cfg) example_challenged (example_resp [1, 2, 3, 4]) = Some w'"
    and out: "PARENT_TERM_EVENT 1 None \<in> set (aw_out w')"
    by (simp add: example_challenged_def example_challenge_def auth_eval_defs)
  have fresh: "PARENT_TERM_EVENT 1 None \<notin> set (aw_out example_challenged)"
    by (simp add: example_challenged_def)
  have "last_auth_req (aw_out example_challenged) = Some (example_challenge, False)"
    by (simp add: example_challenged_def last_auth_req_def)
  with auth_success_sound [OF fsm_laws_masks example_challenged_reachable _ w' out fresh] w' out show ?thesis
    by (auto simp: example_resp_def example_challenge_def)
qed

definition example_resync :: auth_world where
  "example_resync = example_challenged\<lparr>
     aw_fi := (aw_fi example_challenged)\<lparr>af_state := VLR_SUB_AS_NEEDS_AUTH_WAIT_SAI_RESYNC, af_timer := TIMER_SECS 30\<rparr>,
     aw_out := aw_out example_challenged @ [TX_SAI_REQ (Some ([9], replicate 16 0))]\<rparr>"

lemma example_resync_eval:
  "auth_step (fsm_lib_masks, example_cfg) example_challenged (AI_MSG (AM_AUTH_FAIL (Some [9]))) = Some example_resync"
  by (simp add: example_resync_def example_challenged_def example_challenge_def auth_eval_defs)

lemma example_resync_reachable: "auth_reachable fsm_lib_masks example_cfg (1, 2, 3) example_resync"
  by (rule auth_reachable_run [OF example_challenged_reachable, of "[AI_MSG (AM_AUTH_FAIL (Some [9]))]"])
     (simp add: example_resync_eval)

text \<open>
  C35: whenever the HLR answers a resynchronisation without vectors, the machine reports the failure to the HLR, ends
  the procedure in the parent machine, and then still sends a new authentication request to the MS if a tuple is left
  that may be used, because the function goes on after the termination.
\<close>

theorem auth_resync_request_after_end:
  assumes laws: "fsm_laws L" and reach: "auth_reachable L cfg (es, en, ef) w"
    and st: "af_state (aw_fi w) = VLR_SUB_AS_NEEDS_AUTH_WAIT_SAI_RESYNC" "\<not> af_terminating (aw_fi w)"
  shows "\<exists>w'. auth_step (L, cfg) w (AI_MSG (AM_SAI_ACK [])) = Some w' \<and> af_terminating (aw_fi w')
    \<and> (\<exists>more. aw_out w' = aw_out w @ [TX_AUTH_FAIL_REP, PARENT_TERM_EVENT ef (Some GSM48_REJECT_NETWORK_FAILURE)] @ more
         \<and> (if vlr_subscr_has_auth_tuple ((aw_vsub w)\<lparr>vs_last_tuple := None\<rparr>) (af_max_reuse_count (aw_fi w))
            then \<exists>t u. more = [TX_AUTH_REQ t u] else more = []))"
proof -
  have "auth_kept (es, en, ef) w" by (rule auth_reachable_kept [OF laws reach])
  then have w: "auth_waiting (es, en, ef) w" using st(2) by (auto simp: auth_kept_def auth_ended_def)
  then have req: "af_auth_requested (aw_fi w)" and ev: "af_event_failure (aw_fi w) = ef"
    using st(1) by (auto simp: auth_waiting_def auth_live_def auth_events_are_def)
  define w1 where "w1 = auth_update_tuples [] (auth_fsm_term L AUTH_FSM_FAILURE (Some GSM48_REJECT_NETWORK_FAILURE) w)"
  have w1: "af_terminating (aw_fi w1)" "af_max_reuse_count (aw_fi w1) = af_max_reuse_count (aw_fi w)"
    "aw_out w1 = aw_out w @ [TX_AUTH_FAIL_REP, PARENT_TERM_EVENT ef (Some GSM48_REJECT_NETWORK_FAILURE)]"
    "vs_tuples (aw_vsub w1) = vs_tuples (aw_vsub w)" "vs_last_tuple (aw_vsub w1) = None"
    using st req ev by (simp_all add: w1_def auth_fsm_term_def auth_op_defs fsm_lawsD [OF laws] vlr_subscr_update_tuples_def)
  have step: "auth_step (L, cfg) w (AI_MSG (AM_SAI_ACK [])) = Some (vlr_subscr_authenticate L w1)"
    using st w1(1)
    by (simp add: auth_step_def auth_dispatch_def auth_action_def fsm_lawsD [OF laws] auth_fsm_wait_ai_resync_def
        sai_procedure_error_def w1_def auth_tdef_state_chg_def auth_state_chg_def Let_def)
  have same: "vlr_subscr_next_auth_tuple (Some (aw_vsub w1)) m = vlr_subscr_next_auth_tuple (Some ((aw_vsub w)\<lparr>vs_last_tuple := None\<rparr>)) m" for m
    using w1(4,5) by (simp add: vlr_subscr_next_auth_tuple_def)
  show ?thesis
  proof (cases "vlr_subscr_next_auth_tuple (Some (aw_vsub w1)) (af_max_reuse_count (aw_fi w))")
    case None
    then have "vlr_subscr_authenticate L w1 = auth_fsm_term L AUTH_FSM_FAILURE (Some GSM48_REJECT_NETWORK_FAILURE) w1"
      using w1(2) by (simp add: vlr_subscr_authenticate_def vlr_subscr_get_auth_tuple_def)
    then have "aw_out (vlr_subscr_authenticate L w1) = aw_out w1" "af_terminating (aw_fi (vlr_subscr_authenticate L w1))"
      using w1(1) by (simp_all add: auth_fsm_term_def auth_op_defs fsm_lawsD [OF laws])
    with None step w1(3) same show ?thesis by (simp add: vlr_subscr_has_auth_tuple_def)
  next
    case (Some i)
    then have "\<exists>t u. aw_out (vlr_subscr_authenticate L w1) = aw_out w1 @ [TX_AUTH_REQ t u]" "af_terminating (aw_fi (vlr_subscr_authenticate L w1))"
      using w1(1,2) by (simp_all add: vlr_subscr_authenticate_def vlr_subscr_get_auth_tuple_def auth_emit_def Let_def)
    with Some step w1(3) same show ?thesis by (auto simp: vlr_subscr_has_auth_tuple_def)
  qed
qed

theorem auth_resync_request_after_end_witness:
  "\<exists>w' t u. auth_step (fsm_lib_masks, example_cfg) example_resync (AI_MSG (AM_SAI_ACK [])) = Some w'
     \<and> aw_out w' = aw_out example_resync
         @ [TX_AUTH_FAIL_REP, PARENT_TERM_EVENT 3 (Some GSM48_REJECT_NETWORK_FAILURE), TX_AUTH_REQ t u]"
proof -
  have st: "af_state (aw_fi example_resync) = VLR_SUB_AS_NEEDS_AUTH_WAIT_SAI_RESYNC" "\<not> af_terminating (aw_fi example_resync)"
    by (simp_all add: example_resync_def example_challenged_def auth_fi_alloc_def)
  have has: "vlr_subscr_has_auth_tuple ((aw_vsub example_resync)\<lparr>vs_last_tuple := None\<rparr>) (af_max_reuse_count (aw_fi example_resync))"
    by (simp add: vlr_subscr_has_auth_tuple_def example_resync_def example_challenged_def example_challenge_def auth_eval_defs)
  from auth_resync_request_after_end [OF fsm_laws_masks example_resync_reachable st] has show ?thesis by auto
qed

text \<open>
  C36: in the resynchronisation case, a wrong response to a procedure that does not know the IMSI makes the machine
  ask the MS for its IMSI, but it stays in the state that awaits a response, since the table does not allow the state
  change; whatever identity the MS then sends is ignored.
\<close>

theorem auth_resync_identity_ignored:
  assumes laws: "fsm_laws L" and reach: "auth_reachable L cfg evs w"
    and st: "af_state (aw_fi w) = VLR_SUB_AS_WAIT_RESP_RESYNC" "\<not> af_terminating (aw_fi w)" and imsi: "\<not> af_by_imsi (aw_fi w)"
    and wrong: "map_option snd (check_auth_resp (aw_vsub w) (par_is_r99 par) (par_is_utran par) (par_res par)) = Some False"
  shows "\<exists>w'. auth_step (L, cfg) w (AI_MSG (AM_AUTH_RESP par)) = Some w'
     \<and> aw_out w' = aw_out w @ [TX_ID_REQ_IMSI] \<and> aw_fi w' = aw_fi w
     \<and> (\<forall>imsi. auth_step (L, cfg) w' (AI_MSG (AM_ID_IMSI imsi)) = Some w')"
proof -
  obtain vsub where vsub: "check_auth_resp (aw_vsub w) (par_is_r99 par) (par_is_utran par) (par_res par) = Some (vsub, False)"
    using wrong by auto
  let ?w = "auth_emit TX_ID_REQ_IMSI (auth_set_vsub vsub w)"
  have "auth_step (L, cfg) w (AI_MSG (AM_AUTH_RESP par)) = Some ?w"
    using st imsi vsub
    by (simp add: auth_step_def auth_dispatch_def auth_action_def fsm_lawsD [OF laws] auth_fsm_wait_auth_resp_resync_def
        auth_tdef_state_chg_def auth_state_chg_def auth_emit_def auth_set_vsub_def Let_def)
  moreover have "auth_step (L, cfg) ?w (AI_MSG (AM_ID_IMSI i)) = Some ?w" for i
    using st by (simp add: auth_step_def auth_dispatch_def fsm_lawsD [OF laws] auth_emit_def auth_set_vsub_def Let_def)
  ultimately show ?thesis by (simp add: auth_emit_def auth_set_vsub_def)
qed

definition example_resync_resp :: auth_world where
  "example_resync_resp = the (auth_step (fsm_lib_masks, example_cfg) example_resync (AI_MSG (AM_SAI_ACK [example_vec])))"

theorem auth_resync_identity_ignored_witness:
  "\<exists>w'. auth_step (fsm_lib_masks, example_cfg) example_resync_resp (example_resp [0, 0, 0, 0]) = Some w'
     \<and> aw_out w' = aw_out example_resync_resp @ [TX_ID_REQ_IMSI] \<and> af_state (aw_fi w') = VLR_SUB_AS_WAIT_RESP_RESYNC
     \<and> auth_step (fsm_lib_masks, example_cfg) w' (AI_MSG (AM_ID_IMSI ''901700000000001'')) = Some w'"
proof -
  let ?step = "auth_step (fsm_lib_masks, example_cfg)"
  have "?step example_resync (AI_MSG (AM_SAI_ACK [example_vec])) = Some example_resync_resp"
    unfolding example_resync_resp_def
    by (simp add: example_resync_def example_challenged_def example_challenge_def auth_eval_defs)
  then have reach: "auth_reachable fsm_lib_masks example_cfg (1, 2, 3) example_resync_resp"
    using auth_reachable_run [OF example_resync_reachable, of "[AI_MSG (AM_SAI_ACK [example_vec])]"] by simp
  have st: "af_state (aw_fi example_resync_resp) = VLR_SUB_AS_WAIT_RESP_RESYNC" "\<not> af_terminating (aw_fi example_resync_resp)"
    "\<not> af_by_imsi (aw_fi example_resync_resp)"
    by (simp_all add: example_resync_resp_def example_resync_def example_challenged_def example_challenge_def auth_eval_defs)
  have wrong: "map_option snd (check_auth_resp (aw_vsub example_resync_resp) False False (Some [0, 0, 0, 0])) = Some False"
    by (simp add: example_resync_resp_def example_resync_def example_challenged_def example_challenge_def auth_eval_defs)
  let ?par = "\<lparr>par_is_r99 = False, par_is_utran = False, par_res = Some [0, 0, 0, 0]\<rparr>"
  from auth_resync_identity_ignored [OF fsm_laws_masks reach st, of ?par] wrong st(1) show ?thesis by (simp add: example_resp_def) metis
qed

end
