(* ===== verification/Vlr_Store.thy ===== *)
theory Vlr_Store
  imports Vlr_Types "HOL-Library.Monad_Syntax"
begin

text \<open>
  The subscriber store of the VLR, \<open>src/src/libvlr/vlr.c\<close>: allocation, use counts and freeing, the lookup
  hash tables, the functions that set an identity, and the merge of two records of one subscriber.
  Subscribers are objects in a heap, a map from addresses; the list \<open>vlr->subscribers\<close> is a list of
  addresses.  A failing assertion and an access to a freed subscriber yield \<open>None\<close>.  Calls into other
  components are recorded in order in \<open>v_out\<close>.
\<close>

subsection \<open>The libraries\<close>

text \<open>
  Hash tables, \<open>osmo_jhash()\<close> and use counts are libosmocore and parameters of the model.  \<open>ht_slot\<close> is
  not an operation: it names the documented content of a table, the key under which a node is linked.
\<close>

record 'h vlr_lib =
  ht_del :: "nat \<Rightarrow> 'h \<Rightarrow> 'h"
  ht_add :: "32 word \<Rightarrow> nat \<Rightarrow> 'h \<Rightarrow> 'h"
  ht_possible :: "32 word \<Rightarrow> 'h \<Rightarrow> nat list"
  ht_slot :: "'h \<Rightarrow> nat \<Rightarrow> 32 word option"
  jhash :: "string \<Rightarrow> 32 word"
  uc_change :: "string \<Rightarrow> int \<Rightarrow> use_counts \<Rightarrow> use_counts"
  uc_by :: "string \<Rightarrow> use_counts \<Rightarrow> int"
  uc_total :: "use_counts \<Rightarrow> int"

definition hash_laws :: "'h vlr_lib \<Rightarrow> bool" where
  "hash_laws B \<longleftrightarrow>
     (\<forall>a t. ht_slot B (ht_del B a t) = (ht_slot B t)(a := None))
     \<and> (\<forall>k a t. ht_slot B t a = None \<longrightarrow> ht_slot B (ht_add B k a t) = (ht_slot B t)(a \<mapsto> k))
     \<and> (\<forall>k a t. ht_slot B t a = Some k \<longrightarrow> a \<in> set (ht_possible B k t))
     \<and> (\<forall>k a t. a \<in> set (ht_possible B k t) \<longrightarrow> ht_slot B t a \<noteq> None)"

definition use_laws :: "'h vlr_lib \<Rightarrow> bool" where
  "use_laws B \<longleftrightarrow>
     (\<forall>u u' d es. uc_by B u' (uc_change B u d es) = uc_by B u' es + (if u' = u then d else 0))
     \<and> (\<forall>u d es. uc_total B (uc_change B u d es) = uc_total B es + d)
     \<and> (\<forall>u. uc_by B u [] = 0) \<and> uc_total B [] = 0
     \<and> (\<forall>u es. (\<forall>u'. 0 \<le> uc_by B u' es) \<longrightarrow> uc_by B u es \<le> uc_total B es)"

subsection \<open>State\<close>

datatype vlr_inval_reason =
    VLR_INVAL_REASON_WITHDRAWN | VLR_INVAL_REASON_UPDATE_LOCATION | VLR_INVAL_REASON_LOCATION_EXPIRED
  | VLR_INVAL_REASON_DUPLICATE_SUBSCR

text \<open>Calls into the MSC, the HLR client and the other machines of a subscriber.\<close>

datatype vlr_out =
    OPS_SUBSCR_INVAL nat vlr_inval_reason | OPS_SUBSCR_UPDATE nat | OPS_SGS_FORGET string
  | CALL_LU_CANCEL nat reject_value | CALL_PARQ_CANCEL nat reject_value | CALL_AUTH_TERM nat
  | CALL_SGS_FSM_CREATE nat | CALL_SGS_FSM_REMOVE nat | CALL_SGS_DETACH nat | CALL_SILENT_CALL_STOP "nat option"
  | TX_PURGE_MS nat

record 'h vlr =
  v_heap :: "nat \<Rightarrow> vlr_subscr option"
  v_list :: "nat list"
  v_by_imsi :: 'h
  v_by_tmsi :: 'h
  v_by_tmsi_new :: 'h
  v_count :: int
  v_lu_complete :: nat
  v_pag_inflight :: nat
  v_out :: "vlr_out list"

definition vsub_get :: "nat \<Rightarrow> 'h vlr \<Rightarrow> vlr_subscr option" where
  "vsub_get a v = v_heap v a"

definition vsub_upd :: "nat \<Rightarrow> (vlr_subscr \<Rightarrow> vlr_subscr) \<Rightarrow> 'h vlr \<Rightarrow> 'h vlr option" where
  "vsub_upd a f v = map_option (\<lambda>s. v\<lparr>v_heap := (v_heap v)(a \<mapsto> f s)\<rparr>) (v_heap v a)"

definition v_emit :: "vlr_out \<Rightarrow> 'h vlr \<Rightarrow> 'h vlr" where
  "v_emit x v = v\<lparr>v_out := v_out v @ [x]\<rparr>"

subsection \<open>Lookup tables\<close>

definition vlr_subscr_rehash_imsi :: "'h vlr_lib \<Rightarrow> nat \<Rightarrow> 'h vlr \<Rightarrow> 'h vlr option" where
  "vlr_subscr_rehash_imsi B a v = do {
     s \<leftarrow> vsub_get a v;
     let t = ht_del B a (v_by_imsi v);
     Some (v\<lparr>v_by_imsi := (if vs_imsi s \<noteq> [] then ht_add B (jhash B (vs_imsi s)) a t else t)\<rparr>) }"

definition vlr_subscr_rehash_tmsi :: "'h vlr_lib \<Rightarrow> nat \<Rightarrow> 'h vlr \<Rightarrow> 'h vlr option" where
  "vlr_subscr_rehash_tmsi B a v = do {
     s \<leftarrow> vsub_get a v;
     let t = ht_del B a (v_by_tmsi v);
     let t' = (if vs_tmsi s \<noteq> GSM_RESERVED_TMSI then ht_add B (vs_tmsi s) a t else t);
     let n = ht_del B a (v_by_tmsi_new v);
     let n' = (if vs_tmsi_new s \<noteq> GSM_RESERVED_TMSI then ht_add B (vs_tmsi_new s) a n else n);
     Some (v\<lparr>v_by_tmsi := t', v_by_tmsi_new := n'\<rparr>) }"

definition vlr_subscr_matches_imsi :: "vlr_subscr \<Rightarrow> string \<Rightarrow> bool" where
  "vlr_subscr_matches_imsi s imsi \<longleftrightarrow> vs_imsi s \<noteq> [] \<and> vs_imsi s = imsi"

definition vlr_subscr_matches_tmsi :: "vlr_subscr \<Rightarrow> 32 word \<Rightarrow> bool" where
  "vlr_subscr_matches_tmsi s tmsi \<longleftrightarrow> tmsi \<noteq> GSM_RESERVED_TMSI \<and> (vs_tmsi s = tmsi \<or> vs_tmsi_new s = tmsi)"

definition vlr_subscr_matches_msisdn :: "vlr_subscr \<Rightarrow> string \<Rightarrow> bool" where
  "vlr_subscr_matches_msisdn s msisdn \<longleftrightarrow> vs_msisdn s \<noteq> [] \<and> vs_msisdn s = msisdn"

definition vlr_subscr_matches_imei :: "vlr_subscr \<Rightarrow> string \<Rightarrow> bool" where
  "vlr_subscr_matches_imei s imei \<longleftrightarrow> vs_imei s \<noteq> [] \<and> vs_imei s = imei"

text \<open>
  A loop over addresses that stops at the first match; following a dangling address is \<open>None\<close>.
\<close>

fun scan :: "(nat \<Rightarrow> 'a option) \<Rightarrow> ('a \<Rightarrow> bool) \<Rightarrow> nat list \<Rightarrow> nat option option" where
  "scan h P [] = Some None"
| "scan h P (a # as) = (case h a of None \<Rightarrow> None | Some s \<Rightarrow> if P s then Some (Some a) else scan h P as)"

subsection \<open>Use counts\<close>

definition vlr_subscr_set_lu_complete :: "nat \<Rightarrow> bool \<Rightarrow> 'h vlr \<Rightarrow> 'h vlr option" where
  "vlr_subscr_set_lu_complete a complete v = do {
     s \<leftarrow> vsub_get a v;
     if vs_lu_complete s = complete then Some v
     else do {
       v1 \<leftarrow> vsub_upd a (\<lambda>s. s\<lparr>vs_lu_complete := complete\<rparr>) v;
       Some (v1\<lparr>v_lu_complete := (if complete then v_lu_complete v1 + 1 else v_lu_complete v1 - 1)\<rparr>) } }"

definition vlr_subscr_free :: "'h vlr_lib \<Rightarrow> nat \<Rightarrow> 'h vlr \<Rightarrow> 'h vlr option" where
  "vlr_subscr_free B a v = do {
     s \<leftarrow> vsub_get a v;
     let v1 = v\<lparr>v_list := remove1 a (v_list v), v_by_imsi := ht_del B a (v_by_imsi v),
                v_by_tmsi := ht_del B a (v_by_tmsi v), v_by_tmsi_new := ht_del B a (v_by_tmsi_new v),
                v_count := v_count v - 1\<rparr>;
     v2 \<leftarrow> vsub_upd a (\<lambda>s. s\<lparr>vs_ts5 := False, vs_paging_timer := False\<rparr>) v1;
     let v3 = v_emit (CALL_SGS_FSM_REMOVE a) v2;
     v4 \<leftarrow> (if vs_lu_complete s then vlr_subscr_set_lu_complete a False v3 else Some v3);
     Some (v4\<lparr>v_heap := (v_heap v4)(a := None)\<rparr>) }"

text \<open>
  \<open>vlr_subscr_get()\<close> and \<open>vlr_subscr_put()\<close>: the library changes the count and calls
  \<open>vlr_subscr_use_cb()\<close>; a negative count makes the callback fail and the macro abort.
\<close>

definition vlr_subscr_use_cb :: "'h vlr_lib \<Rightarrow> nat \<Rightarrow> string \<Rightarrow> 'h vlr \<Rightarrow> 'h vlr option" where
  "vlr_subscr_use_cb B a use v = do {
     s \<leftarrow> vsub_get a v;
     let total = uc_total B (vs_uses s);
     if uc_by B use (vs_uses s) < 0 then None
     else do {
       v1 \<leftarrow> vsub_upd a (\<lambda>s. s\<lparr>vs_max_uses := max (vs_max_uses s) total\<rparr>) v;
       if total \<le> 0 then vlr_subscr_free B a v1 else Some v1 } }"

definition use_get_put :: "'h vlr_lib \<Rightarrow> nat \<Rightarrow> string \<Rightarrow> int \<Rightarrow> 'h vlr \<Rightarrow> 'h vlr option" where
  "use_get_put B a use d v = do {
     v1 \<leftarrow> vsub_upd a (\<lambda>s. s\<lparr>vs_uses := uc_change B use d (vs_uses s)\<rparr>) v;
     vlr_subscr_use_cb B a use v1 }"

definition vlr_subscr_get :: "'h vlr_lib \<Rightarrow> nat \<Rightarrow> string \<Rightarrow> 'h vlr \<Rightarrow> 'h vlr option" where
  "vlr_subscr_get B a use = use_get_put B a use 1"

definition vlr_subscr_put :: "'h vlr_lib \<Rightarrow> nat \<Rightarrow> string \<Rightarrow> 'h vlr \<Rightarrow> 'h vlr option" where
  "vlr_subscr_put B a use = use_get_put B a use (- 1)"

subsection \<open>Finding a subscriber\<close>

text \<open>\<open>use\<close> is NULL when no reference is to be taken.\<close>

definition get_found :: "'h vlr_lib \<Rightarrow> string option \<Rightarrow> nat option \<Rightarrow> 'h vlr \<Rightarrow> ('h vlr \<times> nat option) option" where
  "get_found B use found v =
     (case found of None \<Rightarrow> Some (v, None)
      | Some a \<Rightarrow> (case use of None \<Rightarrow> Some (v, Some a)
                   | Some u \<Rightarrow> map_option (\<lambda>v1. (v1, Some a)) (vlr_subscr_get B a u v)))"

definition vlr_subscr_find_by_imsi ::
    "'h vlr_lib \<Rightarrow> string \<Rightarrow> string option \<Rightarrow> 'h vlr \<Rightarrow> ('h vlr \<times> nat option) option" where
  "vlr_subscr_find_by_imsi B imsi use v =
     (if imsi = [] then Some (v, None)
      else do {
        found \<leftarrow> scan (v_heap v) (\<lambda>s. vlr_subscr_matches_imsi s imsi) (ht_possible B (jhash B imsi) (v_by_imsi v));
        get_found B use found v })"

definition vlr_subscr_find_by_tmsi ::
    "'h vlr_lib \<Rightarrow> 32 word \<Rightarrow> string option \<Rightarrow> 'h vlr \<Rightarrow> ('h vlr \<times> nat option) option" where
  "vlr_subscr_find_by_tmsi B tmsi use v =
     (if tmsi = GSM_RESERVED_TMSI then Some (v, None)
      else do {
        found \<leftarrow> scan (v_heap v) (\<lambda>s. vs_tmsi s = tmsi) (ht_possible B tmsi (v_by_tmsi v));
        if found \<noteq> None then get_found B use found v
        else do {
          found \<leftarrow> scan (v_heap v) (\<lambda>s. vs_tmsi_new s = tmsi) (ht_possible B tmsi (v_by_tmsi_new v));
          get_found B use found v } })"

definition vlr_subscr_find_by_msisdn ::
    "'h vlr_lib \<Rightarrow> string \<Rightarrow> string option \<Rightarrow> 'h vlr \<Rightarrow> ('h vlr \<times> nat option) option" where
  "vlr_subscr_find_by_msisdn B msisdn use v =
     (if msisdn = [] then Some (v, None)
      else do {
        found \<leftarrow> scan (v_heap v) (\<lambda>s. vs_imsi s \<noteq> [] \<and> vlr_subscr_matches_msisdn s msisdn) (v_list v);
        get_found B use found v })"

text \<open>A mobile identity of type IMSI or TMSI; other types find nobody.\<close>

datatype mobile_identity = MI_IMSI string | MI_TMSI "32 word" | MI_IMEI string | MI_IMEISV string | MI_NONE

definition vlr_subscr_find_by_mi ::
    "'h vlr_lib \<Rightarrow> mobile_identity \<Rightarrow> string option \<Rightarrow> 'h vlr \<Rightarrow> ('h vlr \<times> nat option) option" where
  "vlr_subscr_find_by_mi B mi use v =
     (case mi of MI_IMSI imsi \<Rightarrow> vlr_subscr_find_by_imsi B imsi use v
      | MI_TMSI tmsi \<Rightarrow> vlr_subscr_find_by_tmsi B tmsi use v
      | _ \<Rightarrow> Some (v, None))"

subsection \<open>Allocation and identities\<close>

abbreviation (input) VLR_INCOMPLETE_LU_SECS :: nat where "VLR_INCOMPLETE_LU_SECS \<equiv> 600"
abbreviation (input) VSUB_USE_ATTACHED :: string where "VSUB_USE_ATTACHED \<equiv> ''attached''"
abbreviation (input) VSUB_USE_SGS_LU :: string where "VSUB_USE_SGS_LU \<equiv> ''SGs-lu''"
abbreviation (input) VSUB_USE_SGS_PAGING_REQ :: string where "VSUB_USE_SGS_PAGING_REQ \<equiv> ''SGs-paging-req''"
abbreviation (input) VSUB_USE_PAGING :: string where "VSUB_USE_PAGING \<equiv> ''Paging''"

text \<open>
  \<open>_vlr_subscr_alloc()\<close>.  The address is the one that \<open>talloc_zero()\<close> returns; \<open>clock\<close> is the monotonic
  time in seconds, \<open>None\<close> when it cannot be read.
\<close>

definition vlr_subscr_new :: "nat option \<Rightarrow> vlr_subscr" where
  "vlr_subscr_new clock = vlr_subscr_zero\<lparr>vs_tmsi := GSM_RESERVED_TMSI, vs_tmsi_new := GSM_RESERVED_TMSI,
     vs_expire_lu := (case clock of None \<Rightarrow> 0 | Some now \<Rightarrow> now + VLR_INCOMPLETE_LU_SECS),
     vs_tuples := map (\<lambda>t. t\<lparr>key_seq := VLR_KEY_SEQ_INVAL\<rparr>) (vs_tuples vlr_subscr_zero)\<rparr>"

definition vlr_subscr_alloc :: "nat option \<Rightarrow> nat \<Rightarrow> 'h vlr \<Rightarrow> 'h vlr" where
  "vlr_subscr_alloc clock a v =
     (v_emit (CALL_SGS_FSM_CREATE a) (v\<lparr>v_heap := (v_heap v)(a \<mapsto> vlr_subscr_new clock)\<rparr>))
       \<lparr>v_list := v_list v @ [a], v_count := v_count v + 1\<rparr>"

definition vlr_subscr_keep_incomplete_expiry :: "nat option \<Rightarrow> nat \<Rightarrow> 'h vlr \<Rightarrow> 'h vlr option" where
  "vlr_subscr_keep_incomplete_expiry clock a v = do {
     s \<leftarrow> vsub_get a v;
     if vs_lu_complete s then Some v
     else (case clock of None \<Rightarrow> Some v
           | Some now \<Rightarrow> vsub_upd a (\<lambda>s. s\<lparr>vs_expire_lu := now + VLR_INCOMPLETE_LU_SECS\<rparr>) v) }"

text \<open>\<open>secs\<close> is the configured T3212 or T3312, read with \<open>vlr_timer_secs()\<close>.\<close>

definition vlr_subscr_enable_expire_lu :: "nat option \<Rightarrow> nat \<Rightarrow> nat \<Rightarrow> 'h vlr \<Rightarrow> 'h vlr option" where
  "vlr_subscr_enable_expire_lu clock secs a =
     vsub_upd a (\<lambda>s. s\<lparr>vs_expire_lu := (case clock of None \<Rightarrow> 0 | Some now \<Rightarrow> now + secs)\<rparr>)"

text \<open>The buffers hold the digits of 3GPP TS 23.003 and a terminator: 14 for an IMEI, 16 for an IMEISV, 15 for an MSISDN.\<close>

definition vlr_subscr_set_imei :: "nat \<Rightarrow> string \<Rightarrow> 'h vlr \<Rightarrow> 'h vlr option" where
  "vlr_subscr_set_imei a imei = vsub_upd a (\<lambda>s. s\<lparr>vs_imei := strlcpy 15 imei\<rparr>)"

definition vlr_subscr_set_imeisv :: "nat \<Rightarrow> string \<Rightarrow> 'h vlr \<Rightarrow> 'h vlr option" where
  "vlr_subscr_set_imeisv a imeisv v = do {
     v1 \<leftarrow> vsub_upd a (\<lambda>s. s\<lparr>vs_imeisv := strlcpy 17 imeisv\<rparr>) v;
     vlr_subscr_set_imei a imeisv v1 }"

definition vlr_subscr_set_msisdn :: "nat \<Rightarrow> string \<Rightarrow> 'h vlr \<Rightarrow> 'h vlr option" where
  "vlr_subscr_set_msisdn a msisdn = vsub_upd a (\<lambda>s. s\<lparr>vs_msisdn := strlcpy 16 msisdn\<rparr>)"

text \<open>\<open>OSMO_ASSERT\<close>s of \<open>vlr_subscr_get()\<close> and \<open>vlr_subscr_put()\<close> around the calls into the machines.\<close>

definition vlr_subscr_cancel_attach_fsm :: "'h vlr_lib \<Rightarrow> nat \<Rightarrow> reject_value \<Rightarrow> 'h vlr \<Rightarrow> 'h vlr option" where
  "vlr_subscr_cancel_attach_fsm B a cause v = do {
     v1 \<leftarrow> vlr_subscr_get B a ''vlr_subscr_cancel_attach_fsm'' v;
     s \<leftarrow> vsub_get a v1;
     let v2 = (if vs_lu_fsm s then v_emit (CALL_LU_CANCEL a cause) v1 else v1);
     let v3 = (if vs_parq_fsm s then v_emit (CALL_PARQ_CANCEL a cause) v2 else v2);
     let v4 = (if vs_auth_fsm s then v_emit (CALL_AUTH_TERM a) v3 else v3);
     vlr_subscr_put B a ''vlr_subscr_cancel_attach_fsm'' v4 }"

text \<open>\<open>has_forget\<close> says whether the optional callback \<open>ops.sgs_assoc_forget\<close> is set.\<close>

definition vlr_subscr_expire :: "'h vlr_lib \<Rightarrow> bool \<Rightarrow> nat \<Rightarrow> 'h vlr \<Rightarrow> ('h vlr \<times> bool) option" where
  "vlr_subscr_expire B has_forget a v = do {
     s \<leftarrow> vsub_get a v;
     if vs_lu_complete s then do {
       let v1 = (if has_forget \<and> vs_imsi s \<noteq> [] then v_emit (OPS_SGS_FORGET (vs_imsi s)) v else v);
       v2 \<leftarrow> vlr_subscr_set_lu_complete a False v1;
       v3 \<leftarrow> vlr_subscr_put B a VSUB_USE_ATTACHED v2;
       Some (v3, True) }
     else Some (v, False) }"

subsection \<open>Merging two records of one subscriber\<close>

text \<open>\<open>paging_request_join_vsub()\<close> of \<open>src/src/libmsc/paging.c\<close>\<close>

definition paging_request_join_vsub :: "'h vlr_lib \<Rightarrow> nat \<Rightarrow> nat \<Rightarrow> 'h vlr \<Rightarrow> 'h vlr option" where
  "paging_request_join_vsub B keep discarding v = do {
     d \<leftarrow> vsub_get discarding v;
     if \<not> vs_is_paging d then Some v
     else do {
       v1 \<leftarrow> vsub_upd discarding (\<lambda>s. s\<lparr>vs_requests := []\<rparr>) v;
       v2 \<leftarrow> vsub_upd keep (\<lambda>s. s\<lparr>vs_requests := vs_requests s @ vs_requests d\<rparr>) v1;
       k \<leftarrow> vsub_get keep v2;
       v3 \<leftarrow> (if \<not> vs_is_paging k \<and> vs_requests k \<noteq> [] then do {
                v' \<leftarrow> vlr_subscr_get B keep VSUB_USE_PAGING v2;
                vsub_upd keep (\<lambda>s. s\<lparr>vs_is_paging := True\<rparr>) v' }
              else Some v2);
       v4 \<leftarrow> vsub_upd discarding (\<lambda>s. s\<lparr>vs_is_paging := False, vs_paging_timer := False\<rparr>) v3;
       vlr_subscr_put B discarding VSUB_USE_PAGING v4 } }"

text \<open>The two nested loops that copy valid tuples; the inner loop does not stop after a copy.\<close>

definition dedup_fill :: "vlr_auth_tuple list \<Rightarrow> vlr_auth_tuple \<Rightarrow> vlr_auth_tuple list" where
  "dedup_fill ts t = map (\<lambda>x. if key_seq x \<noteq> VLR_KEY_SEQ_INVAL then x else t) ts"

definition dedup_tuples :: "vlr_auth_tuple list \<Rightarrow> vlr_auth_tuple list \<Rightarrow> vlr_auth_tuple list" where
  "dedup_tuples ex ts = foldl (\<lambda>ts t. if key_seq t = VLR_KEY_SEQ_INVAL then ts else dedup_fill ts t) ts ex"

definition dedup_take_over :: "vlr_subscr \<Rightarrow> vlr_subscr \<Rightarrow> vlr_subscr" where
  "dedup_take_over ex s = s\<lparr>vs_msisdn := (if vs_msisdn s = [] then vs_msisdn ex else vs_msisdn s),
     vs_name := (if vs_name s = [] then vs_name ex else vs_name s),
     vs_tuples := dedup_tuples (vs_tuples ex) (vs_tuples s)\<rparr>"

definition dedup_drop_identity :: "vlr_subscr \<Rightarrow> vlr_subscr" where
  "dedup_drop_identity s = s\<lparr>vs_msc_conn_ref := None, vs_imsi := [], vs_id := 0, vs_msisdn := [],
     vs_tmsi := GSM_RESERVED_TMSI, vs_tmsi_new := GSM_RESERVED_TMSI\<rparr>"

text \<open>\<open>has_inval\<close> says whether the optional callback \<open>ops.subscr_inval\<close> is set.\<close>

definition dedup_vsub :: "'h vlr_lib \<Rightarrow> bool \<Rightarrow> bool \<Rightarrow> nat \<Rightarrow> nat \<Rightarrow> 'h vlr \<Rightarrow> 'h vlr option" where
  "dedup_vsub B has_inval has_forget ex a v = do {
     v1 \<leftarrow> paging_request_join_vsub B a ex v;
     e \<leftarrow> vsub_get ex v1;
     v2 \<leftarrow> vsub_upd a (dedup_take_over e) v1;
     v3 \<leftarrow> vlr_subscr_get B ex ''dedup'' v2;
     let v4 = (if has_inval then v_emit (OPS_SUBSCR_INVAL ex VLR_INVAL_REASON_DUPLICATE_SUBSCR) v3 else v3);
     v5 \<leftarrow> vsub_upd ex dedup_drop_identity v4;
     v6 \<leftarrow> vlr_subscr_rehash_imsi B ex v5;
     v7 \<leftarrow> vlr_subscr_rehash_tmsi B ex v6;
     v8 \<leftarrow> vlr_subscr_cancel_attach_fsm B ex GSM48_REJECT_CONGESTION v7;
     e8 \<leftarrow> vsub_get ex v8;
     v9 \<leftarrow> (if vs_lu_complete e8 then map_option fst (vlr_subscr_expire B has_forget ex v8) else Some v8);
     vlr_subscr_put B ex ''dedup'' v9 }"

text \<open>
  \<open>atoll\<close> is the C function, \<open>silent\<close> whether a silent call of the existing subscriber is ongoing.
\<close>

definition vlr_subscr_set_imsi ::
    "'h vlr_lib \<Rightarrow> (string \<Rightarrow> nat) \<Rightarrow> bool \<Rightarrow> bool \<Rightarrow> bool \<Rightarrow> nat \<Rightarrow> string \<Rightarrow> 'h vlr \<Rightarrow> 'h vlr option" where
  "vlr_subscr_set_imsi B atoll silent has_inval has_forget a imsi v = do {
     s \<leftarrow> vsub_get a v;
     if vs_imsi s = imsi then Some v
     else do {
       (v1, ex1) \<leftarrow> vlr_subscr_find_by_imsi B imsi None v;
       let v2 = (if silent then v_emit (CALL_SILENT_CALL_STOP ex1) v1 else v1);
       (v3, ex) \<leftarrow> vlr_subscr_find_by_imsi B imsi None v2;
       v4 \<leftarrow> (case ex of None \<Rightarrow> Some v3 | Some e \<Rightarrow> dedup_vsub B has_inval has_forget e a v3);
       v5 \<leftarrow> vsub_upd a (\<lambda>s. s\<lparr>vs_imsi := strlcpy IMSI_SIZE imsi\<rparr>) v4;
       v6 \<leftarrow> vsub_upd a (\<lambda>s. s\<lparr>vs_id := atoll (vs_imsi s)\<rparr>) v5;
       vlr_subscr_rehash_imsi B a v6 } }"

definition vlr_subscr_find_or_create_by_imsi ::
    "'h vlr_lib \<Rightarrow> (string \<Rightarrow> nat) \<Rightarrow> bool \<Rightarrow> bool \<Rightarrow> bool \<Rightarrow> nat option \<Rightarrow> nat \<Rightarrow> string \<Rightarrow> string \<Rightarrow> 'h vlr
      \<Rightarrow> ('h vlr \<times> nat \<times> bool) option" where
  "vlr_subscr_find_or_create_by_imsi B atoll silent has_inval has_forget clock new imsi use v = do {
     (v1, found) \<leftarrow> vlr_subscr_find_by_imsi B imsi (Some use) v;
     (case found of
        Some a \<Rightarrow> Some (v1, a, False)
      | None \<Rightarrow> do {
          v2 \<leftarrow> vlr_subscr_get B new use (vlr_subscr_alloc clock new v1);
          v3 \<leftarrow> vlr_subscr_set_imsi B atoll silent has_inval has_forget new imsi v2;
          Some (v3, new, True) }) }"

definition vlr_subscr_find_or_create_by_tmsi ::
    "'h vlr_lib \<Rightarrow> nat option \<Rightarrow> nat \<Rightarrow> 32 word \<Rightarrow> string \<Rightarrow> 'h vlr \<Rightarrow> ('h vlr \<times> nat \<times> bool) option" where
  "vlr_subscr_find_or_create_by_tmsi B clock new tmsi use v = do {
     (v1, found) \<leftarrow> vlr_subscr_find_by_tmsi B tmsi (Some use) v;
     (case found of
        Some a \<Rightarrow> Some (v1, a, False)
      | None \<Rightarrow> do {
          v2 \<leftarrow> vlr_subscr_get B new use (vlr_subscr_alloc clock new v1);
          v3 \<leftarrow> vsub_upd new (\<lambda>s. s\<lparr>vs_tmsi := tmsi\<rparr>) v2;
          v4 \<leftarrow> vlr_subscr_rehash_tmsi B new v3;
          Some (v4, new, True) }) }"

subsection \<open>TMSI allocation\<close>

text \<open>
  One candidate: limited to the configured network resource indicators, if there are any, and with the
  two most significant bits of the domain.  \<open>None\<close> asks for another random number.
\<close>

definition tmsi_candidate :: "bool \<Rightarrow> (32 word \<Rightarrow> 32 word) option \<Rightarrow> 32 word \<Rightarrow> 32 word option" where
  "tmsi_candidate is_ps nri r =
     (let t = (case nri of None \<Rightarrow> r | Some limit \<Rightarrow> limit r) in
      if t = GSM_RESERVED_TMSI then None
      else if is_ps then Some (or t GSM23003_TMSI_SGSN_MASK)
      else if and t GSM23003_TMSI_SGSN_MASK = GSM23003_TMSI_SGSN_MASK then Some (and t (not GSM23003_TMSI_SGSN_MASK))
      else Some t)"

text \<open>
  \<open>rnd\<close> gives the outcome of each call of \<open>osmo_get_rand_id()\<close>, a negative return code or a number; the
  second argument counts the tries that are left.
\<close>

fun alloc_tmsi_loop ::
    "'h vlr_lib \<Rightarrow> bool \<Rightarrow> (32 word \<Rightarrow> 32 word) option \<Rightarrow> (nat \<Rightarrow> int + 32 word) \<Rightarrow> nat \<Rightarrow> nat \<Rightarrow> 'h vlr \<Rightarrow> ('h vlr \<times> int) option" where
  "alloc_tmsi_loop B is_ps nri rnd 0 a v = Some (v, - 1)"
| "alloc_tmsi_loop B is_ps nri rnd (Suc n) a v =
     (case rnd n of
        Inl rc \<Rightarrow> Some (v, rc)
      | Inr r \<Rightarrow>
          (case tmsi_candidate is_ps nri r of
             None \<Rightarrow> alloc_tmsi_loop B is_ps nri rnd n a v
           | Some tmsi \<Rightarrow> do {
               (v1, other) \<leftarrow> vlr_subscr_find_by_tmsi B tmsi (Some ''vlr_subscr_alloc_tmsi'') v;
               (case other of
                  Some b \<Rightarrow> do {
                    v2 \<leftarrow> vlr_subscr_put B b ''vlr_subscr_alloc_tmsi'' v1;
                    alloc_tmsi_loop B is_ps nri rnd n a v2 }
                | None \<Rightarrow> do {
                    v2 \<leftarrow> vsub_upd a (\<lambda>s. s\<lparr>vs_tmsi_new := tmsi\<rparr>) v1;
                    v3 \<leftarrow> vlr_subscr_rehash_tmsi B a v2;
                    Some (v_emit (OPS_SUBSCR_UPDATE a) v3, 0) }) }))"

definition vlr_subscr_alloc_tmsi ::
    "'h vlr_lib \<Rightarrow> bool \<Rightarrow> (32 word \<Rightarrow> 32 word) option \<Rightarrow> (nat \<Rightarrow> int + 32 word) \<Rightarrow> nat \<Rightarrow> 'h vlr \<Rightarrow> ('h vlr \<times> int) option" where
  "vlr_subscr_alloc_tmsi B is_ps nri rnd a v = alloc_tmsi_loop B is_ps nri rnd 100 a v"

subsection \<open>Detach and expiry\<close>

text \<open>\<open>vlr_sgs_lu_release()\<close> and \<open>vlr_sgs_pag_stop()\<close> of \<open>src/src/libvlr/vlr_sgs.c\<close>\<close>

definition vlr_sgs_lu_release :: "'h vlr_lib \<Rightarrow> nat \<Rightarrow> 'h vlr \<Rightarrow> 'h vlr option" where
  "vlr_sgs_lu_release B a v = do {
     s \<leftarrow> vsub_get a v;
     if uc_by B VSUB_USE_SGS_LU (vs_uses s) > 0 then vlr_subscr_put B a VSUB_USE_SGS_LU v else Some v }"

definition sgs_pag_inflight_dec :: "'h vlr \<Rightarrow> 'h vlr" where
  "sgs_pag_inflight_dec v = v\<lparr>v_pag_inflight := (if v_pag_inflight v \<noteq> 0 then v_pag_inflight v - 1 else v_pag_inflight v)\<rparr>"

definition vlr_sgs_pag_stop :: "'h vlr_lib \<Rightarrow> nat \<Rightarrow> 'h vlr \<Rightarrow> 'h vlr option" where
  "vlr_sgs_pag_stop B a v = do {
     s \<leftarrow> vsub_get a v;
     if \<not> vs_ts5 s then Some v
     else do {
       v1 \<leftarrow> vsub_upd a (\<lambda>s. s\<lparr>vs_ts5 := False\<rparr>) v;
       v2 \<leftarrow> vlr_subscr_put B a VSUB_USE_SGS_PAGING_REQ v1;
       Some (sgs_pag_inflight_dec v2) } }"

definition vlr_subscr_purge :: "nat \<Rightarrow> 'h vlr \<Rightarrow> 'h vlr" where
  "vlr_subscr_purge a v = v_emit (TX_PURGE_MS a) v"

definition vlr_subscr_detach :: "'h vlr_lib \<Rightarrow> bool \<Rightarrow> nat option \<Rightarrow> nat \<Rightarrow> 'h vlr \<Rightarrow> 'h vlr option" where
  "vlr_subscr_detach B has_forget clock a v = do {
     v1 \<leftarrow> vlr_subscr_get B a ''vlr_subscr_detach'' v;
     v2 \<leftarrow> vlr_subscr_cancel_attach_fsm B a GSM48_REJECT_CONGESTION v1;
     v3 \<leftarrow> vlr_sgs_lu_release B a v2;
     s \<leftarrow> vsub_get a v3;
     let v4 = (if \<not> vs_imsi_detached s then vlr_subscr_purge a v3 else v3);
     v5 \<leftarrow> vsub_upd a (\<lambda>s. s\<lparr>vs_imsi_detached := True\<rparr>) v4;
     let v6 = v_emit (CALL_SGS_DETACH a) v5;
     (v7, expired) \<leftarrow> vlr_subscr_expire B has_forget a v6;
     v8 \<leftarrow> vlr_subscr_keep_incomplete_expiry clock a v7;
     vlr_subscr_put B a ''vlr_subscr_detach'' v8 }"

definition vlr_subscr_discard_incomplete :: "'h vlr_lib \<Rightarrow> nat option \<Rightarrow> nat \<Rightarrow> 'h vlr \<Rightarrow> ('h vlr \<times> bool) option" where
  "vlr_subscr_discard_incomplete B clock a v = do {
     v1 \<leftarrow> vlr_subscr_get B a ''vlr_subscr_discard_incomplete'' v;
     v2 \<leftarrow> vlr_subscr_cancel_attach_fsm B a GSM48_REJECT_CONGESTION v1;
     v3 \<leftarrow> vlr_sgs_lu_release B a v2;
     v4 \<leftarrow> vlr_sgs_pag_stop B a v3;
     v5 \<leftarrow> vsub_upd a (\<lambda>s. s\<lparr>vs_imsi_detached := True\<rparr>) v4;
     s \<leftarrow> vsub_get a v5;
     let held = (uc_total B (vs_uses s) > 1);
     v6 \<leftarrow> (if held then vlr_subscr_keep_incomplete_expiry clock a v5 else Some v5);
     v7 \<leftarrow> vlr_subscr_put B a ''vlr_subscr_discard_incomplete'' v6;
     Some (v7, held) }"

text \<open>The census of incomplete records that the expiry timer takes.\<close>

record incomplete_snap =
  snap_total :: nat
  snap_expire_future :: nat
  snap_expire_never :: nat
  snap_expire_due :: nat
  snap_sgs_lu :: nat
  snap_discarded :: nat
  snap_held :: nat

definition snap_zero :: incomplete_snap where
  "snap_zero = \<lparr>snap_total = 0, snap_expire_future = 0, snap_expire_never = 0, snap_expire_due = 0, snap_sgs_lu = 0,
     snap_discarded = 0, snap_held = 0\<rparr>"

definition snap_count :: "'h vlr_lib \<Rightarrow> nat \<Rightarrow> vlr_subscr \<Rightarrow> incomplete_snap \<Rightarrow> incomplete_snap" where
  "snap_count B now s c =
     (if vs_lu_complete s then c
      else let c1 = c\<lparr>snap_total := snap_total c + 1\<rparr>;
               c2 = (if vs_expire_lu s = 0 then c1\<lparr>snap_expire_never := snap_expire_never c1 + 1\<rparr>
                     else if vs_expire_lu s \<le> now then c1\<lparr>snap_expire_due := snap_expire_due c1 + 1\<rparr>
                     else c1\<lparr>snap_expire_future := snap_expire_future c1 + 1\<rparr>)
           in if uc_by B VSUB_USE_SGS_LU (vs_uses s) > 0 then c2\<lparr>snap_sgs_lu := snap_sgs_lu c2 + 1\<rparr> else c2)"

definition vsub_due :: "nat \<Rightarrow> vlr_subscr \<Rightarrow> bool" where
  "vsub_due now s \<longleftrightarrow> (vs_expire_lu s \<noteq> 0 \<and> vs_expire_lu s \<le> now) \<or> (\<not> vs_lu_complete s \<and> vs_expire_lu s = 0)"

abbreviation (input) VLR_EXPIRE_MAX_PER_TICK :: nat where "VLR_EXPIRE_MAX_PER_TICK \<equiv> 4096"

text \<open>
  The walk over the subscriber list; the loop saves the successor before the body, which can only free
  the current record.  \<open>n\<close> counts the records handled in this tick.
\<close>

fun expire_loop :: "'h vlr_lib \<Rightarrow> bool \<Rightarrow> nat \<Rightarrow> nat list \<Rightarrow> nat \<Rightarrow> incomplete_snap \<Rightarrow> 'h vlr
    \<Rightarrow> ('h vlr \<times> incomplete_snap) option" where
  "expire_loop B has_forget now [] n c v = Some (v, c)"
| "expire_loop B has_forget now (a # as) n c v = do {
     s \<leftarrow> vsub_get a v;
     let c1 = snap_count B now s c;
     if \<not> vsub_due now s \<or> n \<ge> VLR_EXPIRE_MAX_PER_TICK then expire_loop B has_forget now as n c1 v
     else if vs_lu_complete s then do {
       v1 \<leftarrow> vlr_subscr_detach B has_forget (Some now) a v;
       expire_loop B has_forget now as (n + 1) c1 v1 }
     else do {
       (v1, held) \<leftarrow> vlr_subscr_discard_incomplete B (Some now) a v;
       expire_loop B has_forget now as (n + 1)
         (c1\<lparr>snap_discarded := snap_discarded c1 + 1, snap_held := snap_held c1 + (if held then 1 else 0)\<rparr>) v1 } }"

definition vlr_subscr_expire_lu :: "'h vlr_lib \<Rightarrow> bool \<Rightarrow> nat option \<Rightarrow> incomplete_snap \<Rightarrow> 'h vlr
    \<Rightarrow> ('h vlr \<times> incomplete_snap) option" where
  "vlr_subscr_expire_lu B has_forget clock c v =
     (if v_list v = [] then Some (v, c)
      else (case clock of None \<Rightarrow> Some (v, c) | Some now \<Rightarrow> expire_loop B has_forget now (v_list v) 0 snap_zero v))"

end
