(* ===== verification/Vlr_Store_Inv.thy ===== *)
theory Vlr_Store_Inv
  imports Vlr_Store
begin

text \<open>
  The invariant of the subscriber store and what its operations guarantee: the hash lookups agree with
  a search of the whole list, every record is linked under its current identities, no two records have
  the same IMSI, and the counters agree with the records.
\<close>

subsection \<open>The laws as rewrite rules\<close>

lemma hash_lawsD:
  assumes "hash_laws B"
  shows "ht_slot B (ht_del B a t) = (ht_slot B t)(a := None)"
    and "ht_slot B t a = None \<Longrightarrow> ht_slot B (ht_add B k a t) = (ht_slot B t)(a \<mapsto> k)"
    and "ht_slot B t a = Some k \<Longrightarrow> a \<in> set (ht_possible B k t)"
    and "a \<in> set (ht_possible B k t) \<Longrightarrow> ht_slot B t a \<noteq> None"
  using assms unfolding hash_laws_def by blast+

lemma use_lawsD:
  assumes "use_laws B"
  shows "uc_by B u' (uc_change B u d es) = uc_by B u' es + (if u' = u then d else 0)"
    and "uc_total B (uc_change B u d es) = uc_total B es + d"
    and "uc_by B u [] = 0" and "uc_total B [] = 0"
    and "(\<And>u'. 0 \<le> uc_by B u' es) \<Longrightarrow> uc_by B u es \<le> uc_total B es"
  using assms unfolding use_laws_def by blast+

subsection \<open>Invariant\<close>

definition imsi_key :: "'h vlr_lib \<Rightarrow> vlr_subscr \<Rightarrow> 32 word option" where
  "imsi_key B s = (if vs_imsi s \<noteq> [] then Some (jhash B (vs_imsi s)) else None)"

definition tmsi_key :: "vlr_subscr \<Rightarrow> 32 word option" where
  "tmsi_key s = (if vs_tmsi s \<noteq> GSM_RESERVED_TMSI then Some (vs_tmsi s) else None)"

definition tmsi_new_key :: "vlr_subscr \<Rightarrow> 32 word option" where
  "tmsi_new_key s = (if vs_tmsi_new s \<noteq> GSM_RESERVED_TMSI then Some (vs_tmsi_new s) else None)"

text \<open>A table links exactly the live records, each under its current key.\<close>

definition hash_ok :: "'h vlr_lib \<Rightarrow> (vlr_subscr \<Rightarrow> 32 word option) \<Rightarrow> (nat \<Rightarrow> vlr_subscr option) \<Rightarrow> 'h \<Rightarrow> bool" where
  "hash_ok B key h t \<longleftrightarrow> (\<forall>a. ht_slot B t a = Option.bind (h a) key)"

definition vsub_ok :: "'h vlr_lib \<Rightarrow> vlr_subscr \<Rightarrow> bool" where
  "vsub_ok B s \<longleftrightarrow> length (vs_tuples s) = 5 \<and> (\<forall>u. 0 \<le> uc_by B u (vs_uses s))
     \<and> (vs_lu_complete s \<longrightarrow> 1 \<le> uc_by B VSUB_USE_ATTACHED (vs_uses s))
     \<and> (vs_is_paging s \<longrightarrow> 1 \<le> uc_by B VSUB_USE_PAGING (vs_uses s))
     \<and> (vs_ts5 s \<longrightarrow> 1 \<le> uc_by B VSUB_USE_SGS_PAGING_REQ (vs_uses s))"

definition lu_set :: "(nat \<Rightarrow> vlr_subscr option) \<Rightarrow> nat set" where
  "lu_set h = {a. \<exists>s. h a = Some s \<and> vs_lu_complete s}"

definition imsi_unique :: "(nat \<Rightarrow> vlr_subscr option) \<Rightarrow> bool" where
  "imsi_unique h \<longleftrightarrow> (\<forall>a b s t. h a = Some s \<longrightarrow> h b = Some t \<longrightarrow> vs_imsi s \<noteq> [] \<longrightarrow> vs_imsi s = vs_imsi t \<longrightarrow> a = b)"

definition vlr_inv :: "'h vlr_lib \<Rightarrow> 'h vlr \<Rightarrow> bool" where
  "vlr_inv B v \<longleftrightarrow>
     distinct (v_list v) \<and> set (v_list v) = dom (v_heap v) \<and> v_count v = int (length (v_list v))
     \<and> v_lu_complete v = card (lu_set (v_heap v))
     \<and> hash_ok B (imsi_key B) (v_heap v) (v_by_imsi v) \<and> hash_ok B tmsi_key (v_heap v) (v_by_tmsi v)
     \<and> hash_ok B tmsi_new_key (v_heap v) (v_by_tmsi_new v)
     \<and> (\<forall>a s. v_heap v a = Some s \<longrightarrow> vsub_ok B s) \<and> imsi_unique (v_heap v)"

lemma vlr_inv_ok: "vlr_inv B v \<Longrightarrow> v_heap v a = Some s \<Longrightarrow> vsub_ok B s"
  by (simp add: vlr_inv_def)

lemma vlr_inv_emit [simp]: "vlr_inv B (v_emit x v) = vlr_inv B v"
  by (simp add: vlr_inv_def v_emit_def)

lemma v_emit_simps [simp]: "v_heap (v_emit x v) = v_heap v" "v_list (v_emit x v) = v_list v"
  by (simp_all add: v_emit_def)

lemma finite_lu_set: "vlr_inv B v \<Longrightarrow> finite (lu_set (v_heap v))"
proof -
  assume inv: "vlr_inv B v"
  then have "finite (dom (v_heap v))" by (metis List.finite_set vlr_inv_def)
  then show ?thesis by (rule rev_finite_subset) (auto simp: lu_set_def)
qed

lemma lu_set_upd: "lu_set (h(a \<mapsto> s)) = (if vs_lu_complete s then insert a (lu_set h) else lu_set h - {a})"
  by (auto simp: lu_set_def)

lemma lu_set_del: "lu_set (h(a := None)) = lu_set h - {a}"
  by (auto simp: lu_set_def)

text \<open>A change of a record that leaves its keys and its registration alone.\<close>

definition same_keys :: "vlr_subscr \<Rightarrow> vlr_subscr \<Rightarrow> bool" where
  "same_keys s s' \<longleftrightarrow> vs_imsi s' = vs_imsi s \<and> vs_tmsi s' = vs_tmsi s \<and> vs_tmsi_new s' = vs_tmsi_new s
     \<and> vs_lu_complete s' = vs_lu_complete s"

definition put_sub :: "nat \<Rightarrow> vlr_subscr \<Rightarrow> 'h vlr \<Rightarrow> 'h vlr" where
  "put_sub a s v = v\<lparr>v_heap := (v_heap v)(a \<mapsto> s)\<rparr>"

lemma put_sub_simps [simp]:
  "v_heap (put_sub a s v) = (v_heap v)(a \<mapsto> s)" "v_list (put_sub a s v) = v_list v" "v_by_imsi (put_sub a s v) = v_by_imsi v"
  "v_by_tmsi (put_sub a s v) = v_by_tmsi v" "v_by_tmsi_new (put_sub a s v) = v_by_tmsi_new v"
  "v_lu_complete (put_sub a s v) = v_lu_complete v" "v_count (put_sub a s v) = v_count v"
  "put_sub a s (put_sub a s' v) = put_sub a s v" "v_emit x (put_sub a s v) = put_sub a s (v_emit x v)"
  by (simp_all add: put_sub_def v_emit_def)

lemma vsub_upd_eq: "v_heap v a = Some s \<Longrightarrow> vsub_upd a f v = Some (put_sub a (f s) v)"
  by (simp add: vsub_upd_def put_sub_def)

lemma vsub_get_put_sub [simp]: "vsub_get a (put_sub a s v) = Some s" "b \<noteq> a \<Longrightarrow> vsub_get b (put_sub a s v) = vsub_get b v"
  "vsub_get a (v_emit x v) = vsub_get a v"
  by (simp_all add: vsub_get_def)

lemma hash_ok_upd:
  "hash_ok B key h t \<Longrightarrow> h a = Some s \<Longrightarrow> key s' = key s \<Longrightarrow> hash_ok B key (h(a \<mapsto> s')) t"
  by (auto simp: hash_ok_def)

lemma put_sub_inv:
  assumes "vlr_inv B v" and "v_heap v a = Some s" and "same_keys s s'" and "vsub_ok B s'"
  shows "vlr_inv B (put_sub a s' v)"
proof -
  have "lu_set ((v_heap v)(a \<mapsto> s')) = lu_set (v_heap v)"
    using assms(2,3) unfolding lu_set_upd by (auto simp: lu_set_def same_keys_def)
  moreover have "imsi_unique ((v_heap v)(a \<mapsto> s'))"
    using assms(1-3) unfolding vlr_inv_def imsi_unique_def same_keys_def by (simp split: if_splits) metis
  ultimately show ?thesis
    using assms unfolding vlr_inv_def
    by (auto simp: same_keys_def intro!: hash_ok_upd simp: imsi_key_def tmsi_key_def tmsi_new_key_def)
qed

subsection \<open>References\<close>

lemma vsub_ok_total: "use_laws B \<Longrightarrow> vsub_ok B s \<Longrightarrow> uc_by B u (vs_uses s) \<le> uc_total B (vs_uses s)"
  by (simp add: vsub_ok_def use_lawsD)

lemma use_get_put_alive:
  assumes "v_heap v a = Some s" and "0 \<le> uc_by B u (uc_change B u d (vs_uses s))"
    and "0 < uc_total B (uc_change B u d (vs_uses s))"
  obtains m where "use_get_put B a u d v = Some (put_sub a (s\<lparr>vs_uses := uc_change B u d (vs_uses s), vs_max_uses := m\<rparr>) v)"
  using assms that [of "max (vs_max_uses s) (uc_total B (uc_change B u d (vs_uses s)))"]
  by (simp add: use_get_put_def vlr_subscr_use_cb_def vsub_upd_eq Let_def)

lemma get_alive:
  assumes "use_laws B" and "v_heap v a = Some s" and "vsub_ok B s"
  obtains m where "vlr_subscr_get B a u v = Some (put_sub a (s\<lparr>vs_uses := uc_change B u 1 (vs_uses s), vs_max_uses := m\<rparr>) v)"
proof -
  have "0 \<le> uc_by B u (vs_uses s)" "uc_by B u (vs_uses s) \<le> uc_total B (vs_uses s)"
    using assms(3) vsub_ok_total [OF assms(1,3)] by (simp_all add: vsub_ok_def)
  then have "0 \<le> uc_by B u (uc_change B u 1 (vs_uses s))" "0 < uc_total B (uc_change B u 1 (vs_uses s))"
    by (simp_all add: use_lawsD [OF assms(1)])
  from use_get_put_alive [OF assms(2) this] that show thesis unfolding vlr_subscr_get_def by blast
qed

lemma put_alive:
  assumes "v_heap v a = Some s" and "use_laws B" and "1 \<le> uc_by B u (vs_uses s)" and "2 \<le> uc_total B (vs_uses s)"
  obtains m where "vlr_subscr_put B a u v = Some (put_sub a (s\<lparr>vs_uses := uc_change B u (- 1) (vs_uses s), vs_max_uses := m\<rparr>) v)"
proof -
  have "0 \<le> uc_by B u (uc_change B u (- 1) (vs_uses s))" "0 < uc_total B (uc_change B u (- 1) (vs_uses s))"
    using assms(3,4) by (simp_all add: use_lawsD [OF assms(2)])
  from use_get_put_alive [OF assms(1) this] that show thesis unfolding vlr_subscr_put_def by blast
qed

text \<open>The last reference frees the record.\<close>

definition freed :: "'h vlr_lib \<Rightarrow> nat \<Rightarrow> vlr_subscr \<Rightarrow> 'h vlr \<Rightarrow> 'h vlr" where
  "freed B a s v = v\<lparr>v_heap := (v_heap v)(a := None), v_list := remove1 a (v_list v), v_by_imsi := ht_del B a (v_by_imsi v),
     v_by_tmsi := ht_del B a (v_by_tmsi v), v_by_tmsi_new := ht_del B a (v_by_tmsi_new v), v_count := v_count v - 1,
     v_lu_complete := (if vs_lu_complete s then v_lu_complete v - 1 else v_lu_complete v),
     v_out := v_out v @ [CALL_SGS_FSM_REMOVE a]\<rparr>"

lemma vlr_subscr_free_eq:
  "v_heap v a = Some s \<Longrightarrow> vlr_subscr_free B a v = Some (freed B a s v)"
  by (simp add: vlr_subscr_free_def vsub_get_def vsub_upd_def vlr_subscr_set_lu_complete_def freed_def v_emit_def Let_def)

lemma put_last:
  assumes "v_heap v a = Some s" and "use_laws B" and "1 \<le> uc_by B u (vs_uses s)" and "uc_total B (vs_uses s) = 1"
  shows "vlr_subscr_put B a u v = Some (freed B a s v)"
  using assms
  by (simp add: vlr_subscr_put_def use_get_put_def vlr_subscr_use_cb_def vsub_upd_eq vsub_get_def use_lawsD Let_def
      vlr_subscr_free_eq) (simp add: freed_def put_sub_def)

lemma hash_ok_del:
  "hash_laws B \<Longrightarrow> hash_ok B key h t \<Longrightarrow> hash_ok B key (h(a := None)) (ht_del B a t)"
  by (auto simp: hash_ok_def hash_lawsD)

lemma freed_inv:
  assumes "hash_laws B" and "vlr_inv B v" and "v_heap v a = Some s"
  shows "vlr_inv B (freed B a s v)"
proof -
  have mem: "a \<in> set (v_list v)" using assms(2,3) by (auto simp: vlr_inv_def)
  then have "int (length (remove1 a (v_list v))) = int (length (v_list v)) - 1"
    using length_pos_if_in_set [OF mem] by (cases "length (v_list v)") (simp_all add: length_remove1)
  moreover have "imsi_unique ((v_heap v)(a := None))"
    using assms(2) unfolding vlr_inv_def imsi_unique_def by (simp split: if_splits) metis
  moreover have "card (lu_set (v_heap v) - {a}) = (if vs_lu_complete s then card (lu_set (v_heap v)) - 1 else card (lu_set (v_heap v)))"
    using finite_lu_set [OF assms(2)] assms(3) by (auto simp: lu_set_def card_Diff_singleton)
  ultimately show ?thesis
    using assms(2) hash_ok_del [OF assms(1)] unfolding vlr_inv_def freed_def
    by (auto simp: lu_set_del split: if_splits)
qed

subsection \<open>Lookup\<close>

definition imsi_at :: "(nat \<Rightarrow> vlr_subscr option) \<Rightarrow> string \<Rightarrow> nat \<Rightarrow> bool" where
  "imsi_at h imsi a = (case h a of None \<Rightarrow> False | Some s \<Rightarrow> vs_imsi s = imsi)"

lemma scan_find:
  "(\<And>a. a \<in> set as \<Longrightarrow> h a \<noteq> None) \<Longrightarrow> scan h P as = Some (find (\<lambda>a. \<exists>s. h a = Some s \<and> P s) as)"
  by (induction as) (auto split: option.splits)

lemma find_unique:
  assumes "\<And>x. x \<in> set xs \<Longrightarrow> P x \<longleftrightarrow> x = a" and "a \<in> set xs"
  shows "find P xs = Some a"
  using assms by (induction xs) auto

lemma hash_ok_possible:
  "hash_laws B \<Longrightarrow> hash_ok B key h t \<Longrightarrow> a \<in> set (ht_possible B k t) \<Longrightarrow> h a \<noteq> None"
  using hash_lawsD(4) [of B a k t] by (cases "h a") (auto simp: hash_ok_def)

lemma hash_ok_linked:
  "hash_laws B \<Longrightarrow> hash_ok B key h t \<Longrightarrow> h a = Some s \<Longrightarrow> key s = Some k \<Longrightarrow> a \<in> set (ht_possible B k t)"
  by (rule hash_lawsD(3)) (auto simp: hash_ok_def)

lemma find_key:
  assumes "hash_laws B" and "hash_ok B key h t"
  obtains (found) a s where "scan h P (ht_possible B k t) = Some (Some a)" "h a = Some s" "P s"
    | (none) "scan h P (ht_possible B k t) = Some None" "\<And>a s. h a = Some s \<Longrightarrow> key s = Some k \<Longrightarrow> \<not> P s"
proof -
  let ?r = "find (\<lambda>a. \<exists>s. h a = Some s \<and> P s) (ht_possible B k t)"
  have scan: "scan h P (ht_possible B k t) = Some ?r"
    using hash_ok_possible [OF assms] by (intro scan_find)
  show thesis
  proof (cases ?r)
    case None
    have "\<not> P s" if "h a = Some s" "key s = Some k" for a s
      using None hash_ok_linked [OF assms that] that(1) by (auto simp: find_None_iff)
    with scan None show thesis by (intro none) simp_all
  next
    case (Some a)
    then obtain s where "h a = Some s" "P s" by (auto simp: find_Some_iff)
    with scan Some show thesis by (intro found) simp_all
  qed
qed

lemma find_by_imsi_cases:
  assumes "hash_laws B" and "vlr_inv B v" and "imsi \<noteq> []"
  obtains (found) a s where "vlr_subscr_find_by_imsi B imsi use v = get_found B use (Some a) v" "v_heap v a = Some s" "vs_imsi s = imsi"
    | (none) "vlr_subscr_find_by_imsi B imsi use v = Some (v, None)" "\<And>a s. v_heap v a = Some s \<Longrightarrow> vs_imsi s \<noteq> imsi"
proof -
  have ok: "hash_ok B (imsi_key B) (v_heap v) (v_by_imsi v)" using assms(2) by (simp add: vlr_inv_def)
  show thesis
  proof (rule find_key [OF assms(1) ok, of "\<lambda>s. vlr_subscr_matches_imsi s imsi" "jhash B imsi"])
    fix a s
    assume scan: "scan (v_heap v) (\<lambda>s. vlr_subscr_matches_imsi s imsi) (ht_possible B (jhash B imsi) (v_by_imsi v)) = Some (Some a)"
      and s: "v_heap v a = Some s" and "vlr_subscr_matches_imsi s imsi"
    then have "vs_imsi s = imsi" unfolding vlr_subscr_matches_imsi_def by blast
    moreover have "vlr_subscr_find_by_imsi B imsi use v = get_found B use (Some a) v"
      using scan assms(3) by (simp add: vlr_subscr_find_by_imsi_def)
    ultimately show thesis using s by (intro found [of a s])
  next
    assume scan: "scan (v_heap v) (\<lambda>s. vlr_subscr_matches_imsi s imsi) (ht_possible B (jhash B imsi) (v_by_imsi v)) = Some None"
      and no: "\<And>a s. v_heap v a = Some s \<Longrightarrow> imsi_key B s = Some (jhash B imsi) \<Longrightarrow> \<not> vlr_subscr_matches_imsi s imsi"
    have "vs_imsi s \<noteq> imsi" if "v_heap v a = Some s" for a s
      using no [OF that] assms(3) by (auto simp: imsi_key_def vlr_subscr_matches_imsi_def)
    with scan assms(3) show thesis
      by (intro none) (simp_all add: vlr_subscr_find_by_imsi_def get_found_def)
  qed
qed

lemma imsi_uniqueD:
  "vlr_inv B v \<Longrightarrow> v_heap v a = Some s \<Longrightarrow> v_heap v b = Some t \<Longrightarrow> vs_imsi s = vs_imsi t \<Longrightarrow> vs_imsi t \<noteq> [] \<Longrightarrow> a = b"
  by (simp add: vlr_inv_def imsi_unique_def)

lemma find_list_imsi:
  assumes "vlr_inv B v" and "v_heap v a = Some s" and "vs_imsi s = imsi" and "imsi \<noteq> []"
  shows "find (imsi_at (v_heap v) imsi) (v_list v) = Some a"
proof (rule find_unique)
  show "a \<in> set (v_list v)" using assms(1,2) by (auto simp: vlr_inv_def)
  show "imsi_at (v_heap v) imsi b \<longleftrightarrow> b = a" for b
  proof
    assume "imsi_at (v_heap v) imsi b"
    then obtain t where "v_heap v b = Some t" "vs_imsi t = imsi" by (auto simp: imsi_at_def split: option.splits)
    then show "b = a" using imsi_uniqueD [OF assms(1) _ assms(2), of b t] assms(3,4) by simp
  qed (use assms(2,3) in \<open>simp add: imsi_at_def\<close>)
qed

lemma find_by_imsi_eq:
  assumes "hash_laws B" and "vlr_inv B v" and "imsi \<noteq> []"
  shows "vlr_subscr_find_by_imsi B imsi None v = Some (v, find (imsi_at (v_heap v) imsi) (v_list v))"
  using assms
proof (cases rule: find_by_imsi_cases [where use = None])
  case (found a s)
  then show ?thesis using find_list_imsi [OF assms(2) found(2,3) assms(3)] by (simp add: get_found_def)
next
  case none
  then have "find (imsi_at (v_heap v) imsi) (v_list v) = None"
    by (auto simp: find_None_iff imsi_at_def split: option.splits)
  with none show ?thesis by simp
qed

lemma find_by_imsi_is_unique:
  assumes "hash_laws B" and "vlr_inv B v" and "v_heap v a = Some s" and "vs_imsi s \<noteq> []"
  shows "vlr_subscr_find_by_imsi B (vs_imsi s) None v = Some (v, Some a)"
  using find_by_imsi_eq [OF assms(1,2,4)] find_list_imsi [OF assms(2,3) refl assms(4)] by simp

text \<open>
  C9: while the invariant holds, looking up an IMSI through the hash table gives exactly the record that a search
  of the whole subscriber list gives.
\<close>

theorem find_by_imsi_is_search:
  assumes "hash_laws B" and "vlr_inv B v" and "imsi \<noteq> []"
  shows "vlr_subscr_find_by_imsi B imsi None v = Some (v, find (imsi_at (v_heap v) imsi) (v_list v))"
  using assms by (rule find_by_imsi_eq)

subsection \<open>Changing identities\<close>

definition relinked :: "'h vlr_lib \<Rightarrow> (vlr_subscr \<Rightarrow> 32 word option) \<Rightarrow> nat \<Rightarrow> vlr_subscr \<Rightarrow> 'h \<Rightarrow> 'h" where
  "relinked B key a s t = (case key s of None \<Rightarrow> ht_del B a t | Some k \<Rightarrow> ht_add B k a (ht_del B a t))"

lemma hash_ok_relinked:
  "hash_laws B \<Longrightarrow> hash_ok B key h t \<Longrightarrow> hash_ok B key (h(a \<mapsto> s)) (relinked B key a s t)"
  by (auto simp: hash_ok_def hash_lawsD relinked_def split: option.splits)

lemma rehash_imsi_eq:
  "v_heap v a = Some s \<Longrightarrow>
    vlr_subscr_rehash_imsi B a v = Some (v\<lparr>v_by_imsi := relinked B (imsi_key B) a s (v_by_imsi v)\<rparr>)"
  by (simp add: vlr_subscr_rehash_imsi_def vsub_get_def relinked_def imsi_key_def Let_def)

lemma rehash_tmsi_eq:
  "v_heap v a = Some s \<Longrightarrow>
    vlr_subscr_rehash_tmsi B a v = Some (v\<lparr>v_by_tmsi := relinked B tmsi_key a s (v_by_tmsi v),
      v_by_tmsi_new := relinked B tmsi_new_key a s (v_by_tmsi_new v)\<rparr>)"
  by (simp add: vlr_subscr_rehash_tmsi_def vsub_get_def relinked_def tmsi_key_def tmsi_new_key_def Let_def)

lemma replace_inv:
  assumes "vlr_inv B v" and "v_heap v a = Some s" and "vsub_ok B s'" and "vs_lu_complete s' = vs_lu_complete s"
    and "\<And>b t. b \<noteq> a \<Longrightarrow> v_heap v b = Some t \<Longrightarrow> vs_imsi s' \<noteq> [] \<Longrightarrow> vs_imsi t \<noteq> vs_imsi s'"
    and "hash_ok B (imsi_key B) ((v_heap v)(a \<mapsto> s')) t1" and "hash_ok B tmsi_key ((v_heap v)(a \<mapsto> s')) t2"
    and "hash_ok B tmsi_new_key ((v_heap v)(a \<mapsto> s')) t3"
  shows "vlr_inv B ((put_sub a s' v)\<lparr>v_by_imsi := t1, v_by_tmsi := t2, v_by_tmsi_new := t3\<rparr>)"
proof -
  have "lu_set ((v_heap v)(a \<mapsto> s')) = lu_set (v_heap v)"
    using assms(2,4) unfolding lu_set_upd by (auto simp: lu_set_def)
  moreover have "imsi_unique (v_heap v)" using assms(1) by (simp add: vlr_inv_def)
  then have "imsi_unique ((v_heap v)(a \<mapsto> s'))"
    using assms(5) unfolding imsi_unique_def by (auto split: if_splits) metis
  moreover have "insert a (dom (v_heap v)) = dom (v_heap v)" using assms(2) by auto
  ultimately show ?thesis
    using assms(1,3,6-8) unfolding vlr_inv_def by simp
qed

subsection \<open>Operations on one record\<close>

text \<open>
  What an operation on the record at \<open>a\<close> leaves alone: every other record, and of the record itself all
  but the references.
\<close>

definition touched :: "nat \<Rightarrow> 'h vlr \<Rightarrow> 'h vlr \<Rightarrow> bool" where
  "touched a v v' \<longleftrightarrow> (\<forall>b. b \<noteq> a \<longrightarrow> v_heap v' b = v_heap v b)"

definition recounted :: "vlr_subscr \<Rightarrow> vlr_subscr \<Rightarrow> bool" where
  "recounted s s' \<longleftrightarrow> s' = s\<lparr>vs_uses := vs_uses s', vs_max_uses := vs_max_uses s'\<rparr>"

definition same_counts :: "'h vlr_lib \<Rightarrow> vlr_subscr \<Rightarrow> vlr_subscr \<Rightarrow> bool" where
  "same_counts B s s' \<longleftrightarrow> (\<forall>u. uc_by B u (vs_uses s') = uc_by B u (vs_uses s)) \<and> uc_total B (vs_uses s') = uc_total B (vs_uses s)"

lemma touched_trans: "touched a v v' \<Longrightarrow> touched a v' v'' \<Longrightarrow> touched a v v''"
  by (simp add: touched_def)

lemma touched_emit [simp]: "touched a (v_emit x v) v' = touched a v v'" "touched a v (v_emit x v') = touched a v v'"
  by (simp_all add: touched_def)

lemma recountedI: "recounted s (s\<lparr>vs_uses := es, vs_max_uses := m\<rparr>)"
  by (simp add: recounted_def)

lemma recounted_trans: "recounted s s' \<Longrightarrow> recounted s' s'' \<Longrightarrow> recounted s s''"
  by (cases s; cases s'; cases s'') (simp add: recounted_def)

lemma recountedD:
  assumes "recounted s s'"
  shows "vs_imsi s' = vs_imsi s" "vs_msisdn s' = vs_msisdn s" "vs_tmsi s' = vs_tmsi s" "vs_tmsi_new s' = vs_tmsi_new s"
    "vs_lu_complete s' = vs_lu_complete s" "vs_is_paging s' = vs_is_paging s" "vs_ts5 s' = vs_ts5 s" "vs_tuples s' = vs_tuples s"
    "vs_imsi_detached s' = vs_imsi_detached s" "vs_expire_lu s' = vs_expire_lu s" "vs_requests s' = vs_requests s"
    "vs_lu_fsm s' = vs_lu_fsm s" "vs_parq_fsm s' = vs_parq_fsm s" "vs_auth_fsm s' = vs_auth_fsm s"
  using assms by (cases s; cases s'; simp add: recounted_def)+

lemma recounted_keys: "recounted s s' \<Longrightarrow> same_keys s s'"
  by (simp add: same_keys_def recountedD)

lemma recounted_ok:
  assumes "vsub_ok B s" and "recounted s s'" and "\<And>u. 0 \<le> uc_by B u (vs_uses s')"
    and "\<And>u. u \<in> {VSUB_USE_ATTACHED, VSUB_USE_PAGING, VSUB_USE_SGS_PAGING_REQ} \<Longrightarrow> uc_by B u (vs_uses s) \<le> uc_by B u (vs_uses s')"
  shows "vsub_ok B s'"
  using assms(1,3) assms(4) [of VSUB_USE_ATTACHED] assms(4) [of VSUB_USE_PAGING] assms(4) [of VSUB_USE_SGS_PAGING_REQ]
  unfolding vsub_ok_def recountedD [OF assms(2)] by force

lemma vsub_ok_cong: "vsub_ok B s \<Longrightarrow> recounted s s' \<Longrightarrow> same_counts B s s' \<Longrightarrow> vsub_ok B s'"
  by (rule recounted_ok) (auto simp: same_counts_def vsub_ok_def)

lemma get_ok:
  assumes "use_laws B" and "vlr_inv B v" and "v_heap v a = Some s"
  obtains v' s' where "vlr_subscr_get B a u v = Some v'" "vlr_inv B v'" "touched a v v'" "v_heap v' a = Some s'" "recounted s s'"
    "vs_uses s' = uc_change B u 1 (vs_uses s)"
proof -
  note ok = vlr_inv_ok [OF assms(2,3)]
  from get_alive [OF assms(1,3) ok, of u] obtain m where
    g: "vlr_subscr_get B a u v = Some (put_sub a (s\<lparr>vs_uses := uc_change B u 1 (vs_uses s), vs_max_uses := m\<rparr>) v)" .
  have "vsub_ok B (s\<lparr>vs_uses := uc_change B u 1 (vs_uses s), vs_max_uses := m\<rparr>)"
    using ok by (rule recounted_ok [OF _ recountedI]) (use ok in \<open>simp_all add: vsub_ok_def use_lawsD [OF assms(1)]\<close>)
  from that [OF g put_sub_inv [OF assms(2,3) recounted_keys [OF recountedI] this]] recountedI show thesis
    by (simp add: touched_def)
qed

text \<open>A reference is dropped while the flags that need it are clear.\<close>

lemma put_ok:
  assumes "hash_laws B" and "use_laws B" and "vlr_inv B v" and "v_heap v a = Some s" and "1 \<le> uc_by B u (vs_uses s)"
    and "u = VSUB_USE_ATTACHED \<Longrightarrow> \<not> vs_lu_complete s" "u = VSUB_USE_PAGING \<Longrightarrow> \<not> vs_is_paging s"
    "u = VSUB_USE_SGS_PAGING_REQ \<Longrightarrow> \<not> vs_ts5 s"
  obtains (kept) v' s' where "2 \<le> uc_total B (vs_uses s)" "vlr_subscr_put B a u v = Some v'" "vlr_inv B v'" "touched a v v'"
      "v_heap v' a = Some s'" "recounted s s'" "vs_uses s' = uc_change B u (- 1) (vs_uses s)"
    | (gone) v' where "uc_total B (vs_uses s) = 1" "vlr_subscr_put B a u v = Some v'" "vlr_inv B v'" "touched a v v'" "v_heap v' a = None"
proof -
  note ok = vlr_inv_ok [OF assms(3,4)]
  have "1 \<le> uc_total B (vs_uses s)" using vsub_ok_total [OF assms(2) ok, of u] assms(5) by simp
  then consider "uc_total B (vs_uses s) = 1" | "2 \<le> uc_total B (vs_uses s)" by linarith
  then show thesis
  proof cases
    case 1
    from gone [OF 1 put_last [OF assms(4,2,5) 1] freed_inv [OF assms(1,3,4)]] show thesis
      by (simp add: touched_def freed_def)
  next
    case 2
    from put_alive [OF assms(4,2,5) 2] obtain m where
      g: "vlr_subscr_put B a u v = Some (put_sub a (s\<lparr>vs_uses := uc_change B u (- 1) (vs_uses s), vs_max_uses := m\<rparr>) v)" .
    have "vsub_ok B (s\<lparr>vs_uses := uc_change B u (- 1) (vs_uses s), vs_max_uses := m\<rparr>)"
      using ok assms(5-8) by (auto simp: vsub_ok_def use_lawsD [OF assms(2)])
    from kept [OF 2 g put_sub_inv [OF assms(3,4) recounted_keys [OF recountedI] this]] recountedI show thesis
      by (simp add: touched_def)
  qed
qed

text \<open>With another reference left the record stays.\<close>

lemma put_kept:
  assumes "hash_laws B" and "use_laws B" and "vlr_inv B v" and "v_heap v a = Some s" and "1 \<le> uc_by B u (vs_uses s)"
    and "u = VSUB_USE_ATTACHED \<Longrightarrow> \<not> vs_lu_complete s" "u = VSUB_USE_PAGING \<Longrightarrow> \<not> vs_is_paging s"
    "u = VSUB_USE_SGS_PAGING_REQ \<Longrightarrow> \<not> vs_ts5 s"
    and "w \<noteq> u" and "1 \<le> uc_by B w (vs_uses s)"
  obtains v' s' where "vlr_subscr_put B a u v = Some v'" "vlr_inv B v'" "touched a v v'"
      "v_heap v' a = Some s'" "recounted s s'" "vs_uses s' = uc_change B u (- 1) (vs_uses s)"
proof (rule put_ok [OF assms(1-8)])
  assume "uc_total B (vs_uses s) = 1"
  moreover have "uc_by B w (uc_change B u (- 1) (vs_uses s)) \<le> uc_total B (uc_change B u (- 1) (vs_uses s))"
    using vlr_inv_ok [OF assms(3,4)] assms(5)
    by (intro use_lawsD(5) [OF assms(2)]) (simp add: use_lawsD [OF assms(2)] vsub_ok_def)
  ultimately show thesis using assms(9,10) by (simp add: use_lawsD [OF assms(2)])
qed (use that in blast)

lemma cancel_ok:
  assumes "hash_laws B" and "use_laws B" and "vlr_inv B v" and "v_heap v a = Some s" and "w \<noteq> ''vlr_subscr_cancel_attach_fsm''"
    and "1 \<le> uc_by B w (vs_uses s)"
  obtains v' s' where "vlr_subscr_cancel_attach_fsm B a cause v = Some v'" "vlr_inv B v'" "touched a v v'"
    "v_heap v' a = Some s'" "recounted s s'" "same_counts B s s'"
proof -
  let ?u = "''vlr_subscr_cancel_attach_fsm''"
  from get_ok [OF assms(2,3,4), of ?u] obtain v1 s1 where g: "vlr_subscr_get B a ?u v = Some v1" "vlr_inv B v1" "touched a v v1"
      "v_heap v1 a = Some s1" "recounted s s1" "vs_uses s1 = uc_change B ?u 1 (vs_uses s)" .
  define v4 where "v4 = (let v2 = (if vs_lu_fsm s1 then v_emit (CALL_LU_CANCEL a cause) v1 else v1);
     v3 = (if vs_parq_fsm s1 then v_emit (CALL_PARQ_CANCEL a cause) v2 else v2)
     in (if vs_auth_fsm s1 then v_emit (CALL_AUTH_TERM a) v3 else v3))"
  have v4: "vlr_inv B v4" "v_heap v4 = v_heap v1" using g(2) by (simp_all add: v4_def Let_def)
  have c: "vlr_subscr_cancel_attach_fsm B a cause v = vlr_subscr_put B a ?u v4"
    using g(1,4) by (simp add: vlr_subscr_cancel_attach_fsm_def vsub_get_def v4_def Let_def)
  have s1: "v_heap v4 a = Some s1" and u1: "1 \<le> uc_by B ?u (vs_uses s1)" and w1: "1 \<le> uc_by B w (vs_uses s1)"
    using g(4,6) v4(2) vlr_inv_ok [OF assms(3,4)] assms(5,6) by (simp_all add: use_lawsD [OF assms(2)] vsub_ok_def)
  show thesis
  proof (rule put_kept [OF assms(1,2) v4(1) s1 u1 _ _ _ assms(5) w1])
    fix v' s' assume p: "vlr_subscr_put B a ?u v4 = Some v'" "vlr_inv B v'" "touched a v4 v'"
      "v_heap v' a = Some s'" "recounted s1 s'" "vs_uses s' = uc_change B ?u (- 1) (vs_uses s1)"
    have "touched a v v'" using g(3) p(3) v4(2) by (simp add: touched_def)
    moreover have "recounted s s'" using g(5) p(5) by (rule recounted_trans)
    moreover have "same_counts B s s'" using g(6) p(6) by (simp add: same_counts_def use_lawsD [OF assms(2)])
    ultimately show thesis using that c p by simp
  qed simp_all
qed

lemma unregister_ok:
  assumes "vlr_inv B v" and "v_heap v a = Some s" and "vs_lu_complete s"
  obtains v' where "vlr_subscr_set_lu_complete a False v = Some v'" "vlr_inv B v'" "touched a v v'"
    "v_heap v' a = Some (s\<lparr>vs_lu_complete := False\<rparr>)"
proof -
  let ?s = "s\<lparr>vs_lu_complete := False\<rparr>" and ?n = "v_lu_complete v - 1"
  have eq: "vlr_subscr_set_lu_complete a False v = Some ((put_sub a ?s v)\<lparr>v_lu_complete := ?n\<rparr>)"
    using assms(2,3) by (simp add: vlr_subscr_set_lu_complete_def vsub_get_def vsub_upd_eq)
  have "a \<in> lu_set (v_heap v)" using assms(2,3) by (simp add: lu_set_def)
  then have "card (lu_set ((v_heap v)(a \<mapsto> ?s))) = card (lu_set (v_heap v)) - 1"
    using finite_lu_set [OF assms(1)] by (simp add: lu_set_upd)
  moreover have "vsub_ok B ?s" using vlr_inv_ok [OF assms(1,2)] by (simp add: vsub_ok_def)
  moreover have "insert a (dom (v_heap v)) = dom (v_heap v)" using assms(2) by auto
  moreover have "imsi_unique (v_heap v)" using assms(1) by (simp add: vlr_inv_def)
  then have "imsi_unique ((v_heap v)(a \<mapsto> ?s))" using assms(2) unfolding imsi_unique_def by auto
  moreover have "hash_ok B key (v_heap v) t \<Longrightarrow> key ?s = key s \<Longrightarrow> hash_ok B key ((v_heap v)(a \<mapsto> ?s)) t" for key t
    using hash_ok_upd [of B key "v_heap v" t a s ?s] assms(2) by simp
  ultimately have "vlr_inv B ((put_sub a ?s v)\<lparr>v_lu_complete := ?n\<rparr>)"
    using assms(1) unfolding vlr_inv_def by (simp add: imsi_key_def tmsi_key_def tmsi_new_key_def)
  from that [OF eq this] show thesis by (simp add: touched_def)
qed

lemma expire_ok:
  assumes "hash_laws B" and "use_laws B" and "vlr_inv B v" and "v_heap v a = Some s"
    and "w \<noteq> VSUB_USE_ATTACHED" and "1 \<le> uc_by B w (vs_uses s)"
  obtains v' s' where "vlr_subscr_expire B has_forget a v = Some (v', vs_lu_complete s)" "vlr_inv B v'" "touched a v v'"
    "v_heap v' a = Some s'" "recounted (s\<lparr>vs_lu_complete := False\<rparr>) s'"
    "\<And>u. u \<noteq> VSUB_USE_ATTACHED \<Longrightarrow> uc_by B u (vs_uses s') = uc_by B u (vs_uses s)"
proof (cases "vs_lu_complete s")
  case False
  then have "recounted (s\<lparr>vs_lu_complete := False\<rparr>) s" by (cases s) (simp add: recounted_def)
  with False show thesis
    using that [of v s] assms(3,4) by (simp add: vlr_subscr_expire_def vsub_get_def touched_def)
next
  case True
  define v1 where "v1 = (if has_forget \<and> vs_imsi s \<noteq> [] then v_emit (OPS_SGS_FORGET (vs_imsi s)) v else v)"
  have v1: "vlr_inv B v1" "v_heap v1 = v_heap v" using assms(3) by (simp_all add: v1_def)
  have s1: "v_heap v1 a = Some s" using v1(2) assms(4) by simp
  from unregister_ok [OF v1(1) s1 True] obtain v2 where
    v2: "vlr_subscr_set_lu_complete a False v1 = Some v2" "vlr_inv B v2" "touched a v1 v2"
      "v_heap v2 a = Some (s\<lparr>vs_lu_complete := False\<rparr>)" .
  have att: "1 \<le> uc_by B VSUB_USE_ATTACHED (vs_uses (s\<lparr>vs_lu_complete := False\<rparr>))"
    using vlr_inv_ok [OF assms(3,4)] True by (simp add: vsub_ok_def)
  have w: "1 \<le> uc_by B w (vs_uses (s\<lparr>vs_lu_complete := False\<rparr>))" using assms(6) by simp
  show thesis
  proof (rule put_kept [OF assms(1,2) v2(2,4) att _ _ _ assms(5) w])
    fix v' s'
    assume p: "vlr_subscr_put B a VSUB_USE_ATTACHED v2 = Some v'" "vlr_inv B v'" "touched a v2 v'" "v_heap v' a = Some s'"
      "recounted (s\<lparr>vs_lu_complete := False\<rparr>) s'" "vs_uses s' = uc_change B VSUB_USE_ATTACHED (- 1) (vs_uses (s\<lparr>vs_lu_complete := False\<rparr>))"
    have e: "vlr_subscr_expire B has_forget a v = Some (v', vs_lu_complete s)"
      using True assms(4) v2(1) p(1) unfolding v1_def by (simp add: vlr_subscr_expire_def vsub_get_def Let_def)
    have "touched a v v'" using v2(3) p(3) v1(2) by (simp add: touched_def)
    from that [OF e p(2) this p(4,5)] p(6) show thesis by (simp add: use_lawsD [OF assms(2)])
  qed simp_all
qed

subsection \<open>Merging\<close>

lemma dedup_tuples_length [simp]: "length (dedup_tuples ex ts) = length ts"
proof -
  have "length (foldl (\<lambda>ts t. if key_seq t = VLR_KEY_SEQ_INVAL then ts else dedup_fill ts t) ts ex) = length ts"
    by (induction ex arbitrary: ts) (simp_all add: dedup_fill_def)
  then show ?thesis by (simp add: dedup_tuples_def)
qed

text \<open>Effect of an update that leaves keys and references alone.\<close>

lemma upd_ok:
  assumes "vlr_inv B v" and "v_heap v a = Some s" and "same_keys s (f s)" and "vsub_ok B (f s)"
  obtains v' where "vsub_upd a f v = Some v'" "vlr_inv B v'" "touched a v v'" "v_heap v' a = Some (f s)"
  using that [OF vsub_upd_eq [OF assms(2)] put_sub_inv [OF assms]] by (simp add: touched_def)

lemma join_start:
  assumes "use_laws B" and "vlr_inv B v" and "v_heap v a = Some k" and "same_keys s k"
  obtains v' s' where "(if \<not> vs_is_paging k \<and> vs_requests k \<noteq> [] then do {
                v' \<leftarrow> vlr_subscr_get B a VSUB_USE_PAGING v; vsub_upd a (\<lambda>s. s\<lparr>vs_is_paging := True\<rparr>) v' }
              else Some v) = Some v'" "vlr_inv B v'" "touched a v v'" "v_heap v' a = Some s'" "same_keys s s'"
proof (cases "\<not> vs_is_paging k \<and> vs_requests k \<noteq> []")
  case False
  with that [of v k] assms show thesis by (simp add: touched_def)
next
  case True
  from get_ok [OF assms(1,2,3), of VSUB_USE_PAGING] obtain v1 s1 where g: "vlr_subscr_get B a VSUB_USE_PAGING v = Some v1" "vlr_inv B v1"
      "touched a v v1" "v_heap v1 a = Some s1" "recounted k s1" "vs_uses s1 = uc_change B VSUB_USE_PAGING 1 (vs_uses k)" .
  have "vsub_ok B (s1\<lparr>vs_is_paging := True\<rparr>)"
    using vlr_inv_ok [OF g(2,4)] vlr_inv_ok [OF assms(2,3)] g(6) by (simp add: vsub_ok_def use_lawsD [OF assms(1)])
  moreover have "same_keys s1 (s1\<lparr>vs_is_paging := True\<rparr>)" by (simp add: same_keys_def)
  ultimately obtain v2 where u: "vsub_upd a (\<lambda>s. s\<lparr>vs_is_paging := True\<rparr>) v1 = Some v2" "vlr_inv B v2" "touched a v1 v2"
      "v_heap v2 a = Some (s1\<lparr>vs_is_paging := True\<rparr>)"
    using upd_ok [OF g(2,4), of "\<lambda>s. s\<lparr>vs_is_paging := True\<rparr>"] by blast
  have "same_keys s (s1\<lparr>vs_is_paging := True\<rparr>)" using recounted_keys [OF g(5)] assms(4) by (simp add: same_keys_def)
  from that [OF _ u(2) touched_trans [OF g(3) u(3)] u(4) this] True g(1) u(1) show thesis by simp
qed

lemma join_ok:
  assumes laws: "hash_laws B" "use_laws B" and inv: "vlr_inv B v" and ne: "ex \<noteq> a"
    and a: "v_heap v a = Some s" and ex: "v_heap v ex = Some e" and w: "w \<noteq> VSUB_USE_PAGING" "1 \<le> uc_by B w (vs_uses e)"
  obtains v' s' e' where "paging_request_join_vsub B a ex v = Some v'" "vlr_inv B v'" "v_heap v' a = Some s'" "v_heap v' ex = Some e'"
    "same_keys s s'" "same_keys e e'" "1 \<le> uc_by B w (vs_uses e')" "\<And>b. b \<noteq> a \<Longrightarrow> b \<noteq> ex \<Longrightarrow> v_heap v' b = v_heap v b"
proof (cases "vs_is_paging e")
  case False
  with that [of v s e] inv a ex w(2) show thesis by (simp add: paging_request_join_vsub_def vsub_get_def same_keys_def)
next
  case True
  note oke = vlr_inv_ok [OF inv ex] and oks = vlr_inv_ok [OF inv a]
  from upd_ok [OF inv ex, of "\<lambda>s. s\<lparr>vs_requests := []\<rparr>"] oke obtain v1 where
    v1: "vsub_upd ex (\<lambda>s. s\<lparr>vs_requests := []\<rparr>) v = Some v1" "vlr_inv B v1" "touched ex v v1" "v_heap v1 ex = Some (e\<lparr>vs_requests := []\<rparr>)"
    by (auto simp: same_keys_def vsub_ok_def)
  have a1: "v_heap v1 a = Some s" using v1(3) a ne by (simp add: touched_def)
  let ?k = "s\<lparr>vs_requests := vs_requests s @ vs_requests e\<rparr>"
  from upd_ok [OF v1(2) a1, of "\<lambda>s. s\<lparr>vs_requests := vs_requests s @ vs_requests e\<rparr>"] oks obtain v2 where
    v2: "vsub_upd a (\<lambda>s. s\<lparr>vs_requests := vs_requests s @ vs_requests e\<rparr>) v1 = Some v2" "vlr_inv B v2" "touched a v1 v2" "v_heap v2 a = Some ?k"
    by (auto simp: same_keys_def vsub_ok_def)
  obtain v3 s3 where v3: "(if \<not> vs_is_paging ?k \<and> vs_requests ?k \<noteq> [] then do {
                v' \<leftarrow> vlr_subscr_get B a VSUB_USE_PAGING v2; vsub_upd a (\<lambda>s. s\<lparr>vs_is_paging := True\<rparr>) v' }
              else Some v2) = Some v3" "vlr_inv B v3" "touched a v2 v3" "v_heap v3 a = Some s3" "same_keys s s3"
    by (rule join_start [OF laws(2) v2(2,4)]) (simp add: same_keys_def)
  let ?d = "e\<lparr>vs_requests := []\<rparr>"
  have e3: "v_heap v3 ex = Some ?d" using v1(4) v2(3) v3(3) ne by (simp add: touched_def)
  let ?f = "\<lambda>s. s\<lparr>vs_is_paging := False, vs_paging_timer := False\<rparr>"
  from upd_ok [OF v3(2) e3, of ?f] oke obtain v4 where
    v4: "vsub_upd ex ?f v3 = Some v4" "vlr_inv B v4" "touched ex v3 v4" "v_heap v4 ex = Some (?f ?d)"
    by (auto simp: same_keys_def vsub_ok_def)
  have pg: "1 \<le> uc_by B VSUB_USE_PAGING (vs_uses (?f ?d))" using oke True by (simp add: vsub_ok_def)
  have w4: "1 \<le> uc_by B w (vs_uses (?f ?d))" using w(2) by simp
  show thesis
  proof (rule put_kept [OF laws v4(2,4) pg _ _ _ w(1) w4])
    fix v' e' assume p: "vlr_subscr_put B ex VSUB_USE_PAGING v4 = Some v'" "vlr_inv B v'" "touched ex v4 v'" "v_heap v' ex = Some e'"
      "recounted (?f ?d) e'" "vs_uses e' = uc_change B VSUB_USE_PAGING (- 1) (vs_uses (?f ?d))"
    have eq: "paging_request_join_vsub B a ex v = Some v'"
      using True ex v1(1) v2(1,4) v3(1) v4(1) p(1) by (simp add: paging_request_join_vsub_def vsub_get_def)
    have a': "v_heap v' a = Some s3" using v3(4) v4(3) p(3) ne by (simp add: touched_def)
    have ke: "same_keys e e'" using recounted_keys [OF p(5)] by (simp add: same_keys_def)
    have we: "1 \<le> uc_by B w (vs_uses e')" using p(6) w by (simp add: use_lawsD [OF laws(2)])
    show thesis
      by (rule that [OF eq p(2) a' p(4) v3(5) ke we])
        (use v1(3) v2(3) v3(3) v4(3) p(3) in \<open>simp add: touched_def\<close>)
  qed simp_all
qed

text \<open>Dropping all identities of a record and relinking it.\<close>

lemma drop_identity_ok:
  assumes "hash_laws B" and "vlr_inv B v" and "v_heap v a = Some s"
  obtains v1 v2 v3 where "vsub_upd a dedup_drop_identity v = Some v1" "vlr_subscr_rehash_imsi B a v1 = Some v2"
    "vlr_subscr_rehash_tmsi B a v2 = Some v3" "vlr_inv B v3" "touched a v v3" "v_heap v3 a = Some (dedup_drop_identity s)"
proof -
  let ?s = "dedup_drop_identity s"
  define v1 where "v1 = put_sub a ?s v"
  define v2 where "v2 = v1\<lparr>v_by_imsi := relinked B (imsi_key B) a ?s (v_by_imsi v)\<rparr>"
  define v3 where "v3 = v2\<lparr>v_by_tmsi := relinked B tmsi_key a ?s (v_by_tmsi v),
    v_by_tmsi_new := relinked B tmsi_new_key a ?s (v_by_tmsi_new v)\<rparr>"
  have e1: "vsub_upd a dedup_drop_identity v = Some v1" using vsub_upd_eq [OF assms(3)] by (simp add: v1_def)
  have e2: "vlr_subscr_rehash_imsi B a v1 = Some v2" using rehash_imsi_eq [of v1 a ?s] by (simp add: v1_def v2_def)
  have e3: "vlr_subscr_rehash_tmsi B a v2 = Some v3" using rehash_tmsi_eq [of v2 a ?s] by (simp add: v1_def v2_def v3_def)
  have "vsub_ok B ?s" using vlr_inv_ok [OF assms(2,3)] by (simp add: vsub_ok_def dedup_drop_identity_def)
  moreover have "vs_imsi ?s = []" "vs_lu_complete ?s = vs_lu_complete s" by (simp_all add: dedup_drop_identity_def)
  ultimately have "vlr_inv B ((put_sub a ?s v)\<lparr>v_by_imsi := relinked B (imsi_key B) a ?s (v_by_imsi v),
      v_by_tmsi := relinked B tmsi_key a ?s (v_by_tmsi v), v_by_tmsi_new := relinked B tmsi_new_key a ?s (v_by_tmsi_new v)\<rparr>)"
    using assms(2) by (intro replace_inv [OF assms(2,3)] hash_ok_relinked [OF assms(1)]) (simp_all add: vlr_inv_def)
  then have "vlr_inv B v3" by (simp add: v3_def v2_def v1_def)
  from that [OF e1 e2 e3 this] show thesis by (simp add: v3_def v2_def v1_def touched_def)
qed

lemma take_over_ok:
  assumes "vlr_inv B v" and "v_heap v a = Some s"
  obtains v' where "vsub_upd a (dedup_take_over e) v = Some v'" "vlr_inv B v'" "touched a v v'" "v_heap v' a = Some (dedup_take_over e s)"
proof (rule upd_ok [OF assms])
  show "same_keys s (dedup_take_over e s)" by (simp add: same_keys_def dedup_take_over_def)
  show "vsub_ok B (dedup_take_over e s)"
    using vlr_inv_ok [OF assms] by (simp add: vsub_ok_def dedup_take_over_def)
qed (rule that)

text \<open>
  The second half of the merge: the duplicate loses its identities, its machines and its registration, and
  goes with its last reference.
\<close>

lemma retire_ok:
  assumes laws: "hash_laws B" "use_laws B" and inv: "vlr_inv B v" and ex: "v_heap v ex = Some e"
  obtains v3 v5 v6 v7 v8 e8 v9 v' where "vlr_subscr_get B ex ''dedup'' v = Some v3"
    "vsub_upd ex dedup_drop_identity (if has_inval then v_emit x v3 else v3) = Some v5"
    "vlr_subscr_rehash_imsi B ex v5 = Some v6" "vlr_subscr_rehash_tmsi B ex v6 = Some v7"
    "vlr_subscr_cancel_attach_fsm B ex cause v7 = Some v8" "vsub_get ex v8 = Some e8"
    "(if vs_lu_complete e8 then map_option fst (vlr_subscr_expire B has_forget ex v8) else Some v8) = Some v9"
    "vlr_subscr_put B ex ''dedup'' v9 = Some v'" "vlr_inv B v'" "touched ex v v'" "\<And>e'. v_heap v' ex = Some e' \<Longrightarrow> vs_imsi e' = []"
proof -
  from get_ok [OF laws(2) inv ex, of "''dedup''"] obtain v3 e3 where v3: "vlr_subscr_get B ex ''dedup'' v = Some v3" "vlr_inv B v3"
      "touched ex v v3" "v_heap v3 ex = Some e3" "recounted e e3" "vs_uses e3 = uc_change B ''dedup'' 1 (vs_uses e)" .
  define v4 where "v4 = (if has_inval then v_emit x v3 else v3)"
  have v4: "vlr_inv B v4" "v_heap v4 = v_heap v3" using v3(2) by (simp_all add: v4_def)
  have e4: "v_heap v4 ex = Some e3" using v4(2) v3(4) by simp
  from drop_identity_ok [OF laws(1) v4(1) e4] obtain v5 v6 v7 where v7: "vsub_upd ex dedup_drop_identity v4 = Some v5"
    "vlr_subscr_rehash_imsi B ex v5 = Some v6" "vlr_subscr_rehash_tmsi B ex v6 = Some v7" "vlr_inv B v7" "touched ex v4 v7"
    "v_heap v7 ex = Some (dedup_drop_identity e3)" .
  have "0 \<le> uc_by B ''dedup'' (vs_uses e)" using vlr_inv_ok [OF inv ex] by (simp add: vsub_ok_def)
  then have d: "1 \<le> uc_by B ''dedup'' (vs_uses (dedup_drop_identity e3))"
    using v3(6) by (simp add: dedup_drop_identity_def use_lawsD [OF laws(2)])
  have ne: "''dedup'' \<noteq> ''vlr_subscr_cancel_attach_fsm''" "''dedup'' \<noteq> VSUB_USE_ATTACHED" by simp_all
  from cancel_ok [OF laws v7(4,6) ne(1) d, of cause] obtain v8 e8 where v8: "vlr_subscr_cancel_attach_fsm B ex cause v7 = Some v8"
    "vlr_inv B v8" "touched ex v7 v8" "v_heap v8 ex = Some e8" "recounted (dedup_drop_identity e3) e8"
    "same_counts B (dedup_drop_identity e3) e8" .
  have d8: "1 \<le> uc_by B ''dedup'' (vs_uses e8)" using d v8(6) by (simp add: same_counts_def)
  have i8: "vs_imsi e8 = []" using recountedD(1) [OF v8(5)] by (simp add: dedup_drop_identity_def)
  from expire_ok [OF laws v8(2,4) ne(2) d8, of has_forget] obtain va ea where va: "vlr_subscr_expire B has_forget ex v8 = Some (va, vs_lu_complete e8)"
    "vlr_inv B va" "touched ex v8 va" "v_heap va ex = Some ea" "recounted (e8\<lparr>vs_lu_complete := False\<rparr>) ea"
    "\<And>u. u \<noteq> VSUB_USE_ATTACHED \<Longrightarrow> uc_by B u (vs_uses ea) = uc_by B u (vs_uses e8)" by blast
  have da: "1 \<le> uc_by B ''dedup'' (vs_uses ea)" using va(6) [of "''dedup''"] d8 by simp
  have va': "(if vs_lu_complete e8 then map_option fst (vlr_subscr_expire B has_forget ex v8) else Some v8) = Some va"
    using va(1) v8(4) by (auto simp: vlr_subscr_expire_def vsub_get_def)
  have ia: "vs_imsi ea = []" using recountedD(1) [OF va(5)] i8 by simp
  have t: "touched ex v va" using v3(3) v4(2) v7(5) v8(3) va(3) by (simp add: touched_def)
  have g8: "vsub_get ex v8 = Some e8" using v8(4) by (simp add: vsub_get_def)
  note step = that [OF v3(1) v7(1) [unfolded v4_def] v7(2,3) v8(1) g8 va']
  show thesis
  proof (rule put_ok [OF laws va(2,4) da])
    fix v' s' assume "vlr_subscr_put B ex ''dedup'' va = Some v'" "vlr_inv B v'" "touched ex va v'" "v_heap v' ex = Some s'" "recounted ea s'"
    from step [OF this(1,2) touched_trans [OF t this(3)]] this(4) recountedD(1) [OF this(5)] ia show thesis by simp
  next
    fix v' assume "vlr_subscr_put B ex ''dedup'' va = Some v'" "vlr_inv B v'" "touched ex va v'" "v_heap v' ex = None"
    from step [OF this(1,2) touched_trans [OF t this(3)]] this(4) show thesis by simp
  qed simp_all
qed

lemma dedup_ok:
  assumes laws: "hash_laws B" "use_laws B" and inv: "vlr_inv B v" and ne: "ex \<noteq> a"
    and a: "v_heap v a = Some s" and ex: "v_heap v ex = Some e" and w: "w \<noteq> VSUB_USE_PAGING" "1 \<le> uc_by B w (vs_uses e)"
  obtains v' s' where "dedup_vsub B has_inval has_forget ex a v = Some v'" "vlr_inv B v'" "v_heap v' a = Some s'" "same_keys s s'"
    "\<And>b. b \<noteq> a \<Longrightarrow> b \<noteq> ex \<Longrightarrow> v_heap v' b = v_heap v b" "\<And>e'. v_heap v' ex = Some e' \<Longrightarrow> vs_imsi e' = []"
proof -
  obtain v1 s1 e1 where v1: "paging_request_join_vsub B a ex v = Some v1" "vlr_inv B v1" "v_heap v1 a = Some s1"
    "v_heap v1 ex = Some e1" "same_keys s s1" "\<And>b. b \<noteq> a \<Longrightarrow> b \<noteq> ex \<Longrightarrow> v_heap v1 b = v_heap v b"
    by (rule join_ok [OF assms]) blast
  from take_over_ok [OF v1(2,3), of e1] obtain v2 where v2: "vsub_upd a (dedup_take_over e1) v1 = Some v2" "vlr_inv B v2" "touched a v1 v2"
    "v_heap v2 a = Some (dedup_take_over e1 s1)" .
  have ex2: "v_heap v2 ex = Some e1" using v1(4) v2(3) ne by (simp add: touched_def)
  have k: "same_keys s (dedup_take_over e1 s1)" using v1(5) by (simp add: same_keys_def dedup_take_over_def)
  have e: "vsub_get ex v1 = Some e1" using v1(4) by (simp add: vsub_get_def)
  show thesis
  proof (rule retire_ok [OF laws v2(2) ex2, of has_inval "OPS_SUBSCR_INVAL ex VLR_INVAL_REASON_DUPLICATE_SUBSCR"
        GSM48_REJECT_CONGESTION has_forget])
    fix v3 v5 v6 v7 v8 e8 v9 v'
    assume r: "vlr_subscr_get B ex ''dedup'' v2 = Some v3"
      "vsub_upd ex dedup_drop_identity (if has_inval then v_emit (OPS_SUBSCR_INVAL ex VLR_INVAL_REASON_DUPLICATE_SUBSCR) v3 else v3) = Some v5"
      "vlr_subscr_rehash_imsi B ex v5 = Some v6" "vlr_subscr_rehash_tmsi B ex v6 = Some v7"
      "vlr_subscr_cancel_attach_fsm B ex GSM48_REJECT_CONGESTION v7 = Some v8" "vsub_get ex v8 = Some e8"
      "(if vs_lu_complete e8 then map_option fst (vlr_subscr_expire B has_forget ex v8) else Some v8) = Some v9"
      "vlr_subscr_put B ex ''dedup'' v9 = Some v'"
    assume o: "vlr_inv B v'" "touched ex v2 v'" "\<And>e'. v_heap v' ex = Some e' \<Longrightarrow> vs_imsi e' = []"
    have eq: "dedup_vsub B has_inval has_forget ex a v = Some v'"
      by (simp only: dedup_vsub_def v1(1) e v2(1) r Let_def bind.bind_lunit)
    show thesis
      by (rule that [OF eq o(1) _ k _ o(3)]) (use o(2) v2(3,4) v1(6) ne in \<open>simp_all add: touched_def\<close>)
  qed
qed

subsection \<open>Setting an IMSI\<close>

lemma assign_imsi_ok:
  assumes "hash_laws B" and inv: "vlr_inv B v" and a: "v_heap v a = Some s" and "length imsi < IMSI_SIZE"
    and "\<And>b t. b \<noteq> a \<Longrightarrow> v_heap v b = Some t \<Longrightarrow> vs_imsi t \<noteq> imsi"
  obtains v1 v2 v3 where "vsub_upd a (\<lambda>s. s\<lparr>vs_imsi := strlcpy IMSI_SIZE imsi\<rparr>) v = Some v1"
    "vsub_upd a (\<lambda>s. s\<lparr>vs_id := atoll (vs_imsi s)\<rparr>) v1 = Some v2" "vlr_subscr_rehash_imsi B a v2 = Some v3" "vlr_inv B v3"
    "touched a v v3" "v_heap v3 a = Some (s\<lparr>vs_imsi := imsi, vs_id := atoll imsi\<rparr>)" "v_pag_inflight v3 = v_pag_inflight v"
proof -
  have cpy: "strlcpy IMSI_SIZE imsi = imsi" using assms(4) by (simp add: strlcpy_def)
  let ?s = "s\<lparr>vs_imsi := imsi, vs_id := atoll imsi\<rparr>"
  have e1: "vsub_upd a (\<lambda>s. s\<lparr>vs_imsi := strlcpy IMSI_SIZE imsi\<rparr>) v = Some (put_sub a (s\<lparr>vs_imsi := imsi\<rparr>) v)"
    using vsub_upd_eq [OF a] by (simp add: cpy)
  have e2: "vsub_upd a (\<lambda>s. s\<lparr>vs_id := atoll (vs_imsi s)\<rparr>) (put_sub a (s\<lparr>vs_imsi := imsi\<rparr>) v) = Some (put_sub a ?s v)"
    using vsub_upd_eq [of "put_sub a (s\<lparr>vs_imsi := imsi\<rparr>) v" a] by simp
  have e3: "vlr_subscr_rehash_imsi B a (put_sub a ?s v) = Some ((put_sub a ?s v)\<lparr>v_by_imsi := relinked B (imsi_key B) a ?s (v_by_imsi v)\<rparr>)"
    using rehash_imsi_eq [of "put_sub a ?s v" a ?s] by simp
  have ok: "vsub_ok B ?s" using vlr_inv_ok [OF inv a] by (simp add: vsub_ok_def)
  have tabs: "hash_ok B (imsi_key B) ((v_heap v)(a \<mapsto> ?s)) (relinked B (imsi_key B) a ?s (v_by_imsi v))"
    "hash_ok B tmsi_key ((v_heap v)(a \<mapsto> ?s)) (v_by_tmsi v)" "hash_ok B tmsi_new_key ((v_heap v)(a \<mapsto> ?s)) (v_by_tmsi_new v)"
    using inv a by (auto simp: vlr_inv_def tmsi_key_def tmsi_new_key_def intro!: hash_ok_relinked [OF assms(1)] hash_ok_upd)
  have "vlr_inv B ((put_sub a ?s v)\<lparr>v_by_imsi := relinked B (imsi_key B) a ?s (v_by_imsi v), v_by_tmsi := v_by_tmsi v,
      v_by_tmsi_new := v_by_tmsi_new v\<rparr>)"
    by (rule replace_inv [OF inv a ok _ _ tabs]) (use assms(5) in simp_all)
  then have "vlr_inv B ((put_sub a ?s v)\<lparr>v_by_imsi := relinked B (imsi_key B) a ?s (v_by_imsi v)\<rparr>)"
    by (simp add: put_sub_def)
  from that [OF e1 e2 e3 this] show thesis by (simp add: touched_def) (simp add: put_sub_def)
qed

text \<open>The first half of \<open>vlr_subscr_set_imsi()\<close>, up to the merge.\<close>

definition set_imsi_merge :: "'h vlr_lib \<Rightarrow> bool \<Rightarrow> bool \<Rightarrow> bool \<Rightarrow> nat \<Rightarrow> string \<Rightarrow> 'h vlr \<Rightarrow> 'h vlr option" where
  "set_imsi_merge B silent has_inval has_forget a imsi v = do {
       (v1, ex1) \<leftarrow> vlr_subscr_find_by_imsi B imsi None v;
       let v2 = (if silent then v_emit (CALL_SILENT_CALL_STOP ex1) v1 else v1);
       (v3, ex) \<leftarrow> vlr_subscr_find_by_imsi B imsi None v2;
       (case ex of None \<Rightarrow> Some v3 | Some e \<Rightarrow> dedup_vsub B has_inval has_forget e a v3) }"

lemma bind_case_prod: "Option.bind (case p of (x, y) \<Rightarrow> f x y) g = (case p of (x, y) \<Rightarrow> Option.bind (f x y) g)"
  by (cases p) simp

lemma set_imsi_split:
  "vlr_subscr_set_imsi B atoll silent has_inval has_forget a imsi v = do {
     s \<leftarrow> vsub_get a v;
     if vs_imsi s = imsi then Some v
     else do {
       v4 \<leftarrow> set_imsi_merge B silent has_inval has_forget a imsi v;
       v5 \<leftarrow> vsub_upd a (\<lambda>s. s\<lparr>vs_imsi := strlcpy IMSI_SIZE imsi\<rparr>) v4;
       v6 \<leftarrow> vsub_upd a (\<lambda>s. s\<lparr>vs_id := atoll (vs_imsi s)\<rparr>) v5;
       vlr_subscr_rehash_imsi B a v6 } }"
  by (cases "vsub_get a v") (simp_all add: vlr_subscr_set_imsi_def set_imsi_merge_def Let_def bind_case_prod)

lemma merge_existing:
  assumes laws: "hash_laws B" "use_laws B" and inv: "vlr_inv B v" and a: "v_heap v a = Some s" and imsi: "imsi \<noteq> []" "length imsi < IMSI_SIZE"
    and ne: "vs_imsi s \<noteq> imsi"
    and held: "\<forall>b t. v_heap v b = Some t \<longrightarrow> vs_imsi t = imsi \<longrightarrow> (\<exists>w. w \<noteq> VSUB_USE_PAGING \<and> 1 \<le> uc_by B w (vs_uses t))"
  shows "\<exists>v' s'. set_imsi_merge B silent has_inval has_forget a imsi v = Some v' \<and> vlr_inv B v' \<and> v_heap v' a = Some s'
    \<and> (\<forall>b t. b \<noteq> a \<longrightarrow> v_heap v' b = Some t \<longrightarrow> vs_imsi t \<noteq> imsi)
    \<and> (\<forall>b. b \<noteq> a \<longrightarrow> \<not> imsi_at (v_heap v) imsi b \<longrightarrow> v_heap v' b = v_heap v b)"
proof -
  obtain x where f1: "vlr_subscr_find_by_imsi B imsi None v = Some (v, x)"
    by (rule find_by_imsi_cases [OF laws(1) inv imsi(1), of None]) (auto simp: get_found_def)
  define v2 where "v2 = (if silent then v_emit (CALL_SILENT_CALL_STOP x) v else v)"
  have v2: "vlr_inv B v2" "v_heap v2 = v_heap v" using inv by (simp_all add: v2_def)
  have eq: "set_imsi_merge B silent has_inval has_forget a imsi v =
    (do { (v3, ex) \<leftarrow> vlr_subscr_find_by_imsi B imsi None v2; (case ex of None \<Rightarrow> Some v3 | Some e \<Rightarrow> dedup_vsub B has_inval has_forget e a v3) })"
    by (simp add: set_imsi_merge_def f1 v2_def Let_def)
  show ?thesis
    using laws(1) v2(1) imsi(1)
  proof (cases rule: find_by_imsi_cases [where use = None])
    case none
    then show ?thesis using v2 a by (simp add: eq)
  next
    case (found e t)
    have "e \<noteq> a" using found(2,3) ne a v2(2) by auto
    moreover obtain w where "w \<noteq> VSUB_USE_PAGING" "1 \<le> uc_by B w (vs_uses t)" using held found(2,3) v2(2) by auto
    moreover have a2: "v_heap v2 a = Some s" using a v2(2) by simp
    ultimately obtain v' s' where d: "dedup_vsub B has_inval has_forget e a v2 = Some v'" "vlr_inv B v'" "v_heap v' a = Some s'"
      "\<And>b. b \<noteq> a \<Longrightarrow> b \<noteq> e \<Longrightarrow> v_heap v' b = v_heap v2 b" "\<And>e'. v_heap v' e = Some e' \<Longrightarrow> vs_imsi e' = []"
      using dedup_ok [OF laws v2(1) _ a2 found(2)] by metis
    have "vs_imsi t' \<noteq> imsi" if "b \<noteq> a" "v_heap v' b = Some t'" for b t'
    proof (cases "b = e")
      case False
      then have "v_heap v2 b = Some t'" using d(4) [OF that(1)] that(2) by simp
      then show ?thesis using imsi_uniqueD [OF v2(1) found(2), of b t'] found(3) imsi(1) False by auto
    qed (use d(5) that imsi(1) in auto)
    moreover have "v_heap v' b = v_heap v b" if "b \<noteq> a" "\<not> imsi_at (v_heap v) imsi b" for b
      using d(4) [OF that(1)] that(2) found(2,3) v2(2) by (cases "b = e") (simp_all add: imsi_at_def)
    ultimately show ?thesis using d found(1) by (simp add: eq get_found_def)
  qed
qed

lemma set_imsi_ok:
  assumes "hash_laws B" and "use_laws B" and "vlr_inv B v" and "v_heap v a = Some s" and "imsi \<noteq> []" and "length imsi < IMSI_SIZE"
    and "\<forall>b t. v_heap v b = Some t \<longrightarrow> vs_imsi t = imsi \<longrightarrow> (\<exists>w. w \<noteq> VSUB_USE_PAGING \<and> 1 \<le> uc_by B w (vs_uses t))"
  shows "\<exists>v' s'. vlr_subscr_set_imsi B atoll silent has_inval has_forget a imsi v = Some v' \<and> vlr_inv B v'
    \<and> v_heap v' a = Some s' \<and> vs_imsi s' = imsi
    \<and> (\<forall>b t. v_heap v' b = Some t \<and> vs_imsi t = imsi \<longrightarrow> b = a)
    \<and> (\<forall>b. b \<noteq> a \<and> \<not> imsi_at (v_heap v) imsi b \<longrightarrow> v_heap v' b = v_heap v b)"
proof (cases "vs_imsi s = imsi")
  case True
  then have "\<forall>b t. v_heap v b = Some t \<and> vs_imsi t = imsi \<longrightarrow> b = a"
    using imsi_uniqueD [OF assms(3) _ assms(4)] assms(5) by auto
  with True assms(3,4) show ?thesis by (auto simp: vlr_subscr_set_imsi_def vsub_get_def)
next
  case False
  from merge_existing [OF assms(1-6) False assms(7)] obtain v4 s4 where v4:
      "set_imsi_merge B silent has_inval has_forget a imsi v = Some v4" "vlr_inv B v4" "v_heap v4 a = Some s4"
      "\<And>b t. b \<noteq> a \<Longrightarrow> v_heap v4 b = Some t \<Longrightarrow> vs_imsi t \<noteq> imsi"
      "\<And>b. b \<noteq> a \<Longrightarrow> \<not> imsi_at (v_heap v) imsi b \<Longrightarrow> v_heap v4 b = v_heap v b" by blast
  show ?thesis
  proof (rule assign_imsi_ok [OF assms(1) v4(2,3) assms(6) v4(4)])
    fix v1 v2 v3 assume r: "vsub_upd a (\<lambda>s. s\<lparr>vs_imsi := strlcpy IMSI_SIZE imsi\<rparr>) v4 = Some v1"
      "vsub_upd a (\<lambda>s. s\<lparr>vs_id := atoll (vs_imsi s)\<rparr>) v1 = Some v2" "vlr_subscr_rehash_imsi B a v2 = Some v3"
    assume o: "vlr_inv B v3" "touched a v4 v3" "v_heap v3 a = Some (s4\<lparr>vs_imsi := imsi, vs_id := atoll imsi\<rparr>)"
    have "vlr_subscr_set_imsi B atoll silent has_inval has_forget a imsi v = Some v3"
      using False assms(4) by (simp add: set_imsi_split vsub_get_def v4(1) r)
    moreover have "b = a" if "v_heap v3 b = Some t" "vs_imsi t = imsi" for b t
      using v4(4) [of b t] o(2) that by (cases "b = a") (simp_all add: touched_def)
    moreover have "v_heap v3 b = v_heap v b" if "b \<noteq> a" "\<not> imsi_at (v_heap v) imsi b" for b
      using v4(5) [OF that] o(2) that(1) by (simp add: touched_def)
    moreover have "vs_imsi (s4\<lparr>vs_imsi := imsi, vs_id := atoll imsi\<rparr>) = imsi" by simp
    ultimately show ?thesis using o(1,3) by blast
  qed
qed


subsection \<open>A concrete library and store\<close>

text \<open>
  The parameters of the model instantiated: a table is the list of its links, a use count list has one
  entry for each token.
\<close>

fun use_add :: "string \<Rightarrow> int \<Rightarrow> use_counts \<Rightarrow> use_counts" where
  "use_add u d [] = [(u, d)]"
| "use_add u d ((w, n) # es) = (if w = u then (w, n + d) # es else (w, n) # use_add u d es)"

fun use_by :: "string \<Rightarrow> use_counts \<Rightarrow> int" where
  "use_by u [] = 0"
| "use_by u ((w, n) # es) = (if w = u then n else 0) + use_by u es"

definition store_lib :: "(nat \<times> 32 word) list vlr_lib" where
  "store_lib = \<lparr>ht_del = (\<lambda>a. filter (\<lambda>p. fst p \<noteq> a)), ht_add = (\<lambda>k a t. (a, k) # t),
     ht_possible = (\<lambda>k t. map fst (filter (\<lambda>p. snd p = k) t)), ht_slot = map_of,
     jhash = foldl (\<lambda>h c. 31 * h + of_nat (of_char c)) 0, uc_change = use_add, uc_by = use_by, uc_total = (\<lambda>es. sum_list (map snd es))\<rparr>"

lemma map_of_filter_fst: "map_of (filter (\<lambda>p. fst p \<noteq> a) t) = (map_of t)(a := None)"
  by (induction t) (auto simp: fun_eq_iff)

lemma store_lib_hash: "hash_laws store_lib"
  by (auto simp: hash_laws_def store_lib_def map_of_filter_fst map_of_eq_None_iff dest!: map_of_SomeD intro: rev_image_eqI)

lemma use_by_add: "use_by w (use_add u d es) = use_by w es + (if w = u then d else 0)"
  by (induction es) auto

lemma use_total_add: "sum_list (map snd (use_add u d es)) = sum_list (map snd es) + d"
  by (induction es) auto

lemma use_total_sum: "finite U \<Longrightarrow> fst ` set es \<subseteq> U \<Longrightarrow> sum_list (map snd es) = (\<Sum>u\<in>U. use_by u es)"
  by (induction es) (auto simp: sum.distrib)

lemma use_by_le_total: "(\<And>w. 0 \<le> use_by w es) \<Longrightarrow> use_by u es \<le> sum_list (map snd es)"
proof -
  assume nonneg: "\<And>w. 0 \<le> use_by w es"
  have "use_by u es \<le> (\<Sum>w\<in>insert u (fst ` set es). use_by w es)"
    by (rule member_le_sum) (use nonneg in auto)
  also have "\<dots> = sum_list (map snd es)" by (rule use_total_sum [symmetric]) auto
  finally show ?thesis .
qed

lemma store_lib_use: "use_laws store_lib"
  by (simp add: use_laws_def store_lib_def use_by_add use_total_add use_by_le_total)

text \<open>An attached subscriber, and a new record for the same mobile station that has no IMSI yet.\<close>

definition sub_attached :: vlr_subscr where
  "sub_attached = (vlr_subscr_new (Some 0))\<lparr>vs_imsi := ''00101'', vs_tmsi := 7, vs_lu_complete := True, vs_expire_lu := 3600,
     vs_uses := [(VSUB_USE_ATTACHED, 1)], vs_max_uses := 1\<rparr>"

definition sub_new :: vlr_subscr where
  "sub_new = (vlr_subscr_new (Some 0))\<lparr>vs_uses := [(''MM'', 1)], vs_max_uses := 1\<rparr>"

definition store_ex :: "(nat \<times> 32 word) list vlr" where
  "store_ex = \<lparr>v_heap = [1 \<mapsto> sub_attached, 2 \<mapsto> sub_new], v_list = [1, 2], v_by_imsi = [(1, jhash store_lib ''00101'')],
     v_by_tmsi = [(1, 7)], v_by_tmsi_new = [], v_count = 2, v_lu_complete = 1, v_pag_inflight = 0, v_out = []\<rparr>"

lemma sub_new_ok: "vsub_ok store_lib sub_new"
  by (simp add: vsub_ok_def sub_new_def store_lib_def vlr_subscr_new_def vlr_subscr_zero_def)

lemma sub_attached_ok: "vsub_ok store_lib sub_attached"
  by (simp add: vsub_ok_def sub_attached_def store_lib_def vlr_subscr_new_def vlr_subscr_zero_def)

lemma sub_ex_simps [simp]: "vs_imsi sub_attached = ''00101''" "vs_tmsi sub_attached = 7" "vs_tmsi_new sub_attached = GSM_RESERVED_TMSI"
  "vs_lu_complete sub_attached" "vs_uses sub_attached = [(VSUB_USE_ATTACHED, 1)]" "vs_expire_lu sub_attached = 3600"
  "vs_imsi sub_new = ''''" "vs_tmsi sub_new = GSM_RESERVED_TMSI" "vs_tmsi_new sub_new = GSM_RESERVED_TMSI"
  "\<not> vs_lu_complete sub_new" "vs_uses sub_new = [(''MM'', 1)]" "vs_expire_lu sub_new = 600"
  by (simp_all add: sub_attached_def sub_new_def vlr_subscr_new_def vlr_subscr_zero_def)

lemma store_ex_inv: "vlr_inv store_lib store_ex"
proof -
  have "lu_set (v_heap store_ex) = {1}" by (auto simp: lu_set_def store_ex_def split: if_splits)
  moreover have "hash_ok store_lib (imsi_key store_lib) (v_heap store_ex) (v_by_imsi store_ex)"
    "hash_ok store_lib tmsi_key (v_heap store_ex) (v_by_tmsi store_ex)" "hash_ok store_lib tmsi_new_key (v_heap store_ex) (v_by_tmsi_new store_ex)"
    by (simp_all add: hash_ok_def store_ex_def imsi_key_def tmsi_key_def tmsi_new_key_def) (simp_all add: store_lib_def)
  moreover have "imsi_unique (v_heap store_ex)" by (auto simp: imsi_unique_def store_ex_def split: if_splits)
  moreover have "\<forall>a s. v_heap store_ex a = Some s \<longrightarrow> vsub_ok store_lib s"
    by (simp add: store_ex_def sub_new_ok sub_attached_ok)
  ultimately show ?thesis by (auto simp: vlr_inv_def) (auto simp: store_ex_def)
qed

lemma store_ex_heap: "v_heap store_ex 1 = Some sub_attached" "v_heap store_ex 2 = Some sub_new"
  by (simp_all add: store_ex_def)

theorem find_by_imsi_is_search_witness:
  "vlr_subscr_find_by_imsi store_lib ''00101'' None store_ex = Some (store_ex, Some 1)"
  using find_by_imsi_is_search [OF store_lib_hash store_ex_inv, of "''00101''"] by (simp add: store_ex_def imsi_at_def)



end
