(* ===== verification/Vlr_Store_Life.thy ===== *)
theory Vlr_Store_Life
  imports Vlr_Store_Inv
begin

text \<open>
  The life of a record in the subscriber store: creation on demand, TMSI allocation, detach, and the
  periodic expiry sweep.
\<close>

subsection \<open>Creation on demand\<close>

lemma hash_ok_new:
  assumes "hash_ok B key h t" and "h a = None" and "key s = None"
  shows "hash_ok B key (h(a \<mapsto> s)) t"
  using assms by (simp add: hash_ok_def)

lemma vlr_subscr_new_ok: "use_laws B \<Longrightarrow> vsub_ok B (vlr_subscr_new clock)"
  by (simp add: vsub_ok_def vlr_subscr_new_def vlr_subscr_zero_def use_lawsD)

lemma alloc_ok:
  assumes "use_laws B" and inv: "vlr_inv B v" and a: "v_heap v a = None"
  shows "vlr_inv B (vlr_subscr_alloc clock a v)"
proof -
  let ?s = "vlr_subscr_new clock"
  have keys: "imsi_key B ?s = None" "tmsi_key ?s = None" "tmsi_new_key ?s = None" and lu: "\<not> vs_lu_complete ?s" and imsi: "vs_imsi ?s = []"
    by (simp_all add: vlr_subscr_new_def vlr_subscr_zero_def imsi_key_def tmsi_key_def tmsi_new_key_def)
  have "lu_set ((v_heap v)(a \<mapsto> ?s)) = lu_set (v_heap v)"
    using lu a by (auto simp: lu_set_def)
  moreover have "imsi_unique ((v_heap v)(a \<mapsto> ?s))"
    using inv imsi by (auto simp: vlr_inv_def imsi_unique_def)
  moreover have "a \<notin> set (v_list v)" using inv a by (auto simp: vlr_inv_def)
  ultimately show ?thesis
    using inv a hash_ok_new [of B _ "v_heap v" _ a ?s] keys vlr_subscr_new_ok [OF assms(1)]
    by (simp add: vlr_inv_def vlr_subscr_alloc_def v_emit_def)
qed

text \<open>
  C10: \<open>vlr_subscr_find_or_create_by_imsi()\<close> never aborts, keeps the store consistent, and returns the record
  that a following lookup of the IMSI finds.  A new record is created exactly when no record had the IMSI.
\<close>

theorem find_or_create_then_find:
  assumes laws: "hash_laws B" "use_laws B" and inv: "vlr_inv B v" and new: "v_heap v new = None"
    and imsi: "imsi \<noteq> []" "length imsi < IMSI_SIZE"
  shows "\<exists>v' a. vlr_subscr_find_or_create_by_imsi B atoll silent has_inval has_forget clock new imsi use v
      = Some (v', a, \<not> (\<exists>b. imsi_at (v_heap v) imsi b)) \<and> vlr_inv B v'
    \<and> vlr_subscr_find_by_imsi B imsi None v' = Some (v', Some a)"
  using laws(1) inv imsi(1)
proof (cases rule: find_by_imsi_cases [where use = "Some use"])
  case (found a s)
  from get_ok [OF laws(2) inv found(2), of use] obtain v1 s1 where g: "vlr_subscr_get B a use v = Some v1" "vlr_inv B v1"
      "touched a v v1" "v_heap v1 a = Some s1" "recounted s s1" by blast
  have "vlr_subscr_find_by_imsi B imsi None v1 = Some (v1, Some a)"
    using find_by_imsi_is_unique [OF laws(1) g(2,4)] recountedD(1) [OF g(5)] found(3) imsi(1) by simp
  moreover have "imsi_at (v_heap v) imsi a" using found(2,3) by (simp add: imsi_at_def)
  ultimately show ?thesis using found(1) g(1,2)
    by (auto simp: vlr_subscr_find_or_create_by_imsi_def get_found_def)
next
  case none
  have no: "\<not> (\<exists>b. imsi_at (v_heap v) imsi b)" using none(2) by (auto simp: imsi_at_def split: option.splits)
  let ?v = "vlr_subscr_alloc clock new v"
  have v: "vlr_inv B ?v" and a: "v_heap ?v new = Some (vlr_subscr_new clock)" and heap: "v_heap ?v = (v_heap v)(new \<mapsto> vlr_subscr_new clock)"
    using alloc_ok [OF laws(2) inv new] by (simp_all add: vlr_subscr_alloc_def v_emit_def)
  from get_ok [OF laws(2) v a, of use] obtain v2 s2 where g: "vlr_subscr_get B new use ?v = Some v2" "vlr_inv B v2"
      "touched new ?v v2" "v_heap v2 new = Some s2" "recounted (vlr_subscr_new clock) s2" by blast
  have "vs_imsi (vlr_subscr_new clock) = []" by (simp add: vlr_subscr_new_def vlr_subscr_zero_def)
  then have other: "vs_imsi t \<noteq> imsi" if "v_heap v2 b = Some t" for b t
    using that g(3,4) recountedD(1) [OF g(5)] none(2) [of b t] imsi(1) heap by (cases "b = new") (auto simp: touched_def)
  obtain v3 s3 where s: "vlr_subscr_set_imsi B atoll silent has_inval has_forget new imsi v2 = Some v3" "vlr_inv B v3"
      "v_heap v3 new = Some s3" "vs_imsi s3 = imsi"
    using set_imsi_ok [OF laws g(2,4) imsi, of atoll silent has_inval has_forget] other by blast
  have "vlr_subscr_find_by_imsi B imsi None v3 = Some (v3, Some new)"
    using find_by_imsi_is_unique [OF laws(1) s(2,3)] s(4) imsi(1) by simp
  then show ?thesis using none(1) g(1) s(1,2) no by (simp add: vlr_subscr_find_or_create_by_imsi_def)
qed

theorem find_or_create_then_find_witness:
  "\<exists>v' a. vlr_subscr_find_or_create_by_imsi store_lib (\<lambda>_. 101) False True True (Some 5) 3 ''00102'' ''MM'' store_ex = Some (v', a, True)
     \<and> vlr_inv store_lib v' \<and> vlr_subscr_find_by_imsi store_lib ''00102'' None v' = Some (v', Some a)"
proof -
  have "\<not> (\<exists>b. imsi_at (v_heap store_ex) ''00102'' b)" by (simp add: imsi_at_def store_ex_def)
  with find_or_create_then_find [OF store_lib_hash store_lib_use store_ex_inv, of 3 "''00102''" "\<lambda>_. 101" False True True "Some 5" "''MM''"]
  show ?thesis by (simp add: store_ex_def)
qed

subsection \<open>TMSI allocation\<close>

definition tmsi_used :: "'h vlr \<Rightarrow> 32 word \<Rightarrow> bool" where
  "tmsi_used v t \<longleftrightarrow> (\<exists>a s. v_heap v a = Some s \<and> (vs_tmsi s = t \<or> vs_tmsi_new s = t))"

lemma find_by_tmsi_cases:
  assumes laws: "hash_laws B" and inv: "vlr_inv B v" and t: "t \<noteq> GSM_RESERVED_TMSI"
  obtains (found) a s where "vlr_subscr_find_by_tmsi B t use v = get_found B use (Some a) v" "v_heap v a = Some s"
      "vs_tmsi s = t \<or> vs_tmsi_new s = t"
    | (none) "vlr_subscr_find_by_tmsi B t use v = Some (v, None)" "\<not> tmsi_used v t"
proof -
  have ok: "hash_ok B tmsi_key (v_heap v) (v_by_tmsi v)" "hash_ok B tmsi_new_key (v_heap v) (v_by_tmsi_new v)"
    using inv by (simp_all add: vlr_inv_def)
  let ?p = "ht_possible B t (v_by_tmsi v)" and ?q = "ht_possible B t (v_by_tmsi_new v)"
  show thesis
  proof (rule find_key [OF laws ok(1), of "\<lambda>s. vs_tmsi s = t" t])
    fix a s assume "scan (v_heap v) (\<lambda>s. vs_tmsi s = t) ?p = Some (Some a)" "v_heap v a = Some s" "vs_tmsi s = t"
    with t show thesis by (intro found [of a s]) (simp_all add: vlr_subscr_find_by_tmsi_def)
  next
    assume p: "scan (v_heap v) (\<lambda>s. vs_tmsi s = t) ?p = Some None" "\<And>a s. v_heap v a = Some s \<Longrightarrow> tmsi_key s = Some t \<Longrightarrow> vs_tmsi s \<noteq> t"
    show thesis
    proof (rule find_key [OF laws ok(2), of "\<lambda>s. vs_tmsi_new s = t" t])
      fix a s assume "scan (v_heap v) (\<lambda>s. vs_tmsi_new s = t) ?q = Some (Some a)" "v_heap v a = Some s" "vs_tmsi_new s = t"
      with t p(1) show thesis by (intro found [of a s]) (simp_all add: vlr_subscr_find_by_tmsi_def)
    next
      assume q: "scan (v_heap v) (\<lambda>s. vs_tmsi_new s = t) ?q = Some None" "\<And>a s. v_heap v a = Some s \<Longrightarrow> tmsi_new_key s = Some t \<Longrightarrow> vs_tmsi_new s \<noteq> t"
      have "vs_tmsi s \<noteq> t \<and> vs_tmsi_new s \<noteq> t" if "v_heap v a = Some s" for a s
        using p(2) [OF that] q(2) [OF that] t by (auto simp: tmsi_key_def tmsi_new_key_def)
      then have "\<not> tmsi_used v t" by (auto simp: tmsi_used_def)
      with t p(1) q(1) show thesis by (intro none) (simp_all add: vlr_subscr_find_by_tmsi_def get_found_def)
    qed
  qed
qed

lemma tmsi_candidate_bits:
  assumes "tmsi_candidate is_ps nri r = Some t"
  shows "is_ps \<Longrightarrow> and t GSM23003_TMSI_SGSN_MASK = GSM23003_TMSI_SGSN_MASK"
    and "\<not> is_ps \<Longrightarrow> and t GSM23003_TMSI_SGSN_MASK \<noteq> GSM23003_TMSI_SGSN_MASK" and "\<not> is_ps \<Longrightarrow> t \<noteq> GSM_RESERVED_TMSI"
proof -
  have z: "and (and x (not GSM23003_TMSI_SGSN_MASK)) GSM23003_TMSI_SGSN_MASK = 0" for x :: "32 word"
    by (simp add: and.assoc)
  have m: "GSM23003_TMSI_SGSN_MASK \<noteq> (0 :: 32 word)" "and GSM_RESERVED_TMSI GSM23003_TMSI_SGSN_MASK = GSM23003_TMSI_SGSN_MASK" by simp_all
  show "is_ps \<Longrightarrow> and t GSM23003_TMSI_SGSN_MASK = GSM23003_TMSI_SGSN_MASK"
    using assms by (auto simp: tmsi_candidate_def Let_def bit.conj_disj_distrib2 split: if_splits option.splits)
  show cs: "\<not> is_ps \<Longrightarrow> and t GSM23003_TMSI_SGSN_MASK \<noteq> GSM23003_TMSI_SGSN_MASK"
    using assms z m(1) by (auto simp: tmsi_candidate_def Let_def split: if_splits option.splits)
  show "\<not> is_ps \<Longrightarrow> t \<noteq> GSM_RESERVED_TMSI" using cs m(2) by metis
qed

text \<open>The stage at which a free candidate is stored.\<close>

lemma assign_tmsi_new_ok:
  assumes "hash_laws B" and inv: "vlr_inv B v" and a: "v_heap v a = Some s"
  obtains v1 v2 where "vsub_upd a (\<lambda>s. s\<lparr>vs_tmsi_new := t\<rparr>) v = Some v1" "vlr_subscr_rehash_tmsi B a v1 = Some v2" "vlr_inv B v2"
    "touched a v v2" "v_heap v2 a = Some (s\<lparr>vs_tmsi_new := t\<rparr>)"
proof -
  let ?s = "s\<lparr>vs_tmsi_new := t\<rparr>"
  have e1: "vsub_upd a (\<lambda>s. s\<lparr>vs_tmsi_new := t\<rparr>) v = Some (put_sub a ?s v)" using vsub_upd_eq [OF a] by simp
  let ?v = "(put_sub a ?s v)\<lparr>v_by_tmsi := relinked B tmsi_key a ?s (v_by_tmsi v), v_by_tmsi_new := relinked B tmsi_new_key a ?s (v_by_tmsi_new v)\<rparr>"
  have e2: "vlr_subscr_rehash_tmsi B a (put_sub a ?s v) = Some ?v" using rehash_tmsi_eq [of "put_sub a ?s v" a ?s] by simp
  have ok: "vsub_ok B ?s" using vlr_inv_ok [OF inv a] by (simp add: vsub_ok_def)
  have tabs: "hash_ok B (imsi_key B) ((v_heap v)(a \<mapsto> ?s)) (v_by_imsi v)"
    "hash_ok B tmsi_key ((v_heap v)(a \<mapsto> ?s)) (relinked B tmsi_key a ?s (v_by_tmsi v))"
    "hash_ok B tmsi_new_key ((v_heap v)(a \<mapsto> ?s)) (relinked B tmsi_new_key a ?s (v_by_tmsi_new v))"
    using inv a by (auto simp: vlr_inv_def imsi_key_def intro!: hash_ok_relinked [OF assms(1)] hash_ok_upd)
  have "vlr_inv B ((put_sub a ?s v)\<lparr>v_by_imsi := v_by_imsi v, v_by_tmsi := relinked B tmsi_key a ?s (v_by_tmsi v),
      v_by_tmsi_new := relinked B tmsi_new_key a ?s (v_by_tmsi_new v)\<rparr>)"
    by (rule replace_inv [OF inv a ok _ _ tabs]) (use imsi_uniqueD [OF inv _ a] in auto)
  then have "vlr_inv B ?v" by (simp add: put_sub_def)
  from that [OF e1 e2 this] show thesis by (simp add: touched_def)
qed

text \<open>A candidate that is taken: a reference is acquired and released again, and no identity changes.\<close>

lemma get_put_ok:
  assumes laws: "hash_laws B" "use_laws B" and inv: "vlr_inv B v" and b: "v_heap v b = Some t" and ne: "u \<notin> {VSUB_USE_ATTACHED, VSUB_USE_PAGING, VSUB_USE_SGS_PAGING_REQ}"
    and a: "v_heap v a = Some s" and w: "w \<noteq> u" "1 \<le> uc_by B w (vs_uses s)"
  obtains v1 v2 s2 where "vlr_subscr_get B b u v = Some v1" "vlr_subscr_put B b u v1 = Some v2" "vlr_inv B v2"
    "v_heap v2 a = Some s2" "vs_tmsi_new s2 = vs_tmsi_new s" "1 \<le> uc_by B w (vs_uses s2)" "\<And>x. tmsi_used v2 x \<Longrightarrow> tmsi_used v x"
proof -
  from get_ok [OF laws(2) inv b, of u] obtain v1 t1 where g: "vlr_subscr_get B b u v = Some v1" "vlr_inv B v1" "touched b v v1"
    "v_heap v1 b = Some t1" "recounted t t1" "vs_uses t1 = uc_change B u 1 (vs_uses t)" .
  have u1: "1 \<le> uc_by B u (vs_uses t1)" using vlr_inv_ok [OF inv b] g(6) by (simp add: vsub_ok_def use_lawsD [OF laws(2)])
  show thesis
  proof (rule put_ok [OF laws g(2,4) u1])
    fix v2 t2 assume p: "vlr_subscr_put B b u v1 = Some v2" "vlr_inv B v2" "touched b v1 v2" "v_heap v2 b = Some t2" "recounted t1 t2"
      "vs_uses t2 = uc_change B u (- 1) (vs_uses t1)"
    have r: "recounted t t2" by (rule recounted_trans [OF g(5) p(5)])
    have c: "uc_by B w (vs_uses t2) = uc_by B w (vs_uses t)" using p(6) g(6) by (simp add: use_lawsD [OF laws(2)])
    have heap: "v_heap v2 = (v_heap v)(b \<mapsto> t2)" using g(3) p(3,4) by (auto simp: touched_def fun_eq_iff)
    have "tmsi_used v x" if "tmsi_used v2 x" for x
      using that heap b recountedD(3,4) [OF r] unfolding tmsi_used_def by (auto split: if_splits)
    moreover have "\<exists>s2. v_heap v2 a = Some s2 \<and> vs_tmsi_new s2 = vs_tmsi_new s \<and> 1 \<le> uc_by B w (vs_uses s2)"
      using heap a b c w recountedD(4) [OF r] by (cases "a = b") auto
    ultimately show thesis using that [OF g(1) p(1,2)] by blast
  next
    fix v2 assume tot: "uc_total B (vs_uses t1) = 1"
      and p: "vlr_subscr_put B b u v1 = Some v2" "vlr_inv B v2" "touched b v1 v2" "v_heap v2 b = None"
    have "uc_by B w (vs_uses t) \<le> uc_total B (vs_uses t)" by (rule vsub_ok_total [OF laws(2) vlr_inv_ok [OF inv b]])
    then have ab: "a \<noteq> b" using tot g(6) a b w by (auto simp: use_lawsD [OF laws(2)])
    have heap: "v_heap v2 = (v_heap v)(b := None)" using g(3) p(3,4) by (auto simp: touched_def fun_eq_iff)
    have "tmsi_used v x" if "tmsi_used v2 x" for x
      using that heap unfolding tmsi_used_def by (auto split: if_splits)
    with that [OF g(1) p(1,2)] heap ab a w show thesis by simp
  qed (use ne in auto)
qed

abbreviation (input) USE_ALLOC_TMSI :: string where "USE_ALLOC_TMSI \<equiv> ''vlr_subscr_alloc_tmsi''"

text \<open>What the allocation promises: \<open>rc = 0\<close> and a TMSI nobody has, or a negative code and nothing changed.\<close>

definition tmsi_allocated :: "'h vlr_lib \<Rightarrow> bool \<Rightarrow> nat \<Rightarrow> 32 word \<Rightarrow> 'h vlr \<Rightarrow> int \<Rightarrow> bool" where
  "tmsi_allocated B is_ps a old v' rc \<longleftrightarrow> vlr_inv B v' \<and> (\<exists>s'. v_heap v' a = Some s'
     \<and> (rc \<noteq> 0 \<longrightarrow> rc < 0 \<and> vs_tmsi_new s' = old)
     \<and> (rc = 0 \<longrightarrow> (is_ps \<longrightarrow> and (vs_tmsi_new s') GSM23003_TMSI_SGSN_MASK = GSM23003_TMSI_SGSN_MASK)
          \<and> (\<not> is_ps \<longrightarrow> and (vs_tmsi_new s') GSM23003_TMSI_SGSN_MASK \<noteq> GSM23003_TMSI_SGSN_MASK \<and> vs_tmsi_new s' \<noteq> GSM_RESERVED_TMSI)
          \<and> (vs_tmsi_new s' \<noteq> GSM_RESERVED_TMSI \<longrightarrow> vs_tmsi s' \<noteq> vs_tmsi_new s'
               \<and> (\<forall>b t. b \<noteq> a \<and> v_heap v' b = Some t \<longrightarrow> vs_tmsi t \<noteq> vs_tmsi_new s' \<and> vs_tmsi_new t \<noteq> vs_tmsi_new s'))))"

lemma store_candidate:
  assumes laws: "hash_laws B" and inv: "vlr_inv B v" and a: "v_heap v a = Some s" and c: "tmsi_candidate is_ps nri r = Some t"
    and free: "t \<noteq> GSM_RESERVED_TMSI \<Longrightarrow> \<not> tmsi_used v t"
  obtains v1 v2 where "vsub_upd a (\<lambda>s. s\<lparr>vs_tmsi_new := t\<rparr>) v = Some v1" "vlr_subscr_rehash_tmsi B a v1 = Some v2"
    "tmsi_allocated B is_ps a old (v_emit x v2) 0"
proof -
  from assign_tmsi_new_ok [OF laws inv a, of t] obtain v1 v2 where p: "vsub_upd a (\<lambda>s. s\<lparr>vs_tmsi_new := t\<rparr>) v = Some v1"
    "vlr_subscr_rehash_tmsi B a v1 = Some v2" "vlr_inv B v2" "touched a v v2" "v_heap v2 a = Some (s\<lparr>vs_tmsi_new := t\<rparr>)" .
  have "t \<noteq> GSM_RESERVED_TMSI \<longrightarrow> (\<forall>b s'. v_heap v b = Some s' \<longrightarrow> vs_tmsi s' \<noteq> t \<and> vs_tmsi_new s' \<noteq> t)"
    using free by (auto simp: tmsi_used_def)
  then have "tmsi_allocated B is_ps a old (v_emit x v2) 0"
    using p(3-5) a tmsi_candidate_bits [OF c] by (auto simp: tmsi_allocated_def touched_def) blast+
  with that p(1,2) show thesis by blast
qed

text \<open>Some try, before the random number source fails, yields a number that no record uses.\<close>

fun free_try :: "bool \<Rightarrow> (32 word \<Rightarrow> 32 word) option \<Rightarrow> (nat \<Rightarrow> int + 32 word) \<Rightarrow> nat \<Rightarrow> 'h vlr \<Rightarrow> bool" where
  "free_try is_ps nri rnd 0 v = False"
| "free_try is_ps nri rnd (Suc n) v =
     (case rnd n of Inl rc \<Rightarrow> False
      | Inr r \<Rightarrow> (case tmsi_candidate is_ps nri r of None \<Rightarrow> False | Some t \<Rightarrow> \<not> tmsi_used v t) \<or> free_try is_ps nri rnd n v)"

lemma free_try_mono: "(\<And>x. tmsi_used v2 x \<Longrightarrow> tmsi_used v x) \<Longrightarrow> free_try is_ps nri rnd n v \<Longrightarrow> free_try is_ps nri rnd n v2"
  by (induction n) (auto split: sum.splits option.splits)

lemma alloc_tmsi_loop_ok:
  assumes laws: "hash_laws B" "use_laws B" and neg: "\<And>n rc. rnd n = Inl rc \<Longrightarrow> rc < 0"
  shows "vlr_inv B v \<Longrightarrow> v_heap v a = Some s \<Longrightarrow> w \<noteq> USE_ALLOC_TMSI \<Longrightarrow> 1 \<le> uc_by B w (vs_uses s) \<Longrightarrow>
    \<exists>v' rc. alloc_tmsi_loop B is_ps nri rnd n a v = Some (v', rc) \<and> tmsi_allocated B is_ps a (vs_tmsi_new s) v' rc
      \<and> (free_try is_ps nri rnd n v \<longrightarrow> rc = 0)"
proof (induction n arbitrary: v s)
  case 0
  then show ?case by (simp add: tmsi_allocated_def)
next
  case (Suc n)
  show ?case
  proof (cases "rnd n")
    case (Inl rc)
    then show ?thesis using Suc.prems neg [OF Inl] by (auto simp: tmsi_allocated_def)
  next
    case (Inr r)
    show ?thesis
    proof (cases "tmsi_candidate is_ps nri r")
      case None
      with Inr Suc.IH [OF Suc.prems] show ?thesis by simp
    next
      case (Some t)
      consider (res) "vlr_subscr_find_by_tmsi B t (Some USE_ALLOC_TMSI) v = Some (v, None)" "t \<noteq> GSM_RESERVED_TMSI \<Longrightarrow> \<not> tmsi_used v t"
        | (used) b s' where "vlr_subscr_find_by_tmsi B t (Some USE_ALLOC_TMSI) v = get_found B (Some USE_ALLOC_TMSI) (Some b) v" "v_heap v b = Some s'"
            "tmsi_used v t"
      proof (cases "t = GSM_RESERVED_TMSI")
        case False
        with that show thesis by (cases rule: find_by_tmsi_cases [OF laws(1) Suc.prems(1) False, of "Some USE_ALLOC_TMSI"]) (auto simp: tmsi_used_def)
      qed (use that(1) in \<open>simp add: vlr_subscr_find_by_tmsi_def\<close>)
      then show ?thesis
      proof cases
        case res
        from store_candidate [OF laws(1) Suc.prems(1,2) Some res(2)] obtain v1 v2 where
          "vsub_upd a (\<lambda>s. s\<lparr>vs_tmsi_new := t\<rparr>) v = Some v1" "vlr_subscr_rehash_tmsi B a v1 = Some v2"
          "tmsi_allocated B is_ps a (vs_tmsi_new s) (v_emit (OPS_SUBSCR_UPDATE a) v2) 0" by metis
        with Inr Some res(1) show ?thesis by simp
      next
        case used
        obtain v1 v2 s2 where g: "vlr_subscr_get B b USE_ALLOC_TMSI v = Some v1" "vlr_subscr_put B b USE_ALLOC_TMSI v1 = Some v2"
          "vlr_inv B v2" "v_heap v2 a = Some s2" "vs_tmsi_new s2 = vs_tmsi_new s" "1 \<le> uc_by B w (vs_uses s2)" "\<And>x. tmsi_used v2 x \<Longrightarrow> tmsi_used v x"
          by (rule get_put_ok [OF laws Suc.prems(1) used(2) _ Suc.prems(2,3,4)]) auto
        have eq: "alloc_tmsi_loop B is_ps nri rnd (Suc n) a v = alloc_tmsi_loop B is_ps nri rnd n a v2"
          using Inr Some used(1) g(1,2) by (simp add: get_found_def)
        have "free_try is_ps nri rnd (Suc n) v \<Longrightarrow> free_try is_ps nri rnd n v2"
          using Inr Some used(3) free_try_mono [OF g(7)] by simp
        with Suc.IH [OF g(3,4) Suc.prems(3) g(6)] g(5) show ?thesis unfolding eq by auto
      qed
    qed
  qed
qed



text \<open>
  In the packet domain the reserved value is compared before the top bits are set, so the reserved TMSI can
  come out of it.
\<close>

lemma tmsi_candidate_ps_reserved: "tmsi_candidate True None 0x3FFFFFFF = Some GSM_RESERVED_TMSI"
  by (simp add: tmsi_candidate_def)

text \<open>The loops of \<open>dedup_vsub()\<close> copy one valid tuple into every free slot.\<close>

lemma dedup_copies_first_tuple:
  assumes "key_seq t \<noteq> VLR_KEY_SEQ_INVAL" and "\<forall>x\<in>set ts. key_seq x = VLR_KEY_SEQ_INVAL"
  shows "dedup_tuples (t # ex) ts = replicate (length ts) t"
proof -
  have fill: "dedup_fill ts t = replicate (length ts) t"
    using assms(2) by (induction ts) (simp_all add: dedup_fill_def)
  have "dedup_fill (replicate n t) x = replicate n t" for n x using assms(1) by (simp add: dedup_fill_def)
  then have "foldl (\<lambda>ts t. if key_seq t = VLR_KEY_SEQ_INVAL then ts else dedup_fill ts t) (replicate n t) ex = replicate n t" for n
    by (induction ex) simp_all
  then show ?thesis using assms(1) fill by (simp add: dedup_tuples_def)
qed

text \<open>
  A duplicate that only a paging request holds is freed by \<open>paging_request_join_vsub()\<close> and read afterwards.
\<close>

definition store_paging :: "(nat \<times> 32 word) list vlr" where
  "store_paging = store_ex\<lparr>v_heap := [1 \<mapsto> sub_attached\<lparr>vs_lu_complete := False, vs_is_paging := True, vs_paging_timer := True, vs_requests := [9],
     vs_uses := [(VSUB_USE_PAGING, 1)]\<rparr>, 2 \<mapsto> sub_new], v_lu_complete := 0\<rparr>"

lemma dedup_paging_only_reference: "dedup_vsub store_lib True True 1 2 store_paging = None"
  by (simp add: dedup_vsub_def paging_request_join_vsub_def store_paging_def store_ex_def vsub_get_def vsub_upd_def store_lib_def
      vlr_subscr_get_def vlr_subscr_put_def use_get_put_def vlr_subscr_use_cb_def vlr_subscr_free_def v_emit_def Let_def)

text \<open>
  The requests that a record takes over in the merge are left without a response timer: the timer of the old record
  is stopped, none is started for the new one.
\<close>

lemma paging_join_without_timer:
  "\<exists>v s. paging_request_join_vsub store_lib 2 1 store_paging = Some v \<and> v_heap v 2 = Some s \<and> vs_requests s = [9]
     \<and> vs_is_paging s \<and> \<not> vs_paging_timer s"
  by (simp add: paging_request_join_vsub_def store_paging_def store_ex_def vsub_get_def vsub_upd_def store_lib_def
      vlr_subscr_get_def vlr_subscr_put_def use_get_put_def vlr_subscr_use_cb_def vlr_subscr_free_def v_emit_def Let_def)
    (simp add: sub_new_def vlr_subscr_new_def vlr_subscr_zero_def)

subsection \<open>Detach\<close>

lemma lu_release_ok:
  assumes laws: "hash_laws B" "use_laws B" and inv: "vlr_inv B v" and a: "v_heap v a = Some s"
    and w: "w \<noteq> VSUB_USE_SGS_LU" "1 \<le> uc_by B w (vs_uses s)"
  obtains v' s' where "vlr_sgs_lu_release B a v = Some v'" "vlr_inv B v'" "touched a v v'" "v_heap v' a = Some s'" "recounted s s'"
    "1 \<le> uc_by B w (vs_uses s')"
proof (cases "uc_by B VSUB_USE_SGS_LU (vs_uses s) > 0")
  case False
  have "recounted s s" by (cases s) (simp add: recounted_def)
  with False that [of v s] inv a w show thesis by (simp add: vlr_sgs_lu_release_def vsub_get_def touched_def)
next
  case True
  then have u: "1 \<le> uc_by B VSUB_USE_SGS_LU (vs_uses s)" by simp
  show thesis
  proof (rule put_kept [OF laws inv a u _ _ _ w])
    fix v' s' assume p: "vlr_subscr_put B a VSUB_USE_SGS_LU v = Some v'" "vlr_inv B v'" "touched a v v'" "v_heap v' a = Some s'" "recounted s s'"
      "vs_uses s' = uc_change B VSUB_USE_SGS_LU (- 1) (vs_uses s)"
    have "vlr_sgs_lu_release B a v = Some v'" using True a p(1) by (simp add: vlr_sgs_lu_release_def vsub_get_def)
    from that [OF this p(2-5)] p(6) w show thesis by (simp add: use_lawsD [OF laws(2)])
  qed simp_all
qed

lemma pag_stop_ok:
  assumes laws: "hash_laws B" "use_laws B" and inv: "vlr_inv B v" and a: "v_heap v a = Some s"
    and w: "w \<noteq> VSUB_USE_SGS_PAGING_REQ" "1 \<le> uc_by B w (vs_uses s)"
  obtains v' s' where "vlr_sgs_pag_stop B a v = Some v'" "vlr_inv B v'" "touched a v v'" "v_heap v' a = Some s'"
    "recounted (s\<lparr>vs_ts5 := False\<rparr>) s'" "1 \<le> uc_by B w (vs_uses s')"
proof (cases "vs_ts5 s")
  case False
  then have "recounted (s\<lparr>vs_ts5 := False\<rparr>) s" by (cases s) (simp add: recounted_def)
  with False that [of v s] inv a w show thesis by (simp add: vlr_sgs_pag_stop_def vsub_get_def touched_def)
next
  case True
  let ?s = "s\<lparr>vs_ts5 := False\<rparr>"
  have "same_keys s ?s" "vsub_ok B ?s" using vlr_inv_ok [OF inv a] by (simp_all add: same_keys_def vsub_ok_def)
  from upd_ok [OF inv a, of "\<lambda>s. s\<lparr>vs_ts5 := False\<rparr>", OF this] obtain v1 where
    v1: "vsub_upd a (\<lambda>s. s\<lparr>vs_ts5 := False\<rparr>) v = Some v1" "vlr_inv B v1" "touched a v v1" "v_heap v1 a = Some ?s" .
  have u: "1 \<le> uc_by B VSUB_USE_SGS_PAGING_REQ (vs_uses ?s)" using vlr_inv_ok [OF inv a] True by (simp add: vsub_ok_def)
  have w': "1 \<le> uc_by B w (vs_uses ?s)" using w by simp
  show thesis
  proof (rule put_kept [OF laws v1(2,4) u _ _ _ w(1) w'])
    fix v2 s' assume p: "vlr_subscr_put B a VSUB_USE_SGS_PAGING_REQ v1 = Some v2" "vlr_inv B v2" "touched a v1 v2" "v_heap v2 a = Some s'"
      "recounted ?s s'" "vs_uses s' = uc_change B VSUB_USE_SGS_PAGING_REQ (- 1) (vs_uses ?s)"
    have "vlr_sgs_pag_stop B a v = Some (sgs_pag_inflight_dec v2)"
      using True a v1(1) p(1) by (simp add: vlr_sgs_pag_stop_def vsub_get_def)
    moreover have "vlr_inv B (sgs_pag_inflight_dec v2)" using p(2) by (simp add: vlr_inv_def sgs_pag_inflight_dec_def)
    moreover have "touched a v (sgs_pag_inflight_dec v2)" using v1(3) p(3) by (simp add: touched_def sgs_pag_inflight_dec_def)
    ultimately show thesis using that [of "sgs_pag_inflight_dec v2" s'] p(4-6) w
      by (simp add: use_lawsD [OF laws(2)] sgs_pag_inflight_dec_def)
  qed simp_all
qed

lemma mark_detached_ok:
  assumes "vlr_inv B v" and "v_heap v a = Some s"
  obtains v' where "vsub_upd a (\<lambda>s. s\<lparr>vs_imsi_detached := True\<rparr>) v = Some v'" "vlr_inv B v'" "touched a v v'"
    "v_heap v' a = Some (s\<lparr>vs_imsi_detached := True\<rparr>)"
  using upd_ok [OF assms, of "\<lambda>s. s\<lparr>vs_imsi_detached := True\<rparr>"] vlr_inv_ok [OF assms]
  by (auto simp: same_keys_def vsub_ok_def)

lemma keep_expiry_ok:
  assumes "vlr_inv B v" and "v_heap v a = Some s" and "\<not> vs_lu_complete s"
  obtains v' where "vlr_subscr_keep_incomplete_expiry (Some now) a v = Some v'" "vlr_inv B v'" "touched a v v'"
    "v_heap v' a = Some (s\<lparr>vs_expire_lu := now + VLR_INCOMPLETE_LU_SECS\<rparr>)"
  using upd_ok [OF assms(1,2), of "\<lambda>s. s\<lparr>vs_expire_lu := now + VLR_INCOMPLETE_LU_SECS\<rparr>"] vlr_inv_ok [OF assms(1,2)] assms(2,3)
  by (auto simp: same_keys_def vsub_ok_def vlr_subscr_keep_incomplete_expiry_def vsub_get_def)

text \<open>
  \<open>vlr_subscr_detach()\<close>: the record is gone, or someone still holds it and it is unregistered and due again after
  the time for incomplete records.
\<close>

definition put_off :: "nat \<Rightarrow> vlr_subscr option \<Rightarrow> bool" where
  "put_off now r = (case r of None \<Rightarrow> True
     | Some s \<Rightarrow> \<not> vs_lu_complete s \<and> vs_imsi_detached s \<and> vs_expire_lu s = now + VLR_INCOMPLETE_LU_SECS)"

lemma detach_ok:
  assumes laws: "hash_laws B" "use_laws B" and inv: "vlr_inv B v" and a: "v_heap v a = Some s"
  obtains v' where "vlr_subscr_detach B has_forget (Some now) a v = Some v'" "vlr_inv B v'" "touched a v v'" "put_off now (v_heap v' a)"
proof -
  let ?u = "''vlr_subscr_detach''"
  from get_ok [OF laws(2) inv a, of ?u] obtain v1 s1 where v1: "vlr_subscr_get B a ?u v = Some v1" "vlr_inv B v1" "touched a v v1"
    "v_heap v1 a = Some s1" "vs_uses s1 = uc_change B ?u 1 (vs_uses s)" by blast
  have u1: "1 \<le> uc_by B ?u (vs_uses s1)" using vlr_inv_ok [OF inv a] v1(5) by (simp add: vsub_ok_def use_lawsD [OF laws(2)])
  have "?u \<noteq> ''vlr_subscr_cancel_attach_fsm''" by simp
  from cancel_ok [OF laws v1(2,4) this u1, of GSM48_REJECT_CONGESTION] obtain v2 s2 where
    v2: "vlr_subscr_cancel_attach_fsm B a GSM48_REJECT_CONGESTION v1 = Some v2" "vlr_inv B v2" "touched a v1 v2" "v_heap v2 a = Some s2"
      "same_counts B s1 s2" by blast
  have u2: "1 \<le> uc_by B ?u (vs_uses s2)" using u1 v2(5) by (simp add: same_counts_def)
  have "?u \<noteq> VSUB_USE_SGS_LU" by simp
  from lu_release_ok [OF laws v2(2,4) this u2] obtain v3 s3 where v3: "vlr_sgs_lu_release B a v2 = Some v3" "vlr_inv B v3" "touched a v2 v3"
    "v_heap v3 a = Some s3" "1 \<le> uc_by B ?u (vs_uses s3)" by blast
  define v4 where "v4 = (if \<not> vs_imsi_detached s3 then vlr_subscr_purge a v3 else v3)"
  have v4: "vlr_inv B v4" "v_heap v4 = v_heap v3" using v3(2) by (simp_all add: v4_def vlr_subscr_purge_def)
  have a4: "v_heap v4 a = Some s3" using v4(2) v3(4) by simp
  from mark_detached_ok [OF v4(1) a4] obtain v5 where v5: "vsub_upd a (\<lambda>s. s\<lparr>vs_imsi_detached := True\<rparr>) v4 = Some v5" "vlr_inv B v5" "touched a v4 v5"
    "v_heap v5 a = Some (s3\<lparr>vs_imsi_detached := True\<rparr>)" .
  have v6: "vlr_inv B (v_emit (CALL_SGS_DETACH a) v5)" "v_heap (v_emit (CALL_SGS_DETACH a) v5) a = Some (s3\<lparr>vs_imsi_detached := True\<rparr>)"
    using v5 by simp_all
  have u6: "1 \<le> uc_by B ?u (vs_uses (s3\<lparr>vs_imsi_detached := True\<rparr>))" and ne: "?u \<noteq> VSUB_USE_ATTACHED" using v3(5) by simp_all
  obtain v7 s7 ex where v7: "vlr_subscr_expire B has_forget a (v_emit (CALL_SGS_DETACH a) v5) = Some (v7, ex)" "vlr_inv B v7" "touched a v5 v7"
    "v_heap v7 a = Some s7" "recounted (s3\<lparr>vs_imsi_detached := True, vs_lu_complete := False\<rparr>) s7" "1 \<le> uc_by B ?u (vs_uses s7)"
    by (rule expire_ok [OF laws v6 ne u6, of has_forget]) (use u6 in simp)
  have s7: "\<not> vs_lu_complete s7" "vs_imsi_detached s7" using recountedD(5,9) [OF v7(5)] by simp_all
  from keep_expiry_ok [OF v7(2,4) s7(1)] obtain v8 where v8: "vlr_subscr_keep_incomplete_expiry (Some now) a v7 = Some v8" "vlr_inv B v8"
    "touched a v7 v8" "v_heap v8 a = Some (s7\<lparr>vs_expire_lu := now + VLR_INCOMPLETE_LU_SECS\<rparr>)" .
  have t8: "touched a v v8" using v1(3) v2(3) v3(3) v4(2) v5(3) v7(3) v8(3) by (simp add: touched_def)
  have eq: "vlr_subscr_detach B has_forget (Some now) a v = vlr_subscr_put B a ?u v8"
    unfolding vlr_subscr_detach_def
    using v1(1) v2(1) v3(1,4) v5(1) v7(1) v8(1) by (simp add: vsub_get_def Let_def v4_def)
  have u8: "1 \<le> uc_by B ?u (vs_uses (s7\<lparr>vs_expire_lu := now + VLR_INCOMPLETE_LU_SECS\<rparr>))" using v7(6) by simp
  show thesis
  proof (rule put_ok [OF laws v8(2,4) u8])
    fix v' s' assume p: "vlr_subscr_put B a ?u v8 = Some v'" "vlr_inv B v'" "touched a v8 v'" "v_heap v' a = Some s'"
      "recounted (s7\<lparr>vs_expire_lu := now + VLR_INCOMPLETE_LU_SECS\<rparr>) s'"
    from that [OF eq [unfolded p(1)] p(2) touched_trans [OF t8 p(3)]] p(4) recountedD(5,9,10) [OF p(5)] s7 show thesis by (simp add: put_off_def)
  next
    fix v' assume p: "vlr_subscr_put B a ?u v8 = Some v'" "vlr_inv B v'" "touched a v8 v'" "v_heap v' a = None"
    from that [OF eq [unfolded p(1)] p(2) touched_trans [OF t8 p(3)]] p(4) show thesis by (simp add: put_off_def)
  qed simp_all
qed

lemma discard_ok:
  assumes laws: "hash_laws B" "use_laws B" and inv: "vlr_inv B v" and a: "v_heap v a = Some s" and lu: "\<not> vs_lu_complete s"
  obtains v' held where "vlr_subscr_discard_incomplete B (Some now) a v = Some (v', held)" "vlr_inv B v'" "touched a v v'"
    "put_off now (v_heap v' a)" "held \<longleftrightarrow> v_heap v' a \<noteq> None"
proof -
  let ?u = "''vlr_subscr_discard_incomplete''"
  from get_ok [OF laws(2) inv a, of ?u] obtain v1 s1 where v1: "vlr_subscr_get B a ?u v = Some v1" "vlr_inv B v1" "touched a v v1"
    "v_heap v1 a = Some s1" "recounted s s1" "vs_uses s1 = uc_change B ?u 1 (vs_uses s)" by blast
  have u1: "1 \<le> uc_by B ?u (vs_uses s1)" using vlr_inv_ok [OF inv a] v1(6) by (simp add: vsub_ok_def use_lawsD [OF laws(2)])
  have "?u \<noteq> ''vlr_subscr_cancel_attach_fsm''" by simp
  from cancel_ok [OF laws v1(2,4) this u1, of GSM48_REJECT_CONGESTION] obtain v2 s2 where
    v2: "vlr_subscr_cancel_attach_fsm B a GSM48_REJECT_CONGESTION v1 = Some v2" "vlr_inv B v2" "touched a v1 v2" "v_heap v2 a = Some s2"
      "recounted s1 s2" "same_counts B s1 s2" by blast
  have u2: "1 \<le> uc_by B ?u (vs_uses s2)" using u1 v2(6) by (simp add: same_counts_def)
  have "?u \<noteq> VSUB_USE_SGS_LU" by simp
  from lu_release_ok [OF laws v2(2,4) this u2] obtain v3 s3 where v3: "vlr_sgs_lu_release B a v2 = Some v3" "vlr_inv B v3" "touched a v2 v3"
    "v_heap v3 a = Some s3" "recounted s2 s3" "1 \<le> uc_by B ?u (vs_uses s3)" by blast
  have "?u \<noteq> VSUB_USE_SGS_PAGING_REQ" by simp
  from pag_stop_ok [OF laws v3(2,4) this v3(6)] obtain v4 s4 where v4: "vlr_sgs_pag_stop B a v3 = Some v4" "vlr_inv B v4" "touched a v3 v4"
    "v_heap v4 a = Some s4" "recounted (s3\<lparr>vs_ts5 := False\<rparr>) s4" "1 \<le> uc_by B ?u (vs_uses s4)" by blast
  have lu4: "\<not> vs_lu_complete s4"
    using lu recountedD(5) [OF v1(5)] recountedD(5) [OF v2(5)] recountedD(5) [OF v3(5)] recountedD(5) [OF v4(5)] by simp
  from mark_detached_ok [OF v4(2,4)] obtain v5 where v5: "vsub_upd a (\<lambda>s. s\<lparr>vs_imsi_detached := True\<rparr>) v4 = Some v5" "vlr_inv B v5" "touched a v4 v5"
    "v_heap v5 a = Some (s4\<lparr>vs_imsi_detached := True\<rparr>)" .
  let ?s5 = "s4\<lparr>vs_imsi_detached := True\<rparr>"
  have t5: "touched a v v5" using v1(3) v2(3) v3(3) v4(3) v5(3) by (simp add: touched_def)
  have u5: "1 \<le> uc_by B ?u (vs_uses ?s5)" using v4(6) by simp
  have eq: "vlr_subscr_discard_incomplete B (Some now) a v = do {
      v6 \<leftarrow> (if uc_total B (vs_uses ?s5) > 1 then vlr_subscr_keep_incomplete_expiry (Some now) a v5 else Some v5);
      v7 \<leftarrow> vlr_subscr_put B a ?u v6; Some (v7, uc_total B (vs_uses ?s5) > 1) }"
    unfolding vlr_subscr_discard_incomplete_def
    using v1(1) v2(1) v3(1) v4(1) v5(1,4) by (simp add: vsub_get_def Let_def)
  show thesis
  proof (cases "uc_total B (vs_uses ?s5) > 1")
    case False
    show thesis
    proof (rule put_ok [OF laws v5(2,4) u5])
      fix v' assume p: "vlr_subscr_put B a ?u v5 = Some v'" "vlr_inv B v'" "touched a v5 v'" "v_heap v' a = None"
      have "vlr_subscr_discard_incomplete B (Some now) a v = Some (v', False)" using eq False p(1) by simp
      from that [OF this p(2) touched_trans [OF t5 p(3)]] p(4) show thesis by (simp add: put_off_def)
    qed (use False in simp_all)
  next
    case True
    have "\<not> vs_lu_complete ?s5" using lu4 by simp
    from keep_expiry_ok [OF v5(2,4) this] obtain v6 where v6: "vlr_subscr_keep_incomplete_expiry (Some now) a v5 = Some v6" "vlr_inv B v6"
      "touched a v5 v6" "v_heap v6 a = Some (?s5\<lparr>vs_expire_lu := now + VLR_INCOMPLETE_LU_SECS\<rparr>)" .
    have u6: "1 \<le> uc_by B ?u (vs_uses (?s5\<lparr>vs_expire_lu := now + VLR_INCOMPLETE_LU_SECS\<rparr>))" using u5 by simp
    show thesis
    proof (rule put_ok [OF laws v6(2,4) u6])
      fix v' s' assume p: "vlr_subscr_put B a ?u v6 = Some v'" "vlr_inv B v'" "touched a v6 v'" "v_heap v' a = Some s'"
        "recounted (?s5\<lparr>vs_expire_lu := now + VLR_INCOMPLETE_LU_SECS\<rparr>) s'"
      have e: "vlr_subscr_discard_incomplete B (Some now) a v = Some (v', True)" using eq True p(1) v6(1) by simp
      have "touched a v v'" using t5 v6(3) p(3) by (simp add: touched_def)
      from that [OF e p(2) this] p(4) recountedD(5,9,10) [OF p(5)] lu4 show thesis by (simp add: put_off_def)
    qed (use True in simp_all)
  qed
qed

subsection \<open>The expiry sweep\<close>

definition due_at :: "nat \<Rightarrow> (nat \<Rightarrow> vlr_subscr option) \<Rightarrow> nat \<Rightarrow> bool" where
  "due_at now h a = (case h a of None \<Rightarrow> False | Some s \<Rightarrow> vsub_due now s)"

lemma put_off_not_due: "put_off now r \<Longrightarrow> r = h a \<Longrightarrow> \<not> due_at now h a"
  by (auto simp: put_off_def due_at_def vsub_due_def split: option.splits)

lemma expire_step_ok:
  assumes laws: "hash_laws B" "use_laws B" and inv: "vlr_inv B v" and a: "v_heap v a = Some s" and due: "vsub_due now s" "n < VLR_EXPIRE_MAX_PER_TICK"
  obtains v' c' where "expire_loop B has_forget now (a # as) n c v = expire_loop B has_forget now as (n + 1) c' v'" "vlr_inv B v'"
    "touched a v v'" "put_off now (v_heap v' a)"
proof (cases "vs_lu_complete s")
  case True
  from detach_ok [OF laws inv a, of has_forget now] obtain v' where
    d: "vlr_subscr_detach B has_forget (Some now) a v = Some v'" "vlr_inv B v'" "touched a v v'" "put_off now (v_heap v' a)" .
  with True a due show thesis by (intro that [of "snap_count B now s c" v']) (simp_all add: vsub_get_def Let_def)
next
  case False
  from discard_ok [OF laws inv a False, of now] obtain v' held where
    d: "vlr_subscr_discard_incomplete B (Some now) a v = Some (v', held)" "vlr_inv B v'" "touched a v v'" "put_off now (v_heap v' a)" by blast
  let ?c = "snap_count B now s c"
  from False a due d show thesis
    by (intro that [of "?c\<lparr>snap_discarded := snap_discarded ?c + 1, snap_held := snap_held ?c + (if held then 1 else 0)\<rparr>" v'])
      (simp_all add: vsub_get_def Let_def)
qed

lemma expire_loop_ok:
  assumes laws: "hash_laws B" "use_laws B"
  shows "vlr_inv B v \<Longrightarrow> distinct as \<Longrightarrow> set as \<subseteq> dom (v_heap v) \<Longrightarrow>
    \<exists>v' c'. expire_loop B has_forget now as n c v = Some (v', c') \<and> vlr_inv B v'
      \<and> (\<forall>a. a \<notin> set as \<or> \<not> due_at now (v_heap v) a \<longrightarrow> v_heap v' a = v_heap v a)
      \<and> (\<forall>a\<in>set as. n + length (filter (due_at now (v_heap v)) as) \<le> VLR_EXPIRE_MAX_PER_TICK \<and> due_at now (v_heap v) a
            \<longrightarrow> put_off now (v_heap v' a))"
proof (induction as arbitrary: n c v)
  case Nil
  then show ?case by simp
next
  case (Cons a as)
  then obtain s where a: "v_heap v a = Some s" by auto
  show ?case
  proof (cases "vsub_due now s \<and> n < VLR_EXPIRE_MAX_PER_TICK")
    case False
    then have eq: "expire_loop B has_forget now (a # as) n c v = expire_loop B has_forget now as n (snap_count B now s c) v"
      using a by (auto simp: vsub_get_def Let_def)
    obtain v' c' where v': "expire_loop B has_forget now as n (snap_count B now s c) v = Some (v', c')" "vlr_inv B v'"
      "\<forall>b. b \<notin> set as \<or> \<not> due_at now (v_heap v) b \<longrightarrow> v_heap v' b = v_heap v b"
      "\<forall>b\<in>set as. n + length (filter (due_at now (v_heap v)) as) \<le> VLR_EXPIRE_MAX_PER_TICK \<and> due_at now (v_heap v) b
            \<longrightarrow> put_off now (v_heap v' b)"
      using Cons.IH [OF Cons.prems(1), of n "snap_count B now s c"] Cons.prems(2,3) by auto
    have "due_at now (v_heap v) a \<longleftrightarrow> vsub_due now s" using a by (simp add: due_at_def)
    with v' False show ?thesis unfolding eq by auto
  next
    case True
    obtain v1 c1 where s: "expire_loop B has_forget now (a # as) n c v = expire_loop B has_forget now as (n + 1) c1 v1" "vlr_inv B v1"
      "touched a v v1" "put_off now (v_heap v1 a)"
      using expire_step_ok [OF laws Cons.prems(1) a, of now n] True by blast
    have heap: "b \<noteq> a \<Longrightarrow> v_heap v1 b = v_heap v b" for b using s(3) by (simp add: touched_def)
    have due: "b \<noteq> a \<Longrightarrow> due_at now (v_heap v1) b = due_at now (v_heap v) b" for b using heap by (simp add: due_at_def)
    have fil: "filter (due_at now (v_heap v1)) as = filter (due_at now (v_heap v)) as"
    proof (rule filter_cong [OF refl])
      fix x assume "x \<in> set as"
      then have "x \<noteq> a" using Cons.prems(2) by auto
      then show "due_at now (v_heap v1) x = due_at now (v_heap v) x" by (rule due)
    qed
    have dom: "set as \<subseteq> dom (v_heap v1)" using heap Cons.prems(2,3) by (metis Diff_insert_absorb domIff distinct.simps(2) insert_subset list.simps(15) subsetD subsetI)
    obtain v' c' where v': "expire_loop B has_forget now as (n + 1) c1 v1 = Some (v', c')" "vlr_inv B v'"
      "\<forall>b. b \<notin> set as \<or> \<not> due_at now (v_heap v1) b \<longrightarrow> v_heap v' b = v_heap v1 b"
      "\<forall>b\<in>set as. n + 1 + length (filter (due_at now (v_heap v)) as) \<le> VLR_EXPIRE_MAX_PER_TICK \<and> due_at now (v_heap v1) b
            \<longrightarrow> put_off now (v_heap v' b)"
      using Cons.IH [OF s(2) _ dom, of "n + 1" c1] Cons.prems(2) fil by auto
    have da: "due_at now (v_heap v) a" using a True by (simp add: due_at_def)
    have na: "a \<notin> set as" using Cons.prems(2) by simp
    have "v_heap v' a = v_heap v1 a" using v'(3) na by simp
    then have "put_off now (v_heap v' a)" using s(4) by simp
    moreover have "v_heap v' b = v_heap v b" if "b \<notin> set (a # as) \<or> \<not> due_at now (v_heap v) b" for b
      using that v'(3) heap [of b] due [of b] da by (cases "b = a") auto
    moreover have "put_off now (v_heap v' b)"
      if "b \<in> set as" "n + length (filter (due_at now (v_heap v)) (a # as)) \<le> VLR_EXPIRE_MAX_PER_TICK" "due_at now (v_heap v) b" for b
      using v'(4) that due [of b] da na by auto
    ultimately show ?thesis using v'(1,2) unfolding s(1) by auto
  qed
qed




end
