(* ===== verification/Transaction.thy ===== *)
theory Transaction
  imports Vlr_Store_Inv
begin

text \<open>
  Transactions and paging: \<open>src/src/libmsc/transaction.c\<close> and \<open>src/src/libmsc/paging.c\<close>.  Transactions and
  paging requests are objects in heaps of their own, next to the subscriber store.  The cleanup
  functions of call control, SMS and supplementary services, paging callbacks and the reference counts of
  connections are recorded as calls.  A failing assertion, a NULL or a dangling pointer yields \<open>None\<close>.
\<close>

subsection \<open>Data\<close>

datatype trans_type = TRANS_GCC | TRANS_BCC | TRANS_CC | TRANS_SMS | TRANS_USSD | TRANS_SILENT_CALL

text \<open>The protocol discriminators of 3GPP TS 24.007.\<close>

definition trans_type_to_gsm48_proto :: "trans_type \<Rightarrow> nat" where
  "trans_type_to_gsm48_proto ty =
     (case ty of TRANS_GCC \<Rightarrow> 0x0 | TRANS_BCC \<Rightarrow> 0x1 | TRANS_CC \<Rightarrow> 0x3 | TRANS_SILENT_CALL \<Rightarrow> 0x3
      | TRANS_SMS \<Rightarrow> 0x9 | TRANS_USSD \<Rightarrow> 0xb)"

definition trans_type_names :: "trans_type \<Rightarrow> string" where
  "trans_type_names ty =
     (case ty of TRANS_GCC \<Rightarrow> ''GCC'' | TRANS_BCC \<Rightarrow> ''BCC'' | TRANS_CC \<Rightarrow> ''CC'' | TRANS_SMS \<Rightarrow> ''SMS''
      | TRANS_USSD \<Rightarrow> ''NCSS'' | TRANS_SILENT_CALL \<Rightarrow> ''silent-call'')"

definition trans_vsub_use :: "trans_type \<Rightarrow> string" where
  "trans_vsub_use ty = trans_type_names ty"

abbreviation (input) TRANS_ID_UNASSIGNED :: nat where "TRANS_ID_UNASSIGNED \<equiv> 0xff"
abbreviation (input) GSM_TRANS_MAGIC :: "32 word" where "GSM_TRANS_MAGIC \<equiv> 0x54524e53"

record gsm_trans =
  tr_magic :: "32 word"
  tr_type :: trans_type
  transaction_id :: nat
  tr_vsub :: "nat option"
  tr_msc_a :: "nat option"
  callref :: "32 word"
  call_id :: "32 word"
  tr_paging_request :: "nat option"
  freeing :: bool
  sm_rp_mr :: "8 word"

datatype paging_cause =
    PAGING_CAUSE_CALL_CONVERSATIONAL | PAGING_CAUSE_CALL_STREAMING | PAGING_CAUSE_CALL_INTERACTIVE
  | PAGING_CAUSE_CALL_BACKGROUND | PAGING_CAUSE_SIGNALLING_LOW_PRIO | PAGING_CAUSE_SIGNALLING_HIGH_PRIO
  | PAGING_CAUSE_UNSPECIFIED

text \<open>\<open>pr_cb\<close> is the callback, an index of the functions that are used as one, or NULL.\<close>

record paging_request =
  pr_label :: string
  pr_cause :: paging_cause
  pr_cb :: "nat option"
  pr_trans :: "nat option"

datatype net_out =
    CALL_TRANS_CLEANUP trans_type nat | MSC_A_GET nat string | MSC_A_PUT nat string
  | CALL_PAGING_CB nat "nat option" "nat option" | SIGNAL_PAGING nat "nat option" | CALL_SGS_SERV_ABRT nat
  | TX_SGS_PAGING nat sgsap_service_ind | TX_SGS_LU_ACC nat "32 word" | TX_SGS_LU_REJ nat reject_value | TX_SGS_MM_INFO nat
  | TX_UPDATE_LOCATION nat | OPS_SGS_PERSIST nat

record 'h gsm_network =
  net_vlr :: "'h vlr"
  net_trans :: "nat \<Rightarrow> gsm_trans option"
  trans_list :: "nat list"
  net_pr :: "nat \<Rightarrow> paging_request option"
  new_call_id :: "32 word"
  net_out :: "net_out list"

definition n_emit :: "net_out \<Rightarrow> 'h gsm_network \<Rightarrow> 'h gsm_network" where
  "n_emit x n = n\<lparr>net_out := net_out n @ [x]\<rparr>"

definition trans_upd :: "nat \<Rightarrow> (gsm_trans \<Rightarrow> gsm_trans) \<Rightarrow> 'h gsm_network \<Rightarrow> 'h gsm_network" where
  "trans_upd t f n = n\<lparr>net_trans := (net_trans n)(t := map_option f (net_trans n t))\<rparr>"

text \<open>An operation of the subscriber store inside the network.\<close>

definition with_vlr :: "('h vlr \<Rightarrow> 'h vlr option) \<Rightarrow> 'h gsm_network \<Rightarrow> 'h gsm_network option" where
  "with_vlr f n = map_option (\<lambda>v. n\<lparr>net_vlr := v\<rparr>) (f (net_vlr n))"

subsection \<open>Finding transactions\<close>

text \<open>The functions that take a connection get its subscriber, \<open>msc_a_vsub(msc_a)\<close>.\<close>

definition trans_find_by_type :: "nat option \<Rightarrow> trans_type \<Rightarrow> 'h gsm_network \<Rightarrow> nat option option" where
  "trans_find_by_type vsub ty n = scan (net_trans n) (\<lambda>x. tr_vsub x = vsub \<and> tr_type x = ty) (trans_list n)"

definition trans_find_by_id :: "nat option \<Rightarrow> trans_type \<Rightarrow> nat \<Rightarrow> 'h gsm_network \<Rightarrow> nat option option" where
  "trans_find_by_id vsub ty tid n =
     scan (net_trans n) (\<lambda>x. tr_vsub x = vsub \<and> tr_type x = ty \<and> transaction_id x = tid) (trans_list n)"

definition trans_find_by_callref :: "trans_type \<Rightarrow> 32 word \<Rightarrow> 'h gsm_network \<Rightarrow> nat option option" where
  "trans_find_by_callref ty cr n = scan (net_trans n) (\<lambda>x. callref x = cr \<and> tr_type x = ty) (trans_list n)"

definition trans_find_by_sm_rp_mr :: "nat option \<Rightarrow> 8 word \<Rightarrow> 'h gsm_network \<Rightarrow> nat option option" where
  "trans_find_by_sm_rp_mr vsub mr n =
     scan (net_trans n) (\<lambda>x. tr_vsub x = vsub \<and> tr_type x = TRANS_SMS \<and> sm_rp_mr x = mr) (trans_list n)"

definition trans_has_conn :: "nat \<Rightarrow> 'h gsm_network \<Rightarrow> nat option option" where
  "trans_has_conn m n = scan (net_trans n) (\<lambda>x. tr_msc_a x = Some m) (trans_list n)"

definition trans_is_live :: "nat option \<Rightarrow> 'h gsm_network \<Rightarrow> bool option" where
  "trans_is_live to n =
     (case to of None \<Rightarrow> Some False
      | Some t \<Rightarrow> do {
          x \<leftarrow> net_trans n t;
          Some (if tr_magic x \<noteq> GSM_TRANS_MAGIC \<or> freeing x then False else t \<in> set (trans_list n)) })"

subsection \<open>Transaction identifiers\<close>

text \<open>
  The set of identifiers in use as a bit mask.  A shift by the width of \<open>unsigned int\<close> or more is
  undefined in C and \<open>None\<close> here.
\<close>

fun used_tid_bitmask :: "(nat \<Rightarrow> gsm_trans option) \<Rightarrow> nat option \<Rightarrow> nat \<Rightarrow> nat list \<Rightarrow> 32 word \<Rightarrow> 32 word option" where
  "used_tid_bitmask h vsub proto [] m = Some m"
| "used_tid_bitmask h vsub proto (t # ts) m = do {
     x \<leftarrow> h t;
     if tr_vsub x \<noteq> vsub \<or> proto \<noteq> trans_type_to_gsm48_proto (tr_type x) \<or> transaction_id x = TRANS_ID_UNASSIGNED
     then used_tid_bitmask h vsub proto ts m
     else if transaction_id x \<ge> 31 then None
     else used_tid_bitmask h vsub proto ts (or m (push_bit (transaction_id x) 1)) }"

text \<open>The highest identifier of 6 to 1 in use, or 0.\<close>

fun highest_tid :: "32 word \<Rightarrow> nat \<Rightarrow> nat" where
  "highest_tid m 0 = 0"
| "highest_tid m (Suc h) = (if and m (push_bit (Suc h) 1) \<noteq> 0 then Suc h else highest_tid m h)"

fun free_tid :: "32 word \<Rightarrow> nat \<Rightarrow> nat list \<Rightarrow> int" where
  "free_tid m h [] = - 1"
| "free_tid m h (i # is) = (let j = (h + i) mod 7 in if and m (push_bit j 1) = 0 then int j else free_tid m h is)"

definition trans_assign_trans_id :: "nat option \<Rightarrow> trans_type \<Rightarrow> 'h gsm_network \<Rightarrow> int option" where
  "trans_assign_trans_id vsub ty n =
     map_option (\<lambda>m. free_tid m (highest_tid m 6) [0..<7])
       (used_tid_bitmask (net_trans n) vsub (trans_type_to_gsm48_proto ty) (trans_list n) 0)"

subsection \<open>Allocation\<close>

text \<open>\<open>new\<close> is the address of the new object.\<close>

definition trans_alloc ::
    "'h vlr_lib \<Rightarrow> nat \<Rightarrow> nat option \<Rightarrow> trans_type \<Rightarrow> nat \<Rightarrow> 32 word \<Rightarrow> 'h gsm_network \<Rightarrow> ('h gsm_network \<times> nat option) option" where
  "trans_alloc B new vsub ty tid cr n =
     (if vsub = None \<and> ty \<noteq> TRANS_GCC \<and> ty \<noteq> TRANS_BCC then Some (n, None)
      else do {
        let x = \<lparr>tr_magic = GSM_TRANS_MAGIC, tr_type = ty, transaction_id = tid, tr_vsub = vsub, tr_msc_a = None,
                 callref = cr, call_id = new_call_id n, tr_paging_request = None, freeing = False, sm_rp_mr = 0\<rparr>;
        let n1 = n\<lparr>net_trans := (net_trans n)(new \<mapsto> x), new_call_id := new_call_id n + 1\<rparr>;
        n2 \<leftarrow> (case vsub of None \<Rightarrow> Some n1 | Some a \<Rightarrow> with_vlr (vlr_subscr_get B a (trans_vsub_use ty)) n1);
        Some (n2\<lparr>trans_list := trans_list n2 @ [new]\<rparr>, Some new) })"

subsection \<open>Paging requests\<close>

text \<open>
  \<open>llist_del()\<close> takes the entry out of the list it is in, the request list of one of the subscribers.
\<close>

definition unlink_request :: "nat \<Rightarrow> 'h vlr \<Rightarrow> 'h vlr" where
  "unlink_request p v = v\<lparr>v_heap := (\<lambda>a. map_option (\<lambda>s. s\<lparr>vs_requests := remove1 p (vs_requests s)\<rparr>) (v_heap v a))\<rparr>"

definition paging_request_remove :: "nat \<Rightarrow> 'h gsm_network \<Rightarrow> 'h gsm_network option" where
  "paging_request_remove p n = do {
     r \<leftarrow> net_pr n p;
     n1 \<leftarrow> (case pr_trans r of None \<Rightarrow> Some n
            | Some t \<Rightarrow> do {
                x \<leftarrow> net_trans n t;
                Some (if tr_paging_request x = Some p then trans_upd t (\<lambda>x. x\<lparr>tr_paging_request := None\<rparr>) n else n) });
     Some (n1\<lparr>net_vlr := unlink_request p (net_vlr n1), net_pr := (net_pr n1)(p := None)\<rparr>) }"

text \<open>
  \<open>page\<close> gives what the RAN peers or the SGs interface answer: the number of paging requests delivered.
\<close>

definition msc_paging_request :: "(rat_type \<Rightarrow> nat \<Rightarrow> paging_cause \<Rightarrow> int) \<Rightarrow> rat_type \<Rightarrow> nat \<Rightarrow> paging_cause \<Rightarrow> int" where
  "msc_paging_request page via a cause = (case via of RAT_UNKNOWN \<Rightarrow> - 22 | _ \<Rightarrow> page via a cause)"

definition paging_request_start ::
    "'h vlr_lib \<Rightarrow> (rat_type \<Rightarrow> nat \<Rightarrow> paging_cause \<Rightarrow> int) \<Rightarrow> nat \<Rightarrow> nat \<Rightarrow> paging_cause \<Rightarrow> nat option \<Rightarrow> nat option \<Rightarrow> string
      \<Rightarrow> 'h gsm_network \<Rightarrow> ('h gsm_network \<times> nat option) option" where
  "paging_request_start B page new a cause cb to label n = do {
     s \<leftarrow> vsub_get a (net_vlr n);
     let r = \<lparr>pr_label = label, pr_cause = cause, pr_cb = cb, pr_trans = to\<rparr>;
     if \<not> vs_is_paging s \<and> msc_paging_request page (vs_attached_via s) a cause \<le> 0 then Some (n, None)
     else do {
       n1 \<leftarrow> (if vs_is_paging s then Some n
              else do {
                n' \<leftarrow> with_vlr (vlr_subscr_get B a VSUB_USE_PAGING) n;
                with_vlr (vsub_upd a (\<lambda>s. s\<lparr>vs_is_paging := True, vs_paging_timer := True\<rparr>)) n' });
       n2 \<leftarrow> with_vlr (vsub_upd a (\<lambda>s. s\<lparr>vs_requests := vs_requests s @ [new]\<rparr>)) n1;
       Some (n2\<lparr>net_pr := (net_pr n2)(new \<mapsto> r)\<rparr>, Some new) } }"

text \<open>The walk over the requests; each is removed before its callback is called.\<close>

fun conclude_loop :: "nat option \<Rightarrow> nat list \<Rightarrow> 'h gsm_network \<Rightarrow> 'h gsm_network option" where
  "conclude_loop m [] n = Some n"
| "conclude_loop m (p # ps) n = do {
     r \<leftarrow> net_pr n p;
     n1 \<leftarrow> paging_request_remove p n;
     conclude_loop m ps (case pr_cb r of None \<Rightarrow> n1 | Some cb \<Rightarrow> n_emit (CALL_PAGING_CB cb m (pr_trans r)) n1) }"

definition paging_concludes :: "'h vlr_lib \<Rightarrow> nat option \<Rightarrow> nat option \<Rightarrow> 'h gsm_network \<Rightarrow> 'h gsm_network option" where
  "paging_concludes B vsub m n =
     (case vsub of None \<Rightarrow> Some n
      | Some a \<Rightarrow> do {
          n1 \<leftarrow> with_vlr (vsub_upd a (\<lambda>s. s\<lparr>vs_paging_timer := False\<rparr>)) n;
          s \<leftarrow> vsub_get a (net_vlr n1);
          n2 \<leftarrow> conclude_loop m (vs_requests s) n1;
          let n3 = n_emit (SIGNAL_PAGING a m) n2;
          s3 \<leftarrow> vsub_get a (net_vlr n3);
          n4 \<leftarrow> (if vs_is_paging s3 then do {
                   n' \<leftarrow> with_vlr (vsub_upd a (\<lambda>s. s\<lparr>vs_is_paging := False\<rparr>)) n3;
                   with_vlr (vlr_subscr_put B a VSUB_USE_PAGING) n' }
                 else Some n3);
          Some (case m of None \<Rightarrow> n4 | Some c \<Rightarrow> n_emit (MSC_A_PUT c ''paging-response'') n4) })"

definition paging_response :: "'h vlr_lib \<Rightarrow> nat option \<Rightarrow> nat \<Rightarrow> 'h gsm_network \<Rightarrow> 'h gsm_network option" where
  "paging_response B vsub m n = paging_concludes B vsub (Some m) n"

definition paging_expired :: "'h vlr_lib \<Rightarrow> nat option \<Rightarrow> 'h gsm_network \<Rightarrow> 'h gsm_network option" where
  "paging_expired B vsub n = paging_concludes B vsub None n"

definition paging_response_timer_cb :: "'h vlr_lib \<Rightarrow> nat \<Rightarrow> 'h gsm_network \<Rightarrow> 'h gsm_network option" where
  "paging_response_timer_cb B a n = do {
     n1 \<leftarrow> with_vlr (vlr_subscr_get B a ''paging_response_timer_cb'') n;
     s \<leftarrow> vsub_get a (net_vlr n1);
     let n2 = (if vs_attached_via s = RAT_EUTRAN_SGS then n_emit (CALL_SGS_SERV_ABRT a) n1 else n1);
     n3 \<leftarrow> paging_expired B (Some a) n2;
     with_vlr (vlr_subscr_put B a ''paging_response_timer_cb'') n3 }"

subsection \<open>Release\<close>

definition trans_usage_token :: "trans_type \<Rightarrow> string" where
  "trans_usage_token ty =
     (case ty of TRANS_GCC \<Rightarrow> ''gcc'' | TRANS_BCC \<Rightarrow> ''bcc'' | TRANS_CC \<Rightarrow> ''cc'' | TRANS_SMS \<Rightarrow> ''sms''
      | TRANS_USSD \<Rightarrow> ''nc_ss'' | TRANS_SILENT_CALL \<Rightarrow> ''silent_call'')"

definition trans_free :: "'h vlr_lib \<Rightarrow> nat option \<Rightarrow> 'h gsm_network \<Rightarrow> 'h gsm_network option" where
  "trans_free B to n =
     (case to of None \<Rightarrow> Some n
      | Some t \<Rightarrow> do {
          x \<leftarrow> net_trans n t;
          if tr_magic x \<noteq> GSM_TRANS_MAGIC \<or> freeing x then Some n
          else do {
            let n1 = (trans_upd t (\<lambda>x. x\<lparr>freeing := True\<rparr>) n)\<lparr>trans_list := remove1 t (trans_list n)\<rparr>;
            let n2 = n_emit (CALL_TRANS_CLEANUP (tr_type x) t) n1;
            n3 \<leftarrow> (case tr_paging_request x of None \<Rightarrow> Some n2
                   | Some p \<Rightarrow> map_option (trans_upd t (\<lambda>x. x\<lparr>tr_paging_request := None\<rparr>)) (paging_request_remove p n2));
            let n4 = trans_upd t (\<lambda>x. x\<lparr>tr_vsub := None\<rparr>) n3;
            n5 \<leftarrow> (case tr_vsub x of None \<Rightarrow> Some n4
                   | Some a \<Rightarrow> do {
                       s \<leftarrow> vsub_get a (net_vlr n4);
                       if uc_by B (trans_vsub_use (tr_type x)) (vs_uses s) \<noteq> 0
                       then with_vlr (vlr_subscr_put B a (trans_vsub_use (tr_type x))) n4 else Some n4 });
            let n6 = n5\<lparr>net_trans := (net_trans n5)(t := None)\<rparr>;
            Some (case tr_msc_a x of None \<Rightarrow> n6 | Some m \<Rightarrow> n_emit (MSC_A_PUT m (trans_usage_token (tr_type x))) n6) } })"

partial_function (option) trans_conn_closed_loop :: "'h vlr_lib \<Rightarrow> nat \<Rightarrow> 'h gsm_network \<Rightarrow> 'h gsm_network option" where
  "trans_conn_closed_loop B m n = do {
     found \<leftarrow> trans_has_conn m n;
     (case found of None \<Rightarrow> Some n
      | Some t \<Rightarrow> do { n1 \<leftarrow> trans_free B (Some t) n; trans_conn_closed_loop B m n1 }) }"

definition trans_conn_closed :: "'h vlr_lib \<Rightarrow> nat option \<Rightarrow> 'h gsm_network \<Rightarrow> 'h gsm_network option" where
  "trans_conn_closed B mo n =
     (case mo of None \<Rightarrow> Some n
      | Some m \<Rightarrow> map_option (n_emit (MSC_A_PUT m ''trans_conn_closed''))
                    (trans_conn_closed_loop B m (n_emit (MSC_A_GET m ''trans_conn_closed'') n)))"

partial_function (option) trans_free_for_vsub :: "'h vlr_lib \<Rightarrow> nat \<Rightarrow> 'h gsm_network \<Rightarrow> 'h gsm_network option" where
  "trans_free_for_vsub B a n = do {
     found \<leftarrow> scan (net_trans n) (\<lambda>x. tr_vsub x = Some a) (trans_list n);
     (case found of None \<Rightarrow> Some n
      | Some t \<Rightarrow> do { n1 \<leftarrow> trans_free B (Some t) n; trans_free_for_vsub B a n1 }) }"

end
