(* ===== verification/Transaction_Inv.thy ===== *)
theory Transaction_Inv
  imports Transaction
begin

text \<open>
  The invariant that ties transactions, paging requests and subscriber references together, and what
  releasing transactions, assigning identifiers and concluding a paging guarantee.
\<close>

subsection \<open>Transaction identifiers\<close>

text \<open>An identifier is in use when a transaction of the same subscriber and protocol has it.\<close>

definition tid_used :: "(nat \<Rightarrow> gsm_trans option) \<Rightarrow> nat option \<Rightarrow> nat \<Rightarrow> nat list \<Rightarrow> nat \<Rightarrow> bool" where
  "tid_used h vsub proto ts j \<longleftrightarrow> (\<exists>t\<in>set ts. \<exists>x. h t = Some x \<and> tr_vsub x = vsub
     \<and> proto = trans_type_to_gsm48_proto (tr_type x) \<and> transaction_id x = j)"

lemma mask_bit: "(and m (push_bit j 1) \<noteq> 0) = bit (m :: 32 word) j" if "j < 32"
  using that by (simp add: bit_iff_and_push_bit_not_eq_0)

lemma used_tid_bitmask_bits:
  assumes "\<And>t. t \<in> set ts \<Longrightarrow> \<exists>x. h t = Some x \<and> (transaction_id x < 16 \<or> transaction_id x = TRANS_ID_UNASSIGNED)"
  shows "\<exists>m'. used_tid_bitmask h vsub proto ts m = Some m' \<and> (\<forall>j<16. bit m' j \<longleftrightarrow> bit m j \<or> tid_used h vsub proto ts j)"
  using assms
proof (induction ts arbitrary: m)
  case Nil
  then show ?case by (simp add: tid_used_def)
next
  case (Cons t ts)
  obtain x where x: "h t = Some x" "transaction_id x < 16 \<or> transaction_id x = TRANS_ID_UNASSIGNED"
    using Cons.prems [of t] by auto
  let ?skip = "tr_vsub x \<noteq> vsub \<or> proto \<noteq> trans_type_to_gsm48_proto (tr_type x) \<or> transaction_id x = TRANS_ID_UNASSIGNED"
  have used: "tid_used h vsub proto (t # ts) j \<longleftrightarrow> (\<not> ?skip \<and> transaction_id x = j) \<or> tid_used h vsub proto ts j" if "j < 16" for j
    using x(1) that by (auto simp: tid_used_def)
  show ?case
  proof (cases ?skip)
    case True
    obtain m' where m': "used_tid_bitmask h vsub proto ts m = Some m'" "\<forall>j<16. bit m' j \<longleftrightarrow> bit m j \<or> tid_used h vsub proto ts j"
      using Cons.IH [of m] Cons.prems by auto
    then show ?thesis using True x(1) used by (intro exI [of _ m']) auto
  next
    case False
    let ?m = "or m (push_bit (transaction_id x) 1)"
    obtain m' where m': "used_tid_bitmask h vsub proto ts ?m = Some m'" "\<forall>j<16. bit m' j \<longleftrightarrow> bit ?m j \<or> tid_used h vsub proto ts j"
      using Cons.IH [of ?m] Cons.prems by auto
    moreover have "bit ?m j \<longleftrightarrow> bit m j \<or> transaction_id x = j" if "j < 16" for j
      using that by (auto simp: bit_or_iff bit_exp_iff)
    ultimately show ?thesis using False x used by (intro exI [of _ m']) auto
  qed
qed

lemma free_tid_spec:
  "(free_tid m h is = - 1 \<and> (\<forall>i\<in>set is. bit m ((h + i) mod 7)))
    \<or> (\<exists>j<7. free_tid m h is = int j \<and> \<not> bit m j \<and> (\<exists>i\<in>set is. j = (h + i) mod 7))"
proof (induction "is")
  case (Cons i "is")
  have "(and m (push_bit ((h + i) mod 7) 1) = 0) = (\<not> bit m ((h + i) mod 7))"
    using mask_bit [of "(h + i) mod 7" m] mod_less_divisor [of 7 "h + i"] by linarith
  with Cons show ?case by (auto simp: Let_def)
qed simp

lemma mod7_cover: "j < 7 \<Longrightarrow> \<exists>i\<in>set [0..<7]. (h + i) mod 7 = (j :: nat)"
proof -
  assume "j < 7"
  then have "(h + (j + 6 * h) mod 7) mod 7 = j" by presburger
  then show ?thesis by (intro bexI [of _ "(j + 6 * h) mod 7"]) simp_all
qed

text \<open>
  C17: \<open>trans_assign_trans_id()\<close> returns an identifier from 0 to 6 that no transaction of this subscriber and
  protocol uses, and it returns -1 only when all seven are in use.
\<close>

theorem assign_trans_id_free:
  assumes "\<forall>t\<in>set (trans_list n). \<exists>x. net_trans n t = Some x \<and> (transaction_id x < 16 \<or> transaction_id x = TRANS_ID_UNASSIGNED)"
  shows "\<exists>r. trans_assign_trans_id vsub ty n = Some r
    \<and> (r = - 1 \<longleftrightarrow> (\<forall>j<7. tid_used (net_trans n) vsub (trans_type_to_gsm48_proto ty) (trans_list n) j))
    \<and> (r \<noteq> - 1 \<longrightarrow> (\<exists>j<7. r = int j \<and> \<not> tid_used (net_trans n) vsub (trans_type_to_gsm48_proto ty) (trans_list n) j))"
proof -
  let ?used = "tid_used (net_trans n) vsub (trans_type_to_gsm48_proto ty) (trans_list n)"
  obtain m where m: "used_tid_bitmask (net_trans n) vsub (trans_type_to_gsm48_proto ty) (trans_list n) 0 = Some m"
    "\<forall>j<16. bit m j \<longleftrightarrow> ?used j"
    using used_tid_bitmask_bits [of "trans_list n" "net_trans n" vsub "trans_type_to_gsm48_proto ty" 0] assms by auto
  let ?h = "highest_tid m 6"
  have "(free_tid m ?h [0..<7] = - 1 \<and> (\<forall>j<7. bit m j)) \<or> (\<exists>j<7. free_tid m ?h [0..<7] = int j \<and> \<not> bit m j)"
    using free_tid_spec [of m ?h "[0..<7]"] mod7_cover [of _ ?h] by metis
  with m show ?thesis by (auto simp: trans_assign_trans_id_def)
qed

definition trans_ex :: "nat \<Rightarrow> nat \<Rightarrow> gsm_trans" where
  "trans_ex a tid = \<lparr>tr_magic = GSM_TRANS_MAGIC, tr_type = TRANS_CC, transaction_id = tid, tr_vsub = Some a, tr_msc_a = Some 70,
     callref = 1, call_id = 1, tr_paging_request = None, freeing = False, sm_rp_mr = 0\<rparr>"

definition net_ex :: "(nat \<times> 32 word) list gsm_network" where
  "net_ex = \<lparr>net_vlr = store_ex\<lparr>v_heap := [1 \<mapsto> sub_attached\<lparr>vs_uses := [(VSUB_USE_ATTACHED, 1), (''CC'', 2)]\<rparr>, 2 \<mapsto> sub_new]\<rparr>,
     net_trans = [10 \<mapsto> trans_ex 1 0, 11 \<mapsto> trans_ex 1 6], trans_list = [10, 11], net_pr = (\<lambda>_. None), new_call_id = 3, net_out = []\<rparr>"

theorem assign_trans_id_free_witness:
  "\<exists>r. trans_assign_trans_id (Some 1) TRANS_CC net_ex = Some r
    \<and> (r \<noteq> - 1 \<longrightarrow> (\<exists>j<7. r = int j \<and> \<not> tid_used (net_trans net_ex) (Some 1) 3 (trans_list net_ex) j))"
  using assign_trans_id_free [of net_ex "Some 1" TRANS_CC]
  by (simp add: net_ex_def trans_ex_def trans_type_to_gsm48_proto_def) blast

subsection \<open>Invariant\<close>

definition trans_refs :: "(nat \<Rightarrow> gsm_trans option) \<Rightarrow> nat \<Rightarrow> string \<Rightarrow> nat \<Rightarrow> bool" where
  "trans_refs h a u t = (case h t of None \<Rightarrow> False | Some x \<Rightarrow> tr_vsub x = Some a \<and> trans_vsub_use (tr_type x) = u)"

definition trans_ok :: "'h gsm_network \<Rightarrow> nat \<Rightarrow> gsm_trans \<Rightarrow> bool" where
  "trans_ok n t x \<longleftrightarrow> tr_magic x = GSM_TRANS_MAGIC \<and> \<not> freeing x
     \<and> (\<forall>a. tr_vsub x = Some a \<longrightarrow> v_heap (net_vlr n) a \<noteq> None)
     \<and> (\<forall>p. tr_paging_request x = Some p \<longrightarrow> (\<exists>r. net_pr n p = Some r \<and> pr_trans r = Some t))"

text \<open>A request points to a transaction that points back; a subscriber with requests is being paged.\<close>

definition paging_ok :: "'h gsm_network \<Rightarrow> bool" where
  "paging_ok n \<longleftrightarrow>
     (\<forall>p r t. net_pr n p = Some r \<longrightarrow> pr_trans r = Some t \<longrightarrow> (\<exists>x. net_trans n t = Some x \<and> tr_paging_request x = Some p))
     \<and> (\<forall>a s. v_heap (net_vlr n) a = Some s \<longrightarrow> distinct (vs_requests s) \<and> (\<forall>p\<in>set (vs_requests s). net_pr n p \<noteq> None)
          \<and> (vs_requests s \<noteq> [] \<longrightarrow> vs_is_paging s))
     \<and> (\<forall>a b s s'. v_heap (net_vlr n) a = Some s \<longrightarrow> v_heap (net_vlr n) b = Some s' \<longrightarrow> a \<noteq> b \<longrightarrow> set (vs_requests s) \<inter> set (vs_requests s') = {})"

definition net_inv :: "'h vlr_lib \<Rightarrow> 'h gsm_network \<Rightarrow> bool" where
  "net_inv B n \<longleftrightarrow> vlr_inv B (net_vlr n) \<and> distinct (trans_list n) \<and> set (trans_list n) = dom (net_trans n)
     \<and> (\<forall>t x. net_trans n t = Some x \<longrightarrow> trans_ok n t x)
     \<and> (\<forall>a s u. v_heap (net_vlr n) a = Some s \<longrightarrow> int (length (filter (trans_refs (net_trans n) a u) (trans_list n))) \<le> uc_by B u (vs_uses s))
     \<and> paging_ok n"

lemma net_inv_emit [simp]: "net_inv B (n_emit x n) = net_inv B n"
  by (simp add: net_inv_def n_emit_def trans_ok_def paging_ok_def)

lemma n_emit_simps [simp]: "net_vlr (n_emit x n) = net_vlr n" "net_trans (n_emit x n) = net_trans n"
  "trans_list (n_emit x n) = trans_list n" "net_pr (n_emit x n) = net_pr n" "net_out (n_emit x n) = net_out n @ [x]"
  by (simp_all add: n_emit_def)

lemma trans_vsub_use_not_special:
  "trans_vsub_use ty \<noteq> VSUB_USE_ATTACHED" "trans_vsub_use ty \<noteq> VSUB_USE_PAGING" "trans_vsub_use ty \<noteq> VSUB_USE_SGS_PAGING_REQ"
  by (cases ty; simp add: trans_vsub_use_def trans_type_names_def)+

subsection \<open>Removing a request\<close>

lemma unlink_heap: "v_heap (unlink_request p v) a = map_option (\<lambda>s. s\<lparr>vs_requests := remove1 p (vs_requests s)\<rparr>) (v_heap v a)"
  by (simp add: unlink_request_def)

lemma unlink_inv:
  assumes "vlr_inv B v"
  shows "vlr_inv B (unlink_request p v)"
proof -
  have heap: "(v_heap (unlink_request p v) a = Some s) = (\<exists>s0. v_heap v a = Some s0 \<and> s = s0\<lparr>vs_requests := remove1 p (vs_requests s0)\<rparr>)" for a s
    by (auto simp: unlink_heap)
  have "lu_set (v_heap (unlink_request p v)) = lu_set (v_heap v)" by (auto simp: lu_set_def heap)
  moreover have "dom (v_heap (unlink_request p v)) = dom (v_heap v)" by (auto simp: dom_def unlink_heap)
  moreover have "Option.bind (v_heap (unlink_request p v) a) key = Option.bind (v_heap v a) key"
    if "\<And>s. key (s\<lparr>vs_requests := remove1 p (vs_requests s)\<rparr>) = key s" for a and key :: "vlr_subscr \<Rightarrow> 32 word option"
    using that by (cases "v_heap v a") (simp_all add: unlink_heap)
  then have "hash_ok B key (v_heap (unlink_request p v)) t = hash_ok B key (v_heap v) t"
    if "\<And>s. key (s\<lparr>vs_requests := remove1 p (vs_requests s)\<rparr>) = key s" for key t
    using that by (simp add: hash_ok_def)
  moreover have "imsi_unique (v_heap (unlink_request p v))"
    using assms unfolding vlr_inv_def imsi_unique_def heap by auto
  moreover have "vsub_ok B s" if "v_heap (unlink_request p v) a = Some s" for a s
    using that assms by (auto simp: heap vlr_inv_def vsub_ok_def)
  moreover have "v_list (unlink_request p v) = v_list v" "v_count (unlink_request p v) = v_count v" "v_by_imsi (unlink_request p v) = v_by_imsi v"
    "v_by_tmsi (unlink_request p v) = v_by_tmsi v" "v_by_tmsi_new (unlink_request p v) = v_by_tmsi_new v" "v_lu_complete (unlink_request p v) = v_lu_complete v"
    by (simp_all add: unlink_request_def)
  ultimately show ?thesis
    using assms unfolding vlr_inv_def by (simp add: imsi_key_def tmsi_key_def tmsi_new_key_def)
qed

subsection \<open>Releasing a transaction\<close>

text \<open>The two parts of \<open>trans_free()\<close> that touch the subscriber store.\<close>

definition unlink_of :: "gsm_trans \<Rightarrow> 'h vlr \<Rightarrow> 'h vlr" where
  "unlink_of x v = (case tr_paging_request x of None \<Rightarrow> v | Some p \<Rightarrow> unlink_request p v)"

definition drop_ref :: "'h vlr_lib \<Rightarrow> gsm_trans \<Rightarrow> 'h vlr \<Rightarrow> 'h vlr option" where
  "drop_ref B x v = (case tr_vsub x of None \<Rightarrow> Some v
     | Some a \<Rightarrow> do { s \<leftarrow> vsub_get a v;
         if uc_by B (trans_vsub_use (tr_type x)) (vs_uses s) \<noteq> 0 then vlr_subscr_put B a (trans_vsub_use (tr_type x)) v else Some v })"

definition freed_net :: "nat \<Rightarrow> gsm_trans \<Rightarrow> 'h vlr \<Rightarrow> 'h gsm_network \<Rightarrow> 'h gsm_network \<Rightarrow> bool" where
  "freed_net t x v n n' \<longleftrightarrow> net_vlr n' = v \<and> net_trans n' = (net_trans n)(t := None) \<and> trans_list n' = remove1 t (trans_list n)
     \<and> net_pr n' = (case tr_paging_request x of None \<Rightarrow> net_pr n | Some p \<Rightarrow> (net_pr n)(p := None))"

lemma trans_free_eq:
  assumes "net_trans n t = Some x" and "trans_ok n t x" and "drop_ref B x (unlink_of x (net_vlr n)) = Some v"
  obtains n' where "trans_free B (Some t) n = Some n'" "freed_net t x v n n'"
proof -
  define n2 where "n2 = n_emit (CALL_TRANS_CLEANUP (tr_type x) t) ((trans_upd t (\<lambda>x. x\<lparr>freeing := True\<rparr>) n)\<lparr>trans_list := remove1 t (trans_list n)\<rparr>)"
  define n3 where "n3 = trans_upd t (\<lambda>x. x\<lparr>tr_paging_request := None\<rparr>) (n2\<lparr>net_vlr := unlink_of x (net_vlr n),
    net_pr := (case tr_paging_request x of None \<Rightarrow> net_pr n | Some p \<Rightarrow> (net_pr n)(p := None))\<rparr>)"
  have e3: "(case tr_paging_request x of None \<Rightarrow> Some n2
       | Some p \<Rightarrow> map_option (trans_upd t (\<lambda>x. x\<lparr>tr_paging_request := None\<rparr>)) (paging_request_remove p n2)) = Some n3"
  proof (cases "tr_paging_request x")
    case None
    then show ?thesis using assms(1) by (cases x) (simp add: n3_def n2_def unlink_of_def trans_upd_def n_emit_def)
  next
    case (Some p)
    then obtain r where "net_pr n p = Some r" "pr_trans r = Some t" using assms(2) by (auto simp: trans_ok_def)
    then show ?thesis
      using Some assms(1) by (simp add: paging_request_remove_def n3_def n2_def unlink_of_def trans_upd_def n_emit_def)
  qed
  define n4 where "n4 = trans_upd t (\<lambda>x. x\<lparr>tr_vsub := None\<rparr>) n3"
  have v4: "net_vlr n4 = unlink_of x (net_vlr n)" by (simp add: n4_def n3_def trans_upd_def)
  have e5: "(case tr_vsub x of None \<Rightarrow> Some n4
       | Some a \<Rightarrow> do { s \<leftarrow> vsub_get a (net_vlr n4);
           if uc_by B (trans_vsub_use (tr_type x)) (vs_uses s) \<noteq> 0
           then with_vlr (vlr_subscr_put B a (trans_vsub_use (tr_type x))) n4 else Some n4 }) = Some (n4\<lparr>net_vlr := v\<rparr>)"
    using assms(3) unfolding v4 drop_ref_def
    by (cases "tr_vsub x"; cases "vsub_get (the (tr_vsub x)) (unlink_of x (net_vlr n))") (auto simp: with_vlr_def v4 [symmetric])
  define n6 where "n6 = (n4\<lparr>net_vlr := v\<rparr>)\<lparr>net_trans := (net_trans n4)(t := None)\<rparr>"
  define n' where "n' = (case tr_msc_a x of None \<Rightarrow> n6 | Some m \<Rightarrow> n_emit (MSC_A_PUT m (trans_usage_token (tr_type x))) n6)"
  have "trans_free B (Some t) n = Some n'"
    using assms(2) unfolding trans_ok_def
    by (simp add: trans_free_def assms(1) Let_def e3 [unfolded n2_def] e5 [unfolded n4_def])
      (cases "tr_msc_a x", simp_all add: n'_def n6_def n4_def)
  moreover have "freed_net t x v n n'"
    by (cases "tr_msc_a x") (simp_all add: freed_net_def n'_def n6_def n4_def n3_def n2_def trans_upd_def n_emit_def)
  ultimately show thesis by (rule that)
qed

lemma trans_refs_count:
  assumes "net_inv B n" and "net_trans n t = Some x" and "tr_vsub x = Some a" and "v_heap (net_vlr n) a = Some s"
  shows "1 \<le> uc_by B (trans_vsub_use (tr_type x)) (vs_uses s)"
proof -
  let ?u = "trans_vsub_use (tr_type x)"
  have "t \<in> set (filter (trans_refs (net_trans n) a ?u) (trans_list n))"
    using assms(1-3) by (auto simp: trans_refs_def net_inv_def)
  then have "1 \<le> length (filter (trans_refs (net_trans n) a ?u) (trans_list n))" by (cases "filter (trans_refs (net_trans n) a ?u) (trans_list n)") auto
  moreover have "int (length (filter (trans_refs (net_trans n) a ?u) (trans_list n))) \<le> uc_by B ?u (vs_uses s)"
    using assms(1,4) by (simp add: net_inv_def)
  ultimately show ?thesis by linarith
qed

text \<open>What is left of the store: each remaining record, and why a record may have gone.\<close>

definition ref_dropped :: "'h vlr_lib \<Rightarrow> gsm_trans \<Rightarrow> 'h vlr \<Rightarrow> 'h vlr \<Rightarrow> bool" where
  "ref_dropped B x v v' \<longleftrightarrow>
     (\<forall>b s'. v_heap v' b = Some s' \<longrightarrow> (\<exists>s. v_heap v b = Some s \<and> vs_is_paging s' = vs_is_paging s
        \<and> vs_requests s' = (case tr_paging_request x of None \<Rightarrow> vs_requests s | Some p \<Rightarrow> remove1 p (vs_requests s))
        \<and> (\<forall>u. uc_by B u (vs_uses s') = uc_by B u (vs_uses s) - (if tr_vsub x = Some b \<and> u = trans_vsub_use (tr_type x) then 1 else 0))))
     \<and> (\<forall>b s. v_heap v b = Some s \<longrightarrow> v_heap v' b = None \<longrightarrow> tr_vsub x = Some b \<and> uc_total B (vs_uses s) = 1)"

lemma drop_ref_ok:
  assumes laws: "hash_laws B" "use_laws B" and inv: "net_inv B n" and t: "net_trans n t = Some x"
  obtains v where "drop_ref B x (unlink_of x (net_vlr n)) = Some v" "vlr_inv B v" "ref_dropped B x (net_vlr n) v"
proof -
  let ?v = "unlink_of x (net_vlr n)"
  let ?f = "\<lambda>s. s\<lparr>vs_requests := (case tr_paging_request x of None \<Rightarrow> vs_requests s | Some p \<Rightarrow> remove1 p (vs_requests s))\<rparr>"
  have v: "vlr_inv B ?v" using inv unlink_inv by (auto simp: net_inv_def unlink_of_def split: option.splits)
  have heap: "v_heap ?v b = map_option ?f (v_heap (net_vlr n) b)" for b
    by (cases "tr_paging_request x"; cases "v_heap (net_vlr n) b") (simp_all add: unlink_of_def unlink_heap)
  show thesis
  proof (cases "tr_vsub x")
    case None
    have "ref_dropped B x (net_vlr n) ?v" using None heap by (auto simp: ref_dropped_def)
    with that [of ?v] None v show thesis by (simp add: drop_ref_def)
  next
    case (Some a)
    then obtain s where s: "v_heap (net_vlr n) a = Some s" using inv t by (fastforce simp: net_inv_def trans_ok_def)
    let ?u = "trans_vsub_use (tr_type x)"
    have a: "v_heap ?v a = Some (?f s)" using s heap by simp
    have u: "1 \<le> uc_by B ?u (vs_uses (?f s))" using trans_refs_count [OF inv t Some s] by simp
    have eq: "drop_ref B x ?v = vlr_subscr_put B a ?u ?v" using Some a u by (simp add: drop_ref_def vsub_get_def)
    show thesis
    proof (rule put_ok [OF laws v a u])
      fix v' s' assume p: "vlr_subscr_put B a ?u ?v = Some v'" "vlr_inv B v'" "touched a ?v v'" "v_heap v' a = Some s'" "recounted (?f s) s'"
        "vs_uses s' = uc_change B ?u (- 1) (vs_uses (?f s))"
      have "\<exists>s0. v_heap (net_vlr n) b = Some s0 \<and> vs_is_paging s1 = vs_is_paging s0
          \<and> vs_requests s1 = (case tr_paging_request x of None \<Rightarrow> vs_requests s0 | Some p \<Rightarrow> remove1 p (vs_requests s0))
          \<and> (\<forall>w. uc_by B w (vs_uses s1) = uc_by B w (vs_uses s0) - (if tr_vsub x = Some b \<and> w = ?u then 1 else 0))" if "v_heap v' b = Some s1" for b s1
      proof (cases "b = a")
        case True
        then have "s1 = s'" using that p(4) by simp
        then show ?thesis using True s Some recountedD(6,11) [OF p(5)] p(6) by (simp add: use_lawsD [OF laws(2)])
      next
        case False
        then have "v_heap ?v b = Some s1" using that p(3) by (simp add: touched_def)
        then show ?thesis using False Some heap by auto
      qed
      moreover have "v_heap v' b \<noteq> None" if "v_heap (net_vlr n) b = Some s1" for b s1
        using that p(3,4) heap by (cases "b = a") (auto simp: touched_def)
      ultimately have "ref_dropped B x (net_vlr n) v'" unfolding ref_dropped_def by blast
      with that eq p(1,2) show thesis by simp
    next
      fix v' assume tot: "uc_total B (vs_uses (?f s)) = 1"
        and p: "vlr_subscr_put B a ?u ?v = Some v'" "vlr_inv B v'" "touched a ?v v'" "v_heap v' a = None"
      have keep: "v_heap v' b = map_option ?f (v_heap (net_vlr n) b)" if "b \<noteq> a" for b using that p(3) heap by (simp add: touched_def)
      have "tr_vsub x = Some b \<and> uc_total B (vs_uses s0) = 1" if "v_heap (net_vlr n) b = Some s0" "v_heap v' b = None" for b s0
        using that keep [of b] s Some tot by (cases "b = a") simp_all
      moreover have "\<exists>s0. v_heap (net_vlr n) b = Some s0 \<and> b \<noteq> a \<and> s1 = ?f s0" if "v_heap v' b = Some s1" for b s1
        using that keep [of b] p(4) by (cases "b = a") auto
      ultimately have "ref_dropped B x (net_vlr n) v'" using Some unfolding ref_dropped_def by fastforce
      with that eq p(1,2) show thesis by simp
    qed (use trans_vsub_use_not_special in simp_all)
  qed
qed

text \<open>Two transactions of one subscriber hold at least two references.\<close>

lemma two_refs:
  assumes "use_laws B" and "vsub_ok B s" and "1 \<le> uc_by B u (vs_uses s)" and "u \<noteq> w" and "1 \<le> uc_by B w (vs_uses s)"
  shows "2 \<le> uc_total B (vs_uses s)"
proof -
  have "uc_by B w (uc_change B u (- 1) (vs_uses s)) \<le> uc_total B (uc_change B u (- 1) (vs_uses s))"
    using assms(2,3) by (intro use_lawsD(5) [OF assms(1)]) (simp add: use_lawsD [OF assms(1)] vsub_ok_def)
  with assms(4,5) show ?thesis by (simp add: use_lawsD [OF assms(1)])
qed

lemma other_ref_alive:
  assumes "use_laws B" and inv: "net_inv B n" and t: "net_trans n t = Some x" and t': "t' \<noteq> t" "net_trans n t' = Some x'" "tr_vsub x' = Some a"
  shows "tr_vsub x = Some a \<longrightarrow> (\<forall>s. v_heap (net_vlr n) a = Some s \<longrightarrow> uc_total B (vs_uses s) \<noteq> 1)"
proof (intro impI allI)
  fix s assume a: "tr_vsub x = Some a" and s: "v_heap (net_vlr n) a = Some s"
  let ?u = "trans_vsub_use (tr_type x)" and ?w = "trans_vsub_use (tr_type x')"
  have ok: "vsub_ok B s" using inv s by (auto simp: net_inv_def vlr_inv_def)
  note u = trans_refs_count [OF inv t a s] and w = trans_refs_count [OF inv t'(2,3) s]
  show "uc_total B (vs_uses s) \<noteq> 1"
  proof (cases "?u = ?w")
    case False
    then show ?thesis using two_refs [OF assms(1) ok u False w] by simp
  next
    case True
    have "{t, t'} \<subseteq> set (filter (trans_refs (net_trans n) a ?u) (trans_list n))"
      using inv t t' a True by (auto simp: trans_refs_def net_inv_def)
    moreover have "distinct (filter (trans_refs (net_trans n) a ?u) (trans_list n))" using inv by (simp add: net_inv_def)
    ultimately have "card {t, t'} \<le> length (filter (trans_refs (net_trans n) a ?u) (trans_list n))"
      by (metis List.finite_set card_mono distinct_card)
    then have "2 \<le> length (filter (trans_refs (net_trans n) a ?u) (trans_list n))" using t'(1) by simp
    moreover have "int (length (filter (trans_refs (net_trans n) a ?u) (trans_list n))) \<le> uc_by B ?u (vs_uses s)"
      using inv s by (simp add: net_inv_def)
    ultimately show ?thesis using vsub_ok_total [OF assms(1) ok, of ?u] by linarith
  qed
qed

lemma filter_remove1_length:
  assumes "distinct ts" and "t \<in> set ts"
  shows "length (filter P (remove1 t ts)) = length (filter P ts) - (if P t then 1 else 0)"
  using assms by (simp add: filter_remove1 length_remove1)

lemma freed_count:
  assumes inv: "net_inv B n" and t: "net_trans n t = Some x" and v: "ref_dropped B x (net_vlr n) v" and s: "v_heap v a = Some s"
  shows "int (length (filter (trans_refs ((net_trans n)(t := None)) a u) (remove1 t (trans_list n)))) \<le> uc_by B u (vs_uses s)"
proof -
  obtain s0 where s0: "v_heap (net_vlr n) a = Some s0"
    "uc_by B u (vs_uses s) = uc_by B u (vs_uses s0) - (if tr_vsub x = Some a \<and> u = trans_vsub_use (tr_type x) then 1 else 0)"
    using v s unfolding ref_dropped_def by blast
  have l: "distinct (trans_list n)" "t \<in> set (trans_list n)" using inv t by (auto simp: net_inv_def)
  have c: "int (length (filter (trans_refs (net_trans n) a u) (trans_list n))) \<le> uc_by B u (vs_uses s0)" using inv s0(1) by (simp add: net_inv_def)
  have "filter (trans_refs ((net_trans n)(t := None)) a u) (remove1 t (trans_list n)) = filter (trans_refs (net_trans n) a u) (remove1 t (trans_list n))"
    using l(1) by (intro filter_cong) (auto simp: trans_refs_def)
  moreover have "trans_refs (net_trans n) a u t \<longleftrightarrow> tr_vsub x = Some a \<and> u = trans_vsub_use (tr_type x)" using t by (auto simp: trans_refs_def)
  moreover have "trans_refs (net_trans n) a u t \<Longrightarrow> int (length (filter (trans_refs (net_trans n) a u) (trans_list n)) - 1)
      = int (length (filter (trans_refs (net_trans n) a u) (trans_list n))) - 1"
    using l(2) by (cases "filter (trans_refs (net_trans n) a u) (trans_list n)") (auto simp: filter_empty_conv)
  ultimately show ?thesis using c s0(2) filter_remove1_length [OF l, of "trans_refs (net_trans n) a u"] by (auto split: if_splits)
qed

lemma freed_paging:
  assumes pr: "paging_ok n" and ok: "trans_ok n t x" and t: "net_trans n t = Some x" and v: "ref_dropped B x (net_vlr n) v" and n': "freed_net t x v n n'"
  shows "paging_ok n'"
proof -
  have eqs: "net_vlr n' = v" "net_trans n' = (net_trans n)(t := None)"
    "net_pr n' = (case tr_paging_request x of None \<Rightarrow> net_pr n | Some p \<Rightarrow> (net_pr n)(p := None))"
    using n' by (simp_all add: freed_net_def)
  have p1: "\<exists>y. net_trans n t1 = Some y \<and> tr_paging_request y = Some p" if "net_pr n p = Some r" "pr_trans r = Some t1" for p r t1
    using pr that unfolding paging_ok_def by blast
  have p2: "distinct (vs_requests s)" "\<forall>p\<in>set (vs_requests s). net_pr n p \<noteq> None" "vs_requests s \<noteq> [] \<longrightarrow> vs_is_paging s"
    if "v_heap (net_vlr n) a = Some s" for a s
    using pr that unfolding paging_ok_def by blast+
  have p3: "set (vs_requests s) \<inter> set (vs_requests s') = {}"
    if "v_heap (net_vlr n) a = Some s" "v_heap (net_vlr n) b = Some s'" "a \<noteq> b" for a b s s'
    using pr that unfolding paging_ok_def by blast
  let ?rm = "\<lambda>s. (case tr_paging_request x of None \<Rightarrow> vs_requests s | Some p \<Rightarrow> remove1 p (vs_requests s))"
  have orig: "\<exists>s. v_heap (net_vlr n) a = Some s \<and> vs_is_paging s' = vs_is_paging s \<and> vs_requests s' = ?rm s" if "v_heap v a = Some s'" for a s'
    using v that unfolding ref_dropped_def by blast
  have sub: "set (?rm s) \<subseteq> set (vs_requests s)" for s by (cases "tr_paging_request x") (simp_all add: set_remove1_subset)
  have new: "net_pr n' p \<noteq> None" if "v_heap (net_vlr n) a = Some s" "p \<in> set (?rm s)" for a s p
    using that p2(1,2) [OF that(1)] sub [of s] by (auto simp: eqs split: option.splits if_splits)
  have "\<exists>y. net_trans n' t1 = Some y \<and> tr_paging_request y = Some p" if r: "net_pr n' p = Some r" "pr_trans r = Some t1" for p r t1
  proof -
    have "net_pr n p = Some r" and np: "tr_paging_request x \<noteq> Some p" using r(1) by (auto simp: eqs split: option.splits if_splits)
    then obtain y where y: "net_trans n t1 = Some y" "tr_paging_request y = Some p" using p1 r(2) by blast
    then have "t1 \<noteq> t" using t np by auto
    with y show ?thesis by (simp add: eqs)
  qed
  moreover have "distinct (vs_requests s') \<and> (\<forall>p\<in>set (vs_requests s'). net_pr n' p \<noteq> None) \<and> (vs_requests s' \<noteq> [] \<longrightarrow> vs_is_paging s')"
    if s': "v_heap v a = Some s'" for a s'
  proof -
    obtain s where s: "v_heap (net_vlr n) a = Some s" "vs_is_paging s' = vs_is_paging s" "vs_requests s' = ?rm s" using orig [OF s'] by blast
    show ?thesis using p2(1,3) [OF s(1)] new [OF s(1)] s(2,3) by (auto split: option.splits)
  qed
  moreover have "set (vs_requests s1) \<inter> set (vs_requests s2) = {}" if ab: "v_heap v a = Some s1" "v_heap v b = Some s2" "a \<noteq> b" for a b s1 s2
  proof -
    obtain r1 r2 where "v_heap (net_vlr n) a = Some r1" "vs_requests s1 = ?rm r1" "v_heap (net_vlr n) b = Some r2" "vs_requests s2 = ?rm r2"
      using orig [OF ab(1)] orig [OF ab(2)] by blast
    then show ?thesis using p3 [of a r1 b r2] ab(3) sub [of r1] sub [of r2] by auto
  qed
  ultimately show ?thesis unfolding paging_ok_def eqs(1) by blast
qed

lemma freed_net_inv:
  assumes laws: "use_laws B" and inv: "net_inv B n" and t: "net_trans n t = Some x" and v: "vlr_inv B v" "ref_dropped B x (net_vlr n) v"
    and n': "freed_net t x v n n'"
  shows "net_inv B n'"
proof -
  have eqs: "net_vlr n' = v" "net_trans n' = (net_trans n)(t := None)" "trans_list n' = remove1 t (trans_list n)"
    "net_pr n' = (case tr_paging_request x of None \<Rightarrow> net_pr n | Some p \<Rightarrow> (net_pr n)(p := None))"
    using n' by (simp_all add: freed_net_def)
  have list: "distinct (trans_list n)" "set (trans_list n) = dom (net_trans n)" using inv by (simp_all add: net_inv_def)
  have ok: "trans_ok n t' x'" if "net_trans n t' = Some x'" for t' x' using inv that by (simp add: net_inv_def)
  have pr: "paging_ok n" using inv by (simp add: net_inv_def)
  have alive: "v_heap v a \<noteq> None" if "t' \<noteq> t" "net_trans n t' = Some x'" "tr_vsub x' = Some a" for t' x' a
    using other_ref_alive [OF laws inv t that] v(2) ok [OF that(2)] that(3) by (fastforce simp: trans_ok_def ref_dropped_def)
  have "trans_ok n' t' x'" if "t' \<noteq> t" "net_trans n t' = Some x'" for t' x'
    using ok [OF that(2)] ok [OF t] alive [OF that] that(1) unfolding trans_ok_def eqs by (auto split: option.splits)
  moreover have "int (length (filter (trans_refs (net_trans n') a u) (trans_list n'))) \<le> uc_by B u (vs_uses s)"
    if "v_heap v a = Some s" for a s u
    using freed_count [OF inv t v(2) that, of u] by (simp add: eqs)
  moreover have "paging_ok n'" by (rule freed_paging [OF pr ok [OF t] t v(2) n'])
  ultimately show ?thesis
    unfolding net_inv_def using v(1) list by (auto simp: eqs split: if_splits)
qed

lemma trans_free_ok:
  assumes "hash_laws B" and "use_laws B" and "net_inv B n" and "net_trans n t = Some x"
  shows "\<exists>n'. trans_free B (Some t) n = Some n' \<and> net_inv B n' \<and> trans_list n' = remove1 t (trans_list n)
    \<and> net_trans n' = (net_trans n)(t := None)"
proof -
  obtain v where v: "drop_ref B x (unlink_of x (net_vlr n)) = Some v" "vlr_inv B v" "ref_dropped B x (net_vlr n) v"
    by (rule drop_ref_ok [OF assms])
  have "trans_ok n t x" using assms(3,4) by (simp add: net_inv_def)
  from trans_free_eq [OF assms(4) this v(1)] obtain n' where n': "trans_free B (Some t) n = Some n'" "freed_net t x v n n'" .
  then show ?thesis using freed_net_inv [OF assms(2-4) v(2,3) n'(2)] by (auto simp: freed_net_def)
qed


lemma net_inv_scan:
  assumes "net_inv B n"
  shows "scan (net_trans n) P (trans_list n) = Some (find (\<lambda>t. \<exists>x. net_trans n t = Some x \<and> P x) (trans_list n))"
  using assms by (intro scan_find) (auto simp: net_inv_def)

text \<open>The loops that free every transaction with a property, one at a time from the head of the list.\<close>

definition trans_sat :: "(gsm_trans \<Rightarrow> bool) \<Rightarrow> (nat \<Rightarrow> gsm_trans option) \<Rightarrow> nat \<Rightarrow> bool" where
  "trans_sat P h t = (case h t of None \<Rightarrow> False | Some x \<Rightarrow> P x)"

lemma free_matching:
  assumes laws: "hash_laws B" "use_laws B"
    and loop: "\<And>n. loop n = do { found \<leftarrow> scan (net_trans n) P (trans_list n);
       (case found of None \<Rightarrow> Some n | Some t \<Rightarrow> do { n1 \<leftarrow> trans_free B (Some t) n; loop n1 }) }"
  shows "net_inv B n \<Longrightarrow> \<exists>n'. loop n = Some n' \<and> net_inv B n' \<and> trans_list n' = filter (\<lambda>t. \<not> trans_sat P (net_trans n) t) (trans_list n)
    \<and> (\<forall>t\<in>set (trans_list n'). net_trans n' t = net_trans n t)"
proof (induction "length (trans_list n)" arbitrary: n rule: less_induct)
  case (less n)
  let ?r = "find (\<lambda>t. \<exists>x. net_trans n t = Some x \<and> P x) (trans_list n)"
  have scan: "scan (net_trans n) P (trans_list n) = Some ?r" by (rule net_inv_scan [OF less.prems])
  have list: "distinct (trans_list n)" "set (trans_list n) = dom (net_trans n)" using less.prems by (simp_all add: net_inv_def)
  show ?case
  proof (cases ?r)
    case None
    then have "filter (\<lambda>t. \<not> trans_sat P (net_trans n) t) (trans_list n) = trans_list n"
      by (auto simp: find_None_iff trans_sat_def filter_id_conv split: option.splits)
    with None scan less.prems show ?thesis by (subst loop) simp
  next
    case (Some t)
    then obtain x where x: "net_trans n t = Some x" "P x" and mem: "t \<in> set (trans_list n)" by (auto simp: find_Some_iff in_set_conv_nth)
    obtain n1 where n1: "trans_free B (Some t) n = Some n1" "net_inv B n1" "trans_list n1 = remove1 t (trans_list n)" "net_trans n1 = (net_trans n)(t := None)"
      using trans_free_ok [OF laws less.prems x(1)] by blast
    have "length (trans_list n1) < length (trans_list n)" using n1(3) mem length_pos_if_in_set [OF mem] by (simp add: length_remove1)
    from less.hyps [OF this n1(2)] obtain n' where n': "loop n1 = Some n'" "net_inv B n'"
      "trans_list n' = filter (\<lambda>t. \<not> trans_sat P (net_trans n1) t) (trans_list n1)" "\<forall>t\<in>set (trans_list n'). net_trans n' t = net_trans n1 t" by blast
    have "filter (\<lambda>u. \<not> trans_sat P (net_trans n1) u) (trans_list n1) = filter (\<lambda>u. \<not> trans_sat P (net_trans n) u) (remove1 t (trans_list n))"
      using list(1) unfolding n1(3,4) by (intro filter_cong) (auto simp: trans_sat_def)
    also have "\<dots> = filter (\<lambda>u. \<not> trans_sat P (net_trans n) u) (trans_list n)"
      using x by (simp add: filter_remove1 remove1_idem trans_sat_def)
    finally have l: "trans_list n' = filter (\<lambda>u. \<not> trans_sat P (net_trans n) u) (trans_list n)" using n'(3) by simp
    have "u \<noteq> t" if "u \<in> set (trans_list n')" for u using that x by (auto simp: l trans_sat_def)
    then have "\<forall>u\<in>set (trans_list n'). net_trans n' u = net_trans n u" using n'(4) n1(4) by simp
    moreover have "loop n = Some n'" using scan Some n1(1) n'(1) by (subst loop) simp
    ultimately show ?thesis using n'(2) l by blast
  qed
qed



subsection \<open>Concluding a paging\<close>

lemma request_remove_ok:
  assumes inv: "net_inv B n" and p: "net_pr n p = Some r"
  obtains n' where "paging_request_remove p n = Some n'" "net_inv B n'" "net_pr n' = (net_pr n)(p := None)" "net_out n' = net_out n"
    "trans_list n' = trans_list n" "net_vlr n' = unlink_request p (net_vlr n)"
    "\<And>t. net_trans n' t = map_option (\<lambda>x. if tr_paging_request x = Some p then x\<lparr>tr_paging_request := None\<rparr> else x) (net_trans n t)"
proof -
  let ?g = "\<lambda>x. if tr_paging_request x = Some p then x\<lparr>tr_paging_request := None\<rparr> else x"
  define n' where "n' = n\<lparr>net_trans := (\<lambda>t. map_option ?g (net_trans n t)), net_vlr := unlink_request p (net_vlr n), net_pr := (net_pr n)(p := None)\<rparr>"
  have ok: "trans_ok n t x" if "net_trans n t = Some x" for t x using inv that by (simp add: net_inv_def)
  have pr: "paging_ok n" using inv by (simp add: net_inv_def)
  have only: "pr_trans r = Some t" if "net_trans n t = Some x" "tr_paging_request x = Some p" for t x
    using ok [OF that(1)] that(2) p by (auto simp: trans_ok_def)
  have eq: "paging_request_remove p n = Some n'"
  proof (cases "pr_trans r")
    case None
    then have "map_option ?g (net_trans n t) = net_trans n t" for t using only by (cases "net_trans n t") auto
    with None p show ?thesis by (simp add: paging_request_remove_def n'_def)
  next
    case (Some t)
    then obtain x where x: "net_trans n t = Some x" "tr_paging_request x = Some p" using pr p unfolding paging_ok_def by blast
    have "map_option ?g (net_trans n u) = ((net_trans n)(t \<mapsto> x\<lparr>tr_paging_request := None\<rparr>)) u" for u
      using only [of u] Some x by (cases "net_trans n u") auto
    then have "(\<lambda>u. map_option ?g (net_trans n u)) = (net_trans n)(t \<mapsto> x\<lparr>tr_paging_request := None\<rparr>)" by (intro ext)
    with Some p x show ?thesis by (simp add: paging_request_remove_def n'_def trans_upd_def)
  qed
  have heap: "(v_heap (net_vlr n') a = Some s') = (\<exists>s. v_heap (net_vlr n) a = Some s \<and> s' = s\<lparr>vs_requests := remove1 p (vs_requests s)\<rparr>)" for a s'
    by (auto simp: n'_def unlink_heap)
  have refs: "trans_refs (net_trans n') = trans_refs (net_trans n)"
    by (intro ext) (auto simp: trans_refs_def n'_def split: option.splits)
  have dom: "dom (net_trans n') = dom (net_trans n)" by (auto simp: n'_def dom_def)
  have "trans_ok n' t x'" if x': "net_trans n' t = Some x'" for t x'
  proof -
    obtain x where x: "net_trans n t = Some x" "x' = ?g x" using x' by (auto simp: n'_def)
    have "v_heap (net_vlr n') a \<noteq> None" if "v_heap (net_vlr n) a \<noteq> None" for a using that by (simp add: n'_def unlink_heap)
    then show ?thesis using ok [OF x(1)] x(2) by (auto simp: trans_ok_def n'_def)
  qed
  moreover have "paging_ok n'"
  proof -
    have d: "distinct (vs_requests s)" "\<forall>q\<in>set (vs_requests s). net_pr n q \<noteq> None" "vs_requests s \<noteq> [] \<longrightarrow> vs_is_paging s"
      if "v_heap (net_vlr n) a = Some s" for a s using pr that unfolding paging_ok_def by blast+
    have "distinct (vs_requests s') \<and> (\<forall>q\<in>set (vs_requests s'). net_pr n' q \<noteq> None) \<and> (vs_requests s' \<noteq> [] \<longrightarrow> vs_is_paging s')"
      if s': "v_heap (net_vlr n') a = Some s'" for a s'
    proof -
      obtain s where s: "v_heap (net_vlr n) a = Some s" "s' = s\<lparr>vs_requests := remove1 p (vs_requests s)\<rparr>" using s' heap by blast
      show ?thesis using d [OF s(1)] s(2) by (auto simp: n'_def)
    qed
    moreover have "set (vs_requests s1) \<inter> set (vs_requests s2) = {}" if "v_heap (net_vlr n') a = Some s1" "v_heap (net_vlr n') b = Some s2" "a \<noteq> b" for a b s1 s2
    proof -
      have "set (vs_requests t1) \<inter> set (vs_requests t2) = {}" if "v_heap (net_vlr n) a = Some t1" "v_heap (net_vlr n) b = Some t2" for t1 t2
        using pr that \<open>a \<noteq> b\<close> unfolding paging_ok_def by blast
      then show ?thesis using that(1,2) set_remove1_subset [of p] unfolding heap by fastforce
    qed
    moreover have "\<exists>x. net_trans n' t = Some x \<and> tr_paging_request x = Some q" if q: "net_pr n' q = Some r'" "pr_trans r' = Some t" for q r' t
    proof -
      have "q \<noteq> p" "net_pr n q = Some r'" using q(1) by (auto simp: n'_def split: if_splits)
      then obtain x where "net_trans n t = Some x" "tr_paging_request x = Some q" using pr q(2) unfolding paging_ok_def by blast
      with \<open>q \<noteq> p\<close> show ?thesis by (simp add: n'_def)
    qed
    ultimately show ?thesis unfolding paging_ok_def by blast
  qed
  moreover have "vlr_inv B (net_vlr n')" using inv by (simp add: net_inv_def n'_def unlink_inv)
  moreover have tl: "trans_list n' = trans_list n" by (simp add: n'_def)
  ultimately have "net_inv B n'"
    using inv unfolding net_inv_def refs dom tl heap by auto
  from that [OF eq this] show thesis by (simp add: n'_def)
qed

definition request_cb :: "'h gsm_network \<Rightarrow> nat option \<Rightarrow> nat \<Rightarrow> net_out list" where
  "request_cb n m p = (case net_pr n p of None \<Rightarrow> []
     | Some r \<Rightarrow> (case pr_cb r of None \<Rightarrow> [] | Some cb \<Rightarrow> [CALL_PAGING_CB cb m (pr_trans r)]))"

lemma conclude_loop_ok:
  "net_inv B n \<Longrightarrow> v_heap (net_vlr n) a = Some s \<Longrightarrow> vs_requests s = ps \<Longrightarrow>
    \<exists>n' s'. conclude_loop m ps n = Some n' \<and> net_inv B n' \<and> v_heap (net_vlr n') a = Some s' \<and> s' = s\<lparr>vs_requests := []\<rparr>
      \<and> net_out n' = net_out n @ concat (map (request_cb n m) ps) \<and> trans_list n' = trans_list n
      \<and> (\<forall>p. net_pr n' p = (if p \<in> set ps then None else net_pr n p))"
proof (induction ps arbitrary: n s)
  case Nil
  then show ?case by auto
next
  case (Cons p ps)
  have pr: "distinct (p # ps)" "net_pr n p \<noteq> None"
    using Cons.prems unfolding net_inv_def paging_ok_def by (metis, metis list.set_intros(1))
  then obtain r where r: "net_pr n p = Some r" by blast
  obtain n1 where n1: "paging_request_remove p n = Some n1" "net_inv B n1" "net_pr n1 = (net_pr n)(p := None)" "net_out n1 = net_out n"
    "trans_list n1 = trans_list n" "net_vlr n1 = unlink_request p (net_vlr n)"
    using request_remove_ok [OF Cons.prems(1) r] by blast
  define n2 where "n2 = (case pr_cb r of None \<Rightarrow> n1 | Some cb \<Rightarrow> n_emit (CALL_PAGING_CB cb m (pr_trans r)) n1)"
  have n2: "net_inv B n2" "net_pr n2 = net_pr n1" "net_vlr n2 = net_vlr n1" "trans_list n2 = trans_list n1" "net_out n2 = net_out n @ request_cb n m p"
    using n1(2,4) r by (simp_all add: n2_def request_cb_def split: option.splits)
  let ?s = "s\<lparr>vs_requests := ps\<rparr>"
  have h: "v_heap (net_vlr n2) a = Some ?s" using Cons.prems(2,3) by (simp add: n2(3) n1(6) unlink_heap)
  obtain n' s' where n': "conclude_loop m ps n2 = Some n'" "net_inv B n'" "v_heap (net_vlr n') a = Some s'" "s' = ?s\<lparr>vs_requests := []\<rparr>"
    "net_out n' = net_out n2 @ concat (map (request_cb n2 m) ps)" "trans_list n' = trans_list n2" "\<forall>q. net_pr n' q = (if q \<in> set ps then None else net_pr n2 q)"
    using Cons.IH [OF n2(1) h] by auto
  have "map (request_cb n2 m) ps = map (request_cb n m) ps" using pr(1) by (intro map_cong) (auto simp: request_cb_def n2(2) n1(3))
  with n' n2(4,5) n1(5) show ?case
    using r n1(1) by (auto simp: n2_def [symmetric] n2(2) n1(3))
qed

text \<open>A change of one subscriber record, or its end, seen from the network.\<close>

lemma trans_refs_use: "trans_refs h a u t \<Longrightarrow> \<exists>ty. u = trans_vsub_use ty"
  by (auto simp: trans_refs_def split: option.splits)

lemma paging_ok_mono:
  assumes pr: "paging_ok n"
    and orig: "\<And>b y. v_heap v' b = Some y \<Longrightarrow> \<exists>z. v_heap (net_vlr n) b = Some z \<and> vs_requests y = vs_requests z \<and> (vs_requests z \<noteq> [] \<longrightarrow> vs_is_paging y)"
  shows "paging_ok (n\<lparr>net_vlr := v'\<rparr>)"
proof -
  have "distinct (vs_requests y) \<and> (\<forall>p\<in>set (vs_requests y). net_pr n p \<noteq> None) \<and> (vs_requests y \<noteq> [] \<longrightarrow> vs_is_paging y)"
    if y: "v_heap v' b = Some y" for b y
  proof -
    obtain z where z: "v_heap (net_vlr n) b = Some z" "vs_requests y = vs_requests z" "vs_requests z \<noteq> [] \<longrightarrow> vs_is_paging y" using orig [OF y] by blast
    have "distinct (vs_requests z) \<and> (\<forall>p\<in>set (vs_requests z). net_pr n p \<noteq> None)" using pr z(1) unfolding paging_ok_def by blast
    then show ?thesis using z(2,3) by simp
  qed
  moreover have "set (vs_requests y1) \<inter> set (vs_requests y2) = {}" if y: "v_heap v' a = Some y1" "v_heap v' b = Some y2" "a \<noteq> b" for a b y1 y2
  proof -
    obtain z1 where z1: "v_heap (net_vlr n) a = Some z1" "vs_requests y1 = vs_requests z1" using orig [OF y(1)] by blast
    obtain z2 where z2: "v_heap (net_vlr n) b = Some z2" "vs_requests y2 = vs_requests z2" using orig [OF y(2)] by blast
    have "set (vs_requests z1) \<inter> set (vs_requests z2) = {}" using pr z1(1) z2(1) y(3) unfolding paging_ok_def by blast
    then show ?thesis using z1(2) z2(2) by simp
  qed
  moreover have "\<exists>x. net_trans n t = Some x \<and> tr_paging_request x = Some p" if "net_pr n p = Some r" "pr_trans r = Some t" for p r t
    using pr that unfolding paging_ok_def by blast
  ultimately show ?thesis unfolding paging_ok_def by simp
qed

lemma net_vlr_upd:
  assumes inv: "net_inv B n" and v: "vlr_inv B v'" "touched a (net_vlr n) v'" and s: "v_heap (net_vlr n) a = Some s" "v_heap v' a = Some s'"
    and r: "vs_requests s' = vs_requests s" "vs_requests s \<noteq> [] \<longrightarrow> vs_is_paging s'"
    and u: "\<And>ty. uc_by B (trans_vsub_use ty) (vs_uses s) \<le> uc_by B (trans_vsub_use ty) (vs_uses s')"
  shows "net_inv B (n\<lparr>net_vlr := v'\<rparr>)"
proof -
  let ?c = "\<lambda>b u. length (filter (trans_refs (net_trans n) b u) (trans_list n))"
  have other: "b \<noteq> a \<Longrightarrow> v_heap v' b = v_heap (net_vlr n) b" for b using v(2) by (simp add: touched_def)
  have c: "int (?c b w) \<le> uc_by B w (vs_uses y)" if "v_heap (net_vlr n) b = Some y" for b w y using inv that by (simp add: net_inv_def)
  have "int (?c b w) \<le> uc_by B w (vs_uses y)" if y: "v_heap v' b = Some y" for b w y
  proof (cases "b = a \<and> (\<exists>ty. w = trans_vsub_use ty)")
    case True
    then show ?thesis using c [OF s(1), of w] u y s(2) by (auto intro: order_trans)
  next
    case False
    show ?thesis
    proof (cases "b = a")
      case True
      then have "filter (trans_refs (net_trans n) b w) (trans_list n) = []" using False trans_refs_use [of "net_trans n" b w] by (auto simp: filter_empty_conv)
      moreover have "0 \<le> uc_by B w (vs_uses y)" using vlr_inv_ok [OF v(1) y] by (simp add: vsub_ok_def)
      ultimately show ?thesis by simp
    qed (use y other c in simp)
  qed
  moreover have alive: "v_heap v' b \<noteq> None" if "v_heap (net_vlr n) b \<noteq> None" for b using that other [of b] s(2) by (cases "b = a") simp_all
  then have "trans_ok (n\<lparr>net_vlr := v'\<rparr>) t x" if "trans_ok n t x" for t x using that unfolding trans_ok_def by simp
  moreover have "paging_ok (n\<lparr>net_vlr := v'\<rparr>)"
  proof (rule paging_ok_mono)
    show "paging_ok n" using inv by (simp add: net_inv_def)
    fix b y assume y: "v_heap v' b = Some y"
    have p: "vs_requests z \<noteq> [] \<longrightarrow> vs_is_paging z" if "v_heap (net_vlr n) b = Some z" for z
      using inv that unfolding net_inv_def paging_ok_def by blast
    show "\<exists>z. v_heap (net_vlr n) b = Some z \<and> vs_requests y = vs_requests z \<and> (vs_requests z \<noteq> [] \<longrightarrow> vs_is_paging y)"
      using y other [of b] s r p by (cases "b = a") simp_all
  qed
  ultimately show ?thesis using inv v(1) by (simp add: net_inv_def)
qed

lemma net_vlr_gone:
  assumes inv: "net_inv B n" and v: "vlr_inv B v'" "touched a (net_vlr n) v'" "v_heap v' a = None"
    and t: "\<And>t x. net_trans n t = Some x \<Longrightarrow> tr_vsub x \<noteq> Some a"
  shows "net_inv B (n\<lparr>net_vlr := v'\<rparr>)"
proof -
  have orig: "v_heap (net_vlr n) b = Some y" if "v_heap v' b = Some y" for b y
    using that v(2,3) by (cases "b = a") (simp_all add: touched_def)
  have "trans_ok (n\<lparr>net_vlr := v'\<rparr>) u x" if "net_trans n u = Some x" for u x
    using inv that t [OF that] v(2) by (auto simp: net_inv_def trans_ok_def touched_def)
  moreover have "vs_requests y \<noteq> [] \<longrightarrow> vs_is_paging y" if "v_heap (net_vlr n) b = Some y" for b y
    using inv that unfolding net_inv_def paging_ok_def by blast
  then have "paging_ok (n\<lparr>net_vlr := v'\<rparr>)" using inv orig by (intro paging_ok_mono) (auto simp: net_inv_def)
  ultimately show ?thesis using inv v(1) orig by (simp add: net_inv_def)
qed

lemma no_trans_on_last_ref:
  assumes "use_laws B" and inv: "net_inv B n" and s: "v_heap (net_vlr n) a = Some s" "uc_total B (vs_uses s) = 1"
    and w: "1 \<le> uc_by B w (vs_uses s)" "\<And>ty. w \<noteq> trans_vsub_use ty" and t: "net_trans n t = Some x"
  shows "tr_vsub x \<noteq> Some a"
proof
  assume a: "tr_vsub x = Some a"
  have "vsub_ok B s" using inv s(1) by (auto simp: net_inv_def vlr_inv_def)
  from two_refs [OF assms(1) this w(1) w(2) trans_refs_count [OF inv t a s(1)]] s(2) show False by simp
qed

lemma stop_paging_ok:
  assumes laws: "hash_laws B" "use_laws B" and inv: "net_inv B n" and a: "v_heap (net_vlr n) a = Some s" and r: "vs_requests s = []"
  shows "\<exists>n'. (if vs_is_paging s then do {
          n1 \<leftarrow> with_vlr (vsub_upd a (\<lambda>s. s\<lparr>vs_is_paging := False\<rparr>)) n; with_vlr (vlr_subscr_put B a VSUB_USE_PAGING) n1 } else Some n) = Some n'
    \<and> net_inv B n' \<and> net_out n' = net_out n \<and> trans_list n' = trans_list n \<and> net_pr n' = net_pr n
    \<and> (\<forall>s'. v_heap (net_vlr n') a = Some s' \<longrightarrow> vs_requests s' = [] \<and> \<not> vs_is_paging s')"
proof (cases "vs_is_paging s")
  case False
  then show ?thesis using inv a r by simp
next
  case True
  have v0: "vlr_inv B (net_vlr n)" using inv by (simp add: net_inv_def)
  let ?s = "s\<lparr>vs_is_paging := False\<rparr>"
  have "same_keys s ?s" "vsub_ok B ?s" using vlr_inv_ok [OF v0 a] by (simp_all add: same_keys_def vsub_ok_def)
  from upd_ok [OF v0 a, of "\<lambda>s. s\<lparr>vs_is_paging := False\<rparr>", OF this] obtain v1 where
    v1: "vsub_upd a (\<lambda>s. s\<lparr>vs_is_paging := False\<rparr>) (net_vlr n) = Some v1" "vlr_inv B v1" "touched a (net_vlr n) v1" "v_heap v1 a = Some ?s" .
  let ?n = "n\<lparr>net_vlr := v1\<rparr>"
  have n1: "net_inv B ?n" using net_vlr_upd [OF inv v1(2,3) a v1(4)] r by simp
  have a1: "v_heap (net_vlr ?n) a = Some ?s" using v1(4) by simp
  have u: "1 \<le> uc_by B VSUB_USE_PAGING (vs_uses ?s)" using vlr_inv_ok [OF v0 a] True by (simp add: vsub_ok_def)
  have ns: "VSUB_USE_PAGING \<noteq> trans_vsub_use ty" for ty using trans_vsub_use_not_special(2) [of ty] by simp
  show ?thesis
  proof (rule put_ok [OF laws v1(2,4) u])
    fix v' s' assume p: "vlr_subscr_put B a VSUB_USE_PAGING v1 = Some v'" "vlr_inv B v'" "touched a v1 v'" "v_heap v' a = Some s'" "recounted ?s s'"
      "vs_uses s' = uc_change B VSUB_USE_PAGING (- 1) (vs_uses ?s)"
    have "net_inv B (?n\<lparr>net_vlr := v'\<rparr>)"
      using net_vlr_upd [OF n1 p(2) _ a1 p(4)] p(3,6) recountedD(11) [OF p(5)] r by (simp add: use_lawsD [OF laws(2)] trans_vsub_use_not_special)
    then show ?thesis using True v1(1) p(1,4) recountedD(6,11) [OF p(5)] r by (simp add: with_vlr_def)
  next
    fix v' assume tot: "uc_total B (vs_uses ?s) = 1"
      and p: "vlr_subscr_put B a VSUB_USE_PAGING v1 = Some v'" "vlr_inv B v'" "touched a v1 v'" "v_heap v' a = None"
    have "net_inv B (?n\<lparr>net_vlr := v'\<rparr>)"
      using net_vlr_gone [OF n1 p(2) _ p(4)] p(3) no_trans_on_last_ref [OF laws(2) n1 a1 tot u ns] by simp
    then show ?thesis using True v1(1) p(1,4) by (simp add: with_vlr_def)
  qed simp_all
qed



subsection \<open>Allocation\<close>

lemma alloc_net_inv:
  assumes inv: "net_inv B n" and new: "net_trans n new = None" and v: "vlr_inv B v'"
    and x: "tr_magic x = GSM_TRANS_MAGIC" "\<not> freeing x" "tr_paging_request x = None" "\<forall>a. tr_vsub x = Some a \<longrightarrow> v_heap (net_vlr n) a \<noteq> None"
    and alive: "\<And>b. v_heap (net_vlr n) b \<noteq> None \<Longrightarrow> v_heap v' b \<noteq> None"
    and orig: "\<And>b y. v_heap v' b = Some y \<Longrightarrow> \<exists>z. v_heap (net_vlr n) b = Some z \<and> vs_requests y = vs_requests z \<and> vs_is_paging y = vs_is_paging z
      \<and> (\<forall>u. uc_by B u (vs_uses y) = uc_by B u (vs_uses z) + (if tr_vsub x = Some b \<and> u = trans_vsub_use (tr_type x) then 1 else 0))"
    and n': "net_vlr n' = v'" "net_trans n' = (net_trans n)(new \<mapsto> x)" "trans_list n' = trans_list n @ [new]" "net_pr n' = net_pr n"
  shows "net_inv B n'"
proof -
  have l: "distinct (trans_list n)" "set (trans_list n) = dom (net_trans n)" and ok: "\<And>t y. net_trans n t = Some y \<Longrightarrow> trans_ok n t y"
    and pr: "paging_ok n" using inv by (simp_all add: net_inv_def)
  have nl: "new \<notin> set (trans_list n)" using l(2) new by auto
  have "trans_ok n' t y" if "net_trans n' t = Some y" for t y
    using that ok [of t y] x alive by (auto simp: trans_ok_def n' split: if_splits)
  moreover have "int (length (filter (trans_refs (net_trans n') b u) (trans_list n'))) \<le> uc_by B u (vs_uses y)" if y: "v_heap v' b = Some y" for b u y
  proof -
    obtain z where z: "v_heap (net_vlr n) b = Some z"
      "uc_by B u (vs_uses y) = uc_by B u (vs_uses z) + (if tr_vsub x = Some b \<and> u = trans_vsub_use (tr_type x) then 1 else 0)" using orig [OF y] by blast
    have "filter (trans_refs (net_trans n') b u) (trans_list n) = filter (trans_refs (net_trans n) b u) (trans_list n)"
      using nl by (intro filter_cong) (auto simp: trans_refs_def n'(2))
    moreover have "int (length (filter (trans_refs (net_trans n) b u) (trans_list n))) \<le> uc_by B u (vs_uses z)" using inv z(1) by (simp add: net_inv_def)
    moreover have "trans_refs (net_trans n') b u new \<longleftrightarrow> tr_vsub x = Some b \<and> u = trans_vsub_use (tr_type x)" by (auto simp: trans_refs_def n'(2))
    ultimately show ?thesis using z(2) by (cases "tr_vsub x = Some b \<and> u = trans_vsub_use (tr_type x)") (auto simp: n'(3))
  qed
  moreover have "paging_ok n'"
  proof -
    have "\<exists>z. v_heap (net_vlr n) b = Some z \<and> vs_requests y = vs_requests z \<and> (vs_requests z \<noteq> [] \<longrightarrow> vs_is_paging y)" if "v_heap v' b = Some y" for b y
    proof -
      obtain z where z: "v_heap (net_vlr n) b = Some z" "vs_requests y = vs_requests z" "vs_is_paging y = vs_is_paging z" using orig \<open>v_heap v' b = Some y\<close> by blast
      moreover have "vs_requests z \<noteq> [] \<longrightarrow> vs_is_paging z" using pr z(1) unfolding paging_ok_def by blast
      ultimately show ?thesis by auto
    qed
    then have p: "paging_ok (n\<lparr>net_vlr := v'\<rparr>)" by (rule paging_ok_mono [OF pr])
    have "\<exists>y. net_trans n' t = Some y \<and> tr_paging_request y = Some q" if q: "net_pr n q = Some r" "pr_trans r = Some t" for q r t
    proof -
      obtain y where "net_trans n t = Some y" "tr_paging_request y = Some q" using pr q unfolding paging_ok_def by blast
      then show ?thesis using new by (auto simp: n'(2))
    qed
    then show ?thesis using p unfolding paging_ok_def by (simp add: n'(1,4))
  qed
  ultimately show ?thesis using v l nl by (simp add: net_inv_def n')
qed



subsection \<open>A concrete network\<close>

lemma net_ex_inv: "net_inv store_lib net_ex"
proof -
  let ?s = "sub_attached\<lparr>vs_uses := [(VSUB_USE_ATTACHED, 1), (''CC'', 2)]\<rparr>"
  have v: "net_vlr net_ex = put_sub 1 ?s store_ex" by (auto simp: net_ex_def put_sub_def store_ex_def fun_eq_iff)
  have ok: "vsub_ok store_lib ?s" using sub_attached_ok by (simp add: vsub_ok_def store_lib_def)
  have "vlr_inv store_lib (net_vlr net_ex)"
    unfolding v using store_ex_inv store_ex_heap(1) _ ok by (rule put_sub_inv) (simp add: same_keys_def)
  moreover have "distinct (trans_list net_ex)" "set (trans_list net_ex) = dom (net_trans net_ex)" by (auto simp: net_ex_def)
  moreover have heap: "v_heap (net_vlr net_ex) = [1 \<mapsto> ?s, 2 \<mapsto> sub_new]" by (simp add: net_ex_def)
  moreover have "\<forall>t x. net_trans net_ex t = Some x \<longrightarrow> trans_ok net_ex t x"
    by (auto simp: net_ex_def trans_ok_def trans_ex_def split: if_splits)
  moreover have "vs_requests sub_attached = []" "vs_requests sub_new = []" by (simp_all add: sub_attached_def sub_new_def vlr_subscr_new_def vlr_subscr_zero_def)
  then have "paging_ok net_ex" by (auto simp: paging_ok_def heap net_ex_def split: if_splits)
  moreover have "\<forall>a s u. v_heap (net_vlr net_ex) a = Some s \<longrightarrow>
      int (length (filter (trans_refs (net_trans net_ex) a u) (trans_list net_ex))) \<le> uc_by store_lib u (vs_uses s)"
    by (auto simp: heap net_ex_def trans_refs_def trans_ex_def trans_vsub_use_def trans_type_names_def store_lib_def split: if_splits)
  ultimately show ?thesis unfolding net_inv_def by blast
qed

lemma net_ex_trans: "net_trans net_ex 10 = Some (trans_ex 1 0)" "v_heap (net_vlr net_ex) 1 = Some (sub_attached\<lparr>vs_uses := [(VSUB_USE_ATTACHED, 1), (''CC'', 2)]\<rparr>)"
  by (simp_all add: net_ex_def)







end
