(* ===== verification/Vlr_Sgs.thy ===== *)
theory Vlr_Sgs
  imports Transaction
begin

text \<open>
  The SGs association of a subscriber: the state machine of \<open>src/src/libvlr/vlr_sgs_fsm.c\<close>, the functions of
  \<open>src/src/libvlr/vlr_sgs.c\<close> that drive it, and the callbacks of \<open>src/src/libmsc/sgs_iface.c\<close> that the machine calls.
  They work on the network of \<open>Transaction\<close>, since ending a paging concludes its requests.  The
  instance lives as long as its subscriber; its state is a field of the record.  Which MME a subscriber has, and whether
  it is connected, is an argument, as are clock, timers and the outcome of sending to the HLR.
\<close>

subsection \<open>The machine\<close>

datatype sgs_ue_fsm_event =
    SGS_UE_E_VLR_FAILURE | SGS_UE_E_RX_RESET_FROM_MME | SGS_UE_E_RX_DETACH_IND_FROM_MME | SGS_UE_E_RX_DETACH_IND_FROM_UE
  | SGS_UE_E_RX_LU_FROM_A_IU_GS | SGS_UE_E_RX_PAGING_FAILURE | SGS_UE_E_RX_ALERT_FAILURE | SGS_UE_E_RX_LU_FROM_MME
  | SGS_UE_E_TX_LU_REJECT | SGS_UE_E_TX_LU_ACCEPT | SGS_UE_E_TX_PAGING | SGS_UE_E_RX_SGSAP_UE_UNREACHABLE
  | SGS_UE_E_RX_TMSI_REALLOC | SGS_UE_E_RX_SERVICE_REQ

type_synonym sgs_lib = "(sgs_ue_fsm_state, sgs_ue_fsm_event) fsm_lib"

definition sgs_ue_fsm_states :: "sgs_ue_fsm_state \<Rightarrow> (sgs_ue_fsm_state, sgs_ue_fsm_event) fsm_state" where
  "sgs_ue_fsm_states s = (case s of
     SGS_UE_ST_NULL \<Rightarrow>
       \<lparr>in_event_mask = [SGS_UE_E_RX_LU_FROM_MME, SGS_UE_E_TX_PAGING, SGS_UE_E_RX_PAGING_FAILURE, SGS_UE_E_RX_TMSI_REALLOC,
          SGS_UE_E_RX_SERVICE_REQ],
        out_state_mask = [SGS_UE_ST_NULL, SGS_UE_ST_LA_UPD_PRES, SGS_UE_ST_ASSOCIATED]\<rparr>
   | SGS_UE_ST_LA_UPD_PRES \<Rightarrow>
       \<lparr>in_event_mask = [SGS_UE_E_TX_LU_ACCEPT, SGS_UE_E_TX_LU_REJECT, SGS_UE_E_TX_PAGING, SGS_UE_E_RX_PAGING_FAILURE,
          SGS_UE_E_RX_ALERT_FAILURE, SGS_UE_E_RX_TMSI_REALLOC, SGS_UE_E_RX_SERVICE_REQ],
        out_state_mask = [SGS_UE_ST_NULL, SGS_UE_ST_ASSOCIATED, SGS_UE_ST_LA_UPD_PRES]\<rparr>
   | SGS_UE_ST_ASSOCIATED \<Rightarrow>
       \<lparr>in_event_mask = [SGS_UE_E_TX_PAGING, SGS_UE_E_RX_TMSI_REALLOC, SGS_UE_E_RX_SGSAP_UE_UNREACHABLE, SGS_UE_E_RX_PAGING_FAILURE,
          SGS_UE_E_RX_ALERT_FAILURE, SGS_UE_E_RX_LU_FROM_MME, SGS_UE_E_RX_SERVICE_REQ],
        out_state_mask = [SGS_UE_ST_NULL, SGS_UE_ST_ASSOCIATED, SGS_UE_ST_LA_UPD_PRES]\<rparr>)"

definition sgs_ue_fsm :: "sgs_ue_fsm_event list" where
  "sgs_ue_fsm = [SGS_UE_E_RX_RESET_FROM_MME, SGS_UE_E_VLR_FAILURE, SGS_UE_E_RX_DETACH_IND_FROM_MME, SGS_UE_E_RX_DETACH_IND_FROM_UE,
     SGS_UE_E_RX_LU_FROM_A_IU_GS]"

text \<open>What the environment decides during a call.\<close>

record sgs_env =
  se_clock :: "nat option"
  se_x3212 :: nat
  se_t3212 :: nat
  se_rnd :: "nat \<Rightarrow> int + 32 word"
  se_nri :: "(32 word \<Rightarrow> 32 word) option"
  se_is_ps :: bool
  se_req_lu_rc :: int
  se_mme :: "vlr_subscr \<Rightarrow> bool"
  se_send_mm_info :: bool
  se_persist :: bool
  se_forget :: bool
  se_inval :: bool
  se_silent :: bool
  se_atoll :: "string \<Rightarrow> nat"

abbreviation nsub_get :: "nat \<Rightarrow> 'h gsm_network \<Rightarrow> vlr_subscr option" where
  "nsub_get a n \<equiv> vsub_get a (net_vlr n)"

abbreviation nsub_upd :: "nat \<Rightarrow> (vlr_subscr \<Rightarrow> vlr_subscr) \<Rightarrow> 'h gsm_network \<Rightarrow> 'h gsm_network option" where
  "nsub_upd a f \<equiv> with_vlr (vsub_upd a f)"

text \<open>\<open>osmo_fsm_inst_state_chg()\<close>; \<open>secs\<close> is the duration of the timer Ts6-2, 0 for no timer.\<close>

definition sgs_state_chg :: "sgs_lib \<Rightarrow> nat \<Rightarrow> sgs_ue_fsm_state \<Rightarrow> nat \<Rightarrow> 'h gsm_network \<Rightarrow> 'h gsm_network option" where
  "sgs_state_chg L a st secs =
     nsub_upd a (\<lambda>s. if chg_allowed L (out_state_mask (sgs_ue_fsm_states (vs_sgs_state s))) False st
                     then s\<lparr>vs_sgs_state := st, vs_ts6_2 := (secs > 0)\<rparr> else s)"

definition vlr_subscr_set_last_used_eutran_plmn_id :: "nat \<Rightarrow> (nat \<times> nat) option \<Rightarrow> 'h gsm_network \<Rightarrow> 'h gsm_network option" where
  "vlr_subscr_set_last_used_eutran_plmn_id a plmn = nsub_upd a (\<lambda>s. s\<lparr>vs_last_eutran_plmn := plmn\<rparr>)"

definition sgs_pag_inflight_inc :: "'h vlr \<Rightarrow> 'h vlr" where
  "sgs_pag_inflight_inc v = v\<lparr>v_pag_inflight := v_pag_inflight v + 1\<rparr>"

text \<open>
  \<open>vlr_sgs_pag()\<close>.  The event \<open>SGS_UE_E_TX_PAGING\<close> it dispatches is accepted in all states, and all do nothing on it.
\<close>

definition vlr_sgs_pag :: "'h vlr_lib \<Rightarrow> nat \<Rightarrow> sgsap_service_ind \<Rightarrow> 'h gsm_network \<Rightarrow> 'h gsm_network option" where
  "vlr_sgs_pag B a serv n = do {
     s \<leftarrow> nsub_get a n;
     n1 \<leftarrow> nsub_upd a (\<lambda>s. s\<lparr>vs_ts5 := True, vs_paging_serv := serv\<rparr>) n;
     if vs_ts5 s then Some n1
     else do {
       n2 \<leftarrow> with_vlr (vlr_subscr_get B a VSUB_USE_SGS_PAGING_REQ) n1;
       Some (n2\<lparr>net_vlr := sgs_pag_inflight_inc (net_vlr n2)\<rparr>) } }"

definition sgs_serv_ind_from_paging_cause :: "paging_cause \<Rightarrow> sgsap_service_ind" where
  "sgs_serv_ind_from_paging_cause c =
     (case c of PAGING_CAUSE_CALL_CONVERSATIONAL \<Rightarrow> SGSAP_SERV_IND_CS_CALL | PAGING_CAUSE_CALL_STREAMING \<Rightarrow> SGSAP_SERV_IND_CS_CALL
      | PAGING_CAUSE_CALL_INTERACTIVE \<Rightarrow> SGSAP_SERV_IND_CS_CALL | PAGING_CAUSE_CALL_BACKGROUND \<Rightarrow> SGSAP_SERV_IND_CS_CALL
      | PAGING_CAUSE_UNSPECIFIED \<Rightarrow> SGSAP_SERV_IND_SMS | PAGING_CAUSE_SIGNALLING_LOW_PRIO \<Rightarrow> SGSAP_SERV_IND_SMS
      | PAGING_CAUSE_SIGNALLING_HIGH_PRIO \<Rightarrow> SGSAP_SERV_IND_SMS)"

abbreviation (input) SGS_MAX_UNCONFIRMED_PAGES :: nat where "SGS_MAX_UNCONFIRMED_PAGES \<equiv> 64"

text \<open>\<open>-22\<close> is \<open>-EINVAL\<close>.\<close>

definition sgs_iface_paging_cb ::
    "'h vlr_lib \<Rightarrow> sgs_env \<Rightarrow> nat \<Rightarrow> sgsap_service_ind \<Rightarrow> 'h gsm_network \<Rightarrow> ('h gsm_network \<times> int) option" where
  "sgs_iface_paging_cb B E a serv n =
     (if serv = SGSAP_SERV_IND_PAGING_TIMEOUT then map_option (\<lambda>n1. (n1, 0)) (paging_expired B (Some a) n)
      else do {
        s \<leftarrow> nsub_get a n;
        if vs_imsi_detached s then Some (n, - 22)
        else if serv \<noteq> SGSAP_SERV_IND_CS_CALL \<and> \<not> vs_conf_by_radio s \<and> \<not> vs_ts5 s
             \<and> v_pag_inflight (net_vlr n) \<ge> SGS_MAX_UNCONFIRMED_PAGES then Some (n, 0)
        else if vs_sgs_state s = SGS_UE_ST_NULL \<and> vs_conf_by_radio s then Some (n, - 22)
        else if \<not> se_mme E s then Some (n, - 22)
        else if vs_ts5 s then Some (n, 0)
        else map_option (\<lambda>n1. (n1, 1)) (vlr_sgs_pag B a serv (n_emit (TX_SGS_PAGING a serv) n)) })"

text \<open>The callbacks are the functions of the SGs interface; calling one that is not set is \<open>None\<close>.\<close>

definition sgs_tx_mm_info_cb :: "sgs_env \<Rightarrow> nat \<Rightarrow> 'h gsm_network \<Rightarrow> 'h gsm_network option" where
  "sgs_tx_mm_info_cb E a n = do {
     s \<leftarrow> nsub_get a n;
     if \<not> vs_sgs_cbs s then None
     else Some (if se_send_mm_info E \<and> se_mme E s then n_emit (TX_SGS_MM_INFO a) n else n) }"

definition to_null :: "'h vlr_lib \<Rightarrow> sgs_lib \<Rightarrow> nat \<Rightarrow> 'h gsm_network \<Rightarrow> 'h gsm_network option" where
  "to_null B L a n = do {
     n1 \<leftarrow> sgs_state_chg L a SGS_UE_ST_NULL 0 n;
     n2 \<leftarrow> nsub_upd a (\<lambda>s. s\<lparr>vs_conf_by_radio := False, vs_tmsi_new := GSM_RESERVED_TMSI\<rparr>) n1;
     n3 \<leftarrow> with_vlr (vlr_subscr_rehash_tmsi B a) n2;
     n4 \<leftarrow> vlr_subscr_set_last_used_eutran_plmn_id a None n3;
     n5 \<leftarrow> with_vlr (vlr_subscr_get B a ''to_null'') n4;
     s \<leftarrow> nsub_get a n5;
     n6 \<leftarrow> (if vs_is_paging s \<and> vs_sgs_cbs s then paging_expired B (Some a) n5 else Some n5);
     n7 \<leftarrow> with_vlr (vlr_sgs_pag_stop B a) n6;
     with_vlr (vlr_subscr_put B a ''to_null'') n7 }"

definition vlr_sgs_pag_pend :: "vlr_subscr \<Rightarrow> bool" where
  "vlr_sgs_pag_pend s = vs_ts5 s"

definition respawn_paging :: "'h vlr_lib \<Rightarrow> sgs_env \<Rightarrow> nat \<Rightarrow> 'h gsm_network \<Rightarrow> 'h gsm_network option" where
  "respawn_paging B E a n = do {
     s \<leftarrow> nsub_get a n;
     if vlr_sgs_pag_pend s then do {
       n1 \<leftarrow> with_vlr (vlr_sgs_pag_stop B a) n;
       s1 \<leftarrow> nsub_get a n1;
       if \<not> vs_sgs_cbs s1 then None
       else map_option fst (sgs_iface_paging_cb B E a (vs_paging_serv s1) n1) }
     else Some n }"

text \<open>\<open>rej_user\<close>: the cause of a paging failure is \<open>SGSAP_SGS_CAUSE_MT_CSFB_REJ_USER\<close>.\<close>

definition sgs_ue_fsm_lau_present ::
    "'h vlr_lib \<Rightarrow> sgs_lib \<Rightarrow> sgs_env \<Rightarrow> nat \<Rightarrow> sgs_ue_fsm_event \<Rightarrow> bool \<Rightarrow> 'h gsm_network \<Rightarrow> 'h gsm_network option" where
  "sgs_ue_fsm_lau_present B L E a ev rej_user n =
     (case ev of
        SGS_UE_E_TX_LU_ACCEPT \<Rightarrow> do {
          n1 \<leftarrow> nsub_upd a (\<lambda>s. s\<lparr>vs_conf_by_radio := True, vs_sub_dataconf := True, vs_loc_conf := True, vs_la_allowed := True,
                                   vs_imsi_detached := False\<rparr>) n;
          s \<leftarrow> nsub_get a n1;
          n2 \<leftarrow> (if \<not> vs_lu_complete s then do {
                   n' \<leftarrow> with_vlr (vlr_subscr_set_lu_complete a True) n1;
                   with_vlr (vlr_subscr_get B a VSUB_USE_ATTACHED) n' }
                 else Some n1);
          n3 \<leftarrow> nsub_upd a (\<lambda>s. s\<lparr>vs_attached_via := RAT_EUTRAN_SGS\<rparr>) n2;
          s3 \<leftarrow> nsub_get a n3;
          if vs_tmsi_new s3 \<noteq> GSM_RESERVED_TMSI then sgs_state_chg L a SGS_UE_ST_ASSOCIATED (vs_ts6_2_secs s3) n3
          else do {
            n4 \<leftarrow> sgs_tx_mm_info_cb E a n3;
            s4 \<leftarrow> nsub_get a n4;
            n5 \<leftarrow> (if vlr_sgs_pag_pend s4 then respawn_paging B E a n4 else Some n4);
            sgs_state_chg L a SGS_UE_ST_ASSOCIATED 0 n5 } }
      | SGS_UE_E_RX_PAGING_FAILURE \<Rightarrow> if rej_user then Some n else to_null B L a n
      | SGS_UE_E_TX_LU_REJECT \<Rightarrow> to_null B L a n
      | SGS_UE_E_RX_ALERT_FAILURE \<Rightarrow> to_null B L a n
      | SGS_UE_E_TX_PAGING \<Rightarrow> Some n
      | SGS_UE_E_RX_TMSI_REALLOC \<Rightarrow> Some n
      | SGS_UE_E_RX_SERVICE_REQ \<Rightarrow> Some n
      | _ \<Rightarrow> None)"

definition sgs_ue_fsm_allstate ::
    "'h vlr_lib \<Rightarrow> sgs_lib \<Rightarrow> sgs_env \<Rightarrow> nat \<Rightarrow> sgs_ue_fsm_event \<Rightarrow> 'h gsm_network \<Rightarrow> 'h gsm_network option" where
  "sgs_ue_fsm_allstate B L E a ev n =
     (if ev = SGS_UE_E_RX_DETACH_IND_FROM_MME \<or> ev = SGS_UE_E_RX_DETACH_IND_FROM_UE then do {
        n1 \<leftarrow> nsub_upd a (\<lambda>s. s\<lparr>vs_imsi_detached := True\<rparr>) n;
        s \<leftarrow> nsub_get a n1;
        n2 \<leftarrow> (if vs_lu_complete s then nsub_upd a (\<lambda>s. s\<lparr>vs_expire_lu := 0\<rparr>) n1
               else with_vlr (vlr_subscr_keep_incomplete_expiry (se_clock E) a) n1);
        to_null B L a n2 }
      else if ev = SGS_UE_E_RX_RESET_FROM_MME then do {
        n1 \<leftarrow> nsub_upd a (\<lambda>s. s\<lparr>vs_conf_by_radio := False\<rparr>) n;
        to_null B L a n1 }
      else if ev = SGS_UE_E_VLR_FAILURE \<or> ev = SGS_UE_E_RX_LU_FROM_A_IU_GS then to_null B L a n
      else None)"

text \<open>
  \<open>osmo_fsm_inst_dispatch()\<close>: the function for all states takes the events of its mask, the function of the state those
  of the mask of the state; other events are refused.  The functions of two states are arguments.
\<close>

definition sgs_deliver ::
    "('h gsm_network \<Rightarrow> 'h gsm_network option) \<Rightarrow> ('h gsm_network \<Rightarrow> 'h gsm_network option)
     \<Rightarrow> 'h vlr_lib \<Rightarrow> sgs_lib \<Rightarrow> sgs_env \<Rightarrow> nat \<Rightarrow> sgs_ue_fsm_event \<Rightarrow> bool \<Rightarrow> 'h gsm_network \<Rightarrow> 'h gsm_network option" where
  "sgs_deliver f_null f_assoc B L E a ev rej_user n = do {
     s \<leftarrow> nsub_get a n;
     if ev_allowed L sgs_ue_fsm False ev then sgs_ue_fsm_allstate B L E a ev n
     else if ev_allowed L (in_event_mask (sgs_ue_fsm_states (vs_sgs_state s))) False ev then
       (case vs_sgs_state s of
          SGS_UE_ST_NULL \<Rightarrow> f_null n
        | SGS_UE_ST_LA_UPD_PRES \<Rightarrow> sgs_ue_fsm_lau_present B L E a ev rej_user n
        | SGS_UE_ST_ASSOCIATED \<Rightarrow> f_assoc n)
     else Some n }"

text \<open>
  \<open>vlr_sgs_loc_update_rej_sent()\<close>: the functions of the other two states have no case for this event and would fail an
  assertion.
\<close>

definition vlr_sgs_loc_update_rej_sent :: "'h vlr_lib \<Rightarrow> sgs_lib \<Rightarrow> sgs_env \<Rightarrow> nat \<Rightarrow> 'h gsm_network \<Rightarrow> 'h gsm_network option" where
  "vlr_sgs_loc_update_rej_sent B L E a n = do {
     n1 \<leftarrow> sgs_deliver (\<lambda>_. None) (\<lambda>_. None) B L E a SGS_UE_E_TX_LU_REJECT False n;
     with_vlr (vlr_sgs_lu_release B a) n1 }"

definition sgs_lu_rej_cause :: "reject_value \<Rightarrow> reject_value" where
  "sgs_lu_rej_cause c = (if c = GSM48_REJECT_OTHER 0 then GSM48_REJECT_NETWORK_FAILURE else c)"

definition sgs_tx_lu_rej :: "'h vlr_lib \<Rightarrow> sgs_lib \<Rightarrow> sgs_env \<Rightarrow> nat \<Rightarrow> reject_value \<Rightarrow> 'h gsm_network \<Rightarrow> 'h gsm_network option" where
  "sgs_tx_lu_rej B L E a cause n = do {
     s \<leftarrow> nsub_get a n;
     let n1 = (if se_mme E s then n_emit (TX_SGS_LU_REJ a (sgs_lu_rej_cause cause)) n else n);
     vlr_sgs_loc_update_rej_sent B L E a n1 }"

definition vlr_subscr_req_lu :: "nat \<Rightarrow> 'h gsm_network \<Rightarrow> 'h gsm_network" where
  "vlr_subscr_req_lu a n = n_emit (TX_UPDATE_LOCATION a) n"

text \<open>On failure: back to NULL, and the callback that rejects the update.\<close>

definition perform_lu_error :: "'h vlr_lib \<Rightarrow> sgs_lib \<Rightarrow> sgs_env \<Rightarrow> nat \<Rightarrow> 'h gsm_network \<Rightarrow> 'h gsm_network option" where
  "perform_lu_error B L E a n = do {
     n1 \<leftarrow> to_null B L a n;
     s \<leftarrow> nsub_get a n1;
     if \<not> vs_sgs_cbs s then None
     else sgs_tx_lu_rej B L E a GSM48_REJECT_NETWORK_FAILURE n1 }"

definition perform_lu :: "'h vlr_lib \<Rightarrow> sgs_lib \<Rightarrow> sgs_env \<Rightarrow> nat \<Rightarrow> 'h gsm_network \<Rightarrow> 'h gsm_network option" where
  "perform_lu B L E a n = do {
     s \<leftarrow> nsub_get a n;
     (v1, rc) \<leftarrow> (if vs_tmsi s = GSM_RESERVED_TMSI then vlr_subscr_alloc_tmsi B (se_is_ps E) (se_nri E) (se_rnd E) a (net_vlr n)
                 else Some (net_vlr n, 0));
     let n1 = n\<lparr>net_vlr := v1\<rparr>;
     if rc \<noteq> 0 then perform_lu_error B L E a n1
     else do {
       let n2 = vlr_subscr_req_lu a n1;
       if se_req_lu_rc E \<noteq> 0 then perform_lu_error B L E a n2
       else do {
         n3 \<leftarrow> sgs_state_chg L a SGS_UE_ST_LA_UPD_PRES 0 n2;
         nsub_upd a (\<lambda>s. s\<lparr>vs_ms_not_reachable := False\<rparr>) n3 } } }"

definition sgs_ue_fsm_null ::
    "'h vlr_lib \<Rightarrow> sgs_lib \<Rightarrow> sgs_env \<Rightarrow> nat \<Rightarrow> sgs_ue_fsm_event \<Rightarrow> 'h gsm_network \<Rightarrow> 'h gsm_network option" where
  "sgs_ue_fsm_null B L E a ev n =
     (case ev of
        SGS_UE_E_RX_LU_FROM_MME \<Rightarrow> perform_lu B L E a n
      | SGS_UE_E_TX_PAGING \<Rightarrow> Some n
      | SGS_UE_E_RX_PAGING_FAILURE \<Rightarrow> Some n
      | SGS_UE_E_RX_TMSI_REALLOC \<Rightarrow> Some n
      | SGS_UE_E_RX_SERVICE_REQ \<Rightarrow> do {
          n1 \<leftarrow> nsub_upd a (\<lambda>s. s\<lparr>vs_conf_by_radio := True\<rparr>) n;
          sgs_state_chg L a SGS_UE_ST_ASSOCIATED 0 n1 }
      | _ \<Rightarrow> None)"

definition sgs_ue_fsm_associated ::
    "'h vlr_lib \<Rightarrow> sgs_lib \<Rightarrow> sgs_env \<Rightarrow> nat \<Rightarrow> sgs_ue_fsm_event \<Rightarrow> bool \<Rightarrow> 'h gsm_network \<Rightarrow> 'h gsm_network option" where
  "sgs_ue_fsm_associated B L E a ev rej_user n =
     (case ev of
        SGS_UE_E_TX_PAGING \<Rightarrow> Some n
      | SGS_UE_E_RX_TMSI_REALLOC \<Rightarrow> do {
          s \<leftarrow> nsub_get a n;
          if vs_tmsi_new s = GSM_RESERVED_TMSI then sgs_state_chg L a SGS_UE_ST_ASSOCIATED 0 n
          else do {
            n1 \<leftarrow> nsub_upd a (\<lambda>s. s\<lparr>vs_tmsi := vs_tmsi_new s, vs_tmsi_new := GSM_RESERVED_TMSI\<rparr>) n;
            n2 \<leftarrow> with_vlr (vlr_subscr_rehash_tmsi B a) n1;
            n3 \<leftarrow> sgs_tx_mm_info_cb E a n2;
            s3 \<leftarrow> nsub_get a n3;
            n4 \<leftarrow> (if vlr_sgs_pag_pend s3 then respawn_paging B E a n3 else Some n3);
            sgs_state_chg L a SGS_UE_ST_ASSOCIATED 0 n4 } }
      | SGS_UE_E_RX_SGSAP_UE_UNREACHABLE \<Rightarrow> Some n
      | SGS_UE_E_RX_PAGING_FAILURE \<Rightarrow> if rej_user then Some n else to_null B L a n
      | SGS_UE_E_RX_ALERT_FAILURE \<Rightarrow> to_null B L a n
      | SGS_UE_E_RX_LU_FROM_MME \<Rightarrow> perform_lu B L E a n
      | SGS_UE_E_RX_SERVICE_REQ \<Rightarrow> Some n
      | _ \<Rightarrow> None)"

definition sgs_dispatch ::
    "'h vlr_lib \<Rightarrow> sgs_lib \<Rightarrow> sgs_env \<Rightarrow> nat \<Rightarrow> sgs_ue_fsm_event \<Rightarrow> bool \<Rightarrow> 'h gsm_network \<Rightarrow> 'h gsm_network option" where
  "sgs_dispatch B L E a ev rej_user =
     sgs_deliver (sgs_ue_fsm_null B L E a ev) (sgs_ue_fsm_associated B L E a ev rej_user) B L E a ev rej_user"

definition sgs_ue_fsm_timer_cb :: "'h vlr_lib \<Rightarrow> nat \<Rightarrow> 'h gsm_network \<Rightarrow> 'h gsm_network option" where
  "sgs_ue_fsm_timer_cb B a n = do {
     n1 \<leftarrow> nsub_upd a (\<lambda>s. s\<lparr>vs_ts6_2 := False, vs_tmsi_new := GSM_RESERVED_TMSI, vs_tmsi := GSM_RESERVED_TMSI\<rparr>) n;
     with_vlr (vlr_subscr_rehash_tmsi B a) n1 }"

subsection \<open>The functions of the SGs interface\<close>

definition vlr_sgs_rx_service_req :: "'h vlr_lib \<Rightarrow> sgs_lib \<Rightarrow> sgs_env \<Rightarrow> nat option \<Rightarrow> 'h gsm_network \<Rightarrow> 'h gsm_network option" where
  "vlr_sgs_rx_service_req B L E ao n =
     (case ao of None \<Rightarrow> Some n | Some a \<Rightarrow> sgs_dispatch B L E a SGS_UE_E_RX_SERVICE_REQ False n)"

definition vlr_sgs_paging_resp_from_a_iu ::
    "'h vlr_lib \<Rightarrow> sgs_lib \<Rightarrow> sgs_env \<Rightarrow> nat option \<Rightarrow> location_area_id option \<Rightarrow> 'h gsm_network \<Rightarrow> 'h gsm_network option" where
  "vlr_sgs_paging_resp_from_a_iu B L E ao lo n =
     (case (ao, lo) of
        (Some a, Some lai) \<Rightarrow> do {
          s \<leftarrow> nsub_get a n;
          if vs_sgs_state s = SGS_UE_ST_NULL \<or> lai_lac lai = 0 \<or> vs_sgs_lai s = lai then Some n
          else sgs_dispatch B L E a SGS_UE_E_RX_LU_FROM_A_IU_GS False n }
      | _ \<Rightarrow> Some n)"

text \<open>
  The walk saves the successor before the body; \<open>same\<close> is \<open>strcasecmp()\<close> returning 0.
\<close>

fun reset_loop :: "'h vlr_lib \<Rightarrow> sgs_lib \<Rightarrow> sgs_env \<Rightarrow> (string \<Rightarrow> string \<Rightarrow> bool) \<Rightarrow> string option \<Rightarrow> nat list \<Rightarrow> 'h gsm_network
    \<Rightarrow> 'h gsm_network option" where
  "reset_loop B L E same mme [] n = Some n"
| "reset_loop B L E same mme (a # as) n = do {
     s \<leftarrow> nsub_get a n;
     if (case mme of None \<Rightarrow> False | Some m \<Rightarrow> m \<noteq> [] \<and> \<not> same (vs_mme_name s) m) then reset_loop B L E same mme as n
     else do {
       n1 \<leftarrow> with_vlr (vlr_subscr_get B a ''vlr_sgs_reset_mme'') n;
       n2 \<leftarrow> sgs_dispatch B L E a SGS_UE_E_RX_RESET_FROM_MME False n1;
       n3 \<leftarrow> with_vlr (vlr_subscr_put B a ''vlr_sgs_reset_mme'') n2;
       reset_loop B L E same mme as n3 } }"

definition vlr_sgs_reset_mme ::
    "'h vlr_lib \<Rightarrow> sgs_lib \<Rightarrow> sgs_env \<Rightarrow> (string \<Rightarrow> string \<Rightarrow> bool) \<Rightarrow> string option \<Rightarrow> 'h gsm_network \<Rightarrow> 'h gsm_network option" where
  "vlr_sgs_reset_mme B L E same mme n = reset_loop B L E same mme (v_list (net_vlr n)) n"

definition vlr_sgs_reset :: "'h vlr_lib \<Rightarrow> sgs_lib \<Rightarrow> sgs_env \<Rightarrow> (string \<Rightarrow> string \<Rightarrow> bool) \<Rightarrow> 'h gsm_network \<Rightarrow> 'h gsm_network option" where
  "vlr_sgs_reset B L E same n = vlr_sgs_reset_mme B L E same None n"

text \<open>The expiry of a record after an SGs update request.\<close>

definition sgs_lu_expiry :: "sgs_env \<Rightarrow> vlr_subscr \<Rightarrow> vlr_subscr" where
  "sgs_lu_expiry E s =
     (case se_clock E of None \<Rightarrow> s
      | Some now \<Rightarrow>
          if se_x3212 E > 0 then s\<lparr>vs_expire_lu := now + se_x3212 E\<rparr>
          else if \<not> vs_lu_complete s then
            (let deadline = now + VLR_INCOMPLETE_LU_SECS in
             if vs_expire_lu s = 0 \<or> vs_expire_lu s > deadline then s\<lparr>vs_expire_lu := deadline\<rparr> else s)
          else s)"

abbreviation (input) SGS_MME_NAME_SIZE :: nat where "SGS_MME_NAME_SIZE \<equiv> 56"

text \<open>
  \<open>ts6_2\<close> is \<open>cfg->timer[SGS_STATE_TS6_2]\<close>, \<open>new\<close> the address a new record gets.
\<close>

definition vlr_sgs_loc_update ::
    "'h vlr_lib \<Rightarrow> sgs_lib \<Rightarrow> sgs_env \<Rightarrow> nat \<Rightarrow> nat \<Rightarrow> string \<Rightarrow> string \<Rightarrow> location_area_id \<Rightarrow> (nat \<times> nat) option \<Rightarrow> 'h gsm_network
     \<Rightarrow> 'h gsm_network option" where
  "vlr_sgs_loc_update B L E ts6_2 new mme_name imsi lai plmn n = do {
     (v1, a, created) \<leftarrow> vlr_subscr_find_or_create_by_imsi B (se_atoll E) (se_silent E) (se_inval E) (se_forget E) (se_clock E) new imsi
                          VSUB_USE_SGS_LU (net_vlr n);
     let n1 = n\<lparr>net_vlr := v1\<rparr>;
     s \<leftarrow> nsub_get a n1;
     if vs_sgs_state s = SGS_UE_ST_LA_UPD_PRES then with_vlr (vlr_subscr_put B a VSUB_USE_SGS_LU) n1
     else do {
       n2 \<leftarrow> nsub_upd a (\<lambda>s. s\<lparr>vs_ts6_2_secs := ts6_2, vs_sgs_cbs := True\<rparr>) n1;
       n3 \<leftarrow> with_vlr (vlr_subscr_set_imsi B (se_atoll E) (se_silent E) (se_inval E) (se_forget E) a imsi) n2;
       n4 \<leftarrow> vlr_subscr_set_last_used_eutran_plmn_id a plmn n3;
       n5 \<leftarrow> nsub_upd a (\<lambda>s. s\<lparr>vs_mme_name := strlcpy SGS_MME_NAME_SIZE mme_name\<rparr>) n4;
       n6 \<leftarrow> sgs_dispatch B L E a SGS_UE_E_RX_LU_FROM_MME False n5;
       n7 \<leftarrow> nsub_upd a (\<lambda>s. s\<lparr>vs_sgs_lai := lai, vs_lai := lai, vs_cs_lac := ucast (lai_lac lai)\<rparr>) n6;
       nsub_upd a (sgs_lu_expiry E) n7 } }"

definition vlr_sgs_loc_update_acc_sent :: "'h vlr_lib \<Rightarrow> sgs_lib \<Rightarrow> sgs_env \<Rightarrow> nat \<Rightarrow> 'h gsm_network \<Rightarrow> 'h gsm_network option" where
  "vlr_sgs_loc_update_acc_sent B L E a n = do {
     n1 \<leftarrow> sgs_dispatch B L E a SGS_UE_E_TX_LU_ACCEPT False n;
     n2 \<leftarrow> (if se_x3212 E > 0 then
              (case se_clock E of None \<Rightarrow> nsub_upd a id n1 | Some now \<Rightarrow> nsub_upd a (\<lambda>s. s\<lparr>vs_expire_lu := now + se_x3212 E\<rparr>) n1)
            else if se_t3212 E = 0 then nsub_upd a (\<lambda>s. s\<lparr>vs_expire_lu := 0\<rparr>) n1
            else with_vlr (vlr_subscr_enable_expire_lu (se_clock E) (se_t3212 E) a) n1);
     let n3 = (if se_persist E then n_emit (OPS_SGS_PERSIST a) n2 else n2);
     with_vlr (vlr_sgs_lu_release B a) n3 }"

text \<open>\<open>accepted\<close>, \<open>error\<close> and \<open>cause\<close> are the fields of \<open>struct sgs_lu_response\<close>.\<close>

definition sgs_tx_loc_upd_resp_cb ::
    "'h vlr_lib \<Rightarrow> sgs_lib \<Rightarrow> sgs_env \<Rightarrow> nat \<Rightarrow> bool \<Rightarrow> bool \<Rightarrow> reject_value \<Rightarrow> 'h gsm_network \<Rightarrow> 'h gsm_network option" where
  "sgs_tx_loc_upd_resp_cb B L E a accepted error cause n =
     (if error \<or> \<not> accepted then sgs_tx_lu_rej B L E a cause n
      else do {
        s \<leftarrow> nsub_get a n;
        let n1 = (if se_mme E s then n_emit (TX_SGS_LU_ACC a (vs_tmsi_new s)) n else n);
        vlr_sgs_loc_update_acc_sent B L E a n1 })"

datatype sgsap_imsi_det_noneps_type =
    SGSAP_ID_NONEPS_T_EXPLICIT_UE_NONEPS | SGSAP_ID_NONEPS_T_COMBINED_UE_EPS_NONEPS | SGSAP_ID_NONEPS_T_IMPLICIT_UE_EPS_NONEPS
  | SGSAP_ID_NONEPS_T_OTHER nat

datatype sgsap_imsi_det_eps_type =
    SGSAP_ID_EPS_T_NETWORK_INITIATED | SGSAP_ID_EPS_T_UE_INITIATED | SGSAP_ID_EPS_T_EPS_NOT_ALLOWED | SGSAP_ID_EPS_T_OTHER nat

text \<open>A lookup by IMSI that takes a reference for the duration of the call.\<close>

definition nsub_find :: "'h vlr_lib \<Rightarrow> string \<Rightarrow> string \<Rightarrow> 'h gsm_network \<Rightarrow> ('h gsm_network \<times> nat option) option" where
  "nsub_find B imsi use n = map_option (\<lambda>(v, found). (n\<lparr>net_vlr := v\<rparr>, found)) (vlr_subscr_find_by_imsi B imsi (Some use) (net_vlr n))"

definition vlr_sgs_imsi_detach ::
    "'h vlr_lib \<Rightarrow> sgs_lib \<Rightarrow> sgs_env \<Rightarrow> string \<Rightarrow> sgsap_imsi_det_noneps_type \<Rightarrow> 'h gsm_network \<Rightarrow> 'h gsm_network option" where
  "vlr_sgs_imsi_detach B L E imsi type n = do {
     (n1, found) \<leftarrow> nsub_find B imsi ''vlr_sgs_imsi_detach'' n;
     (case found of None \<Rightarrow> Some n1
      | Some a \<Rightarrow> do {
          s \<leftarrow> nsub_get a n1;
          if vs_sgs_state s = SGS_UE_ST_NULL \<and> type = SGSAP_ID_NONEPS_T_IMPLICIT_UE_EPS_NONEPS
          then with_vlr (vlr_subscr_put B a ''vlr_sgs_imsi_detach'') n1
          else do {
            let evt = (if type = SGSAP_ID_NONEPS_T_EXPLICIT_UE_NONEPS then SGS_UE_E_RX_DETACH_IND_FROM_UE
                       else SGS_UE_E_RX_DETACH_IND_FROM_MME);
            n2 \<leftarrow> sgs_dispatch B L E a evt False n1;
            n3 \<leftarrow> with_vlr (\<lambda>v. map_option fst (vlr_subscr_expire B (se_forget E) a v)) n2;
            with_vlr (vlr_subscr_put B a ''vlr_sgs_imsi_detach'') n3 } }) }"

definition vlr_sgs_eps_detach ::
    "'h vlr_lib \<Rightarrow> sgs_lib \<Rightarrow> sgs_env \<Rightarrow> string \<Rightarrow> sgsap_imsi_det_eps_type \<Rightarrow> 'h gsm_network \<Rightarrow> 'h gsm_network option" where
  "vlr_sgs_eps_detach B L E imsi type n = do {
     (n1, found) \<leftarrow> nsub_find B imsi ''vlr_sgs_eps_detach'' n;
     (case found of None \<Rightarrow> Some n1
      | Some a \<Rightarrow> do {
          let evt = (if type = SGSAP_ID_EPS_T_UE_INITIATED then SGS_UE_E_RX_DETACH_IND_FROM_UE else SGS_UE_E_RX_DETACH_IND_FROM_MME);
          n2 \<leftarrow> sgs_dispatch B L E a evt False n1;
          s \<leftarrow> nsub_get a n2;
          n3 \<leftarrow> (if vs_expire_lu s = 0 then with_vlr (vlr_subscr_enable_expire_lu (se_clock E) (se_t3212 E) a) n2 else Some n2);
          let n4 = (if se_forget E then n3\<lparr>net_vlr := v_emit (OPS_SGS_FORGET imsi) (net_vlr n3)\<rparr> else n3);
          with_vlr (vlr_subscr_put B a ''vlr_sgs_eps_detach'') n4 }) }"

definition vlr_sgs_tmsi_reall_compl :: "'h vlr_lib \<Rightarrow> sgs_lib \<Rightarrow> sgs_env \<Rightarrow> string \<Rightarrow> 'h gsm_network \<Rightarrow> 'h gsm_network option" where
  "vlr_sgs_tmsi_reall_compl B L E imsi n = do {
     (n1, found) \<leftarrow> nsub_find B imsi ''vlr_sgs_tmsi_reall_compl'' n;
     (case found of None \<Rightarrow> Some n1
      | Some a \<Rightarrow> do {
          n2 \<leftarrow> sgs_dispatch B L E a SGS_UE_E_RX_TMSI_REALLOC False n1;
          with_vlr (vlr_subscr_put B a ''vlr_sgs_tmsi_reall_compl'') n2 }) }"

definition vlr_sgs_pag_rej :: "'h vlr_lib \<Rightarrow> sgs_lib \<Rightarrow> sgs_env \<Rightarrow> string \<Rightarrow> bool \<Rightarrow> 'h gsm_network \<Rightarrow> 'h gsm_network option" where
  "vlr_sgs_pag_rej B L E imsi rej_user n = do {
     (n1, found) \<leftarrow> nsub_find B imsi ''vlr_sgs_pag_rej'' n;
     (case found of None \<Rightarrow> Some n1
      | Some a \<Rightarrow> do {
          n2 \<leftarrow> sgs_dispatch B L E a SGS_UE_E_RX_PAGING_FAILURE rej_user n1;
          n3 \<leftarrow> with_vlr (vlr_sgs_pag_stop B a) n2;
          with_vlr (vlr_subscr_put B a ''vlr_sgs_pag_rej'') n3 }) }"

definition vlr_sgs_pag_ack :: "'h vlr_lib \<Rightarrow> string \<Rightarrow> 'h gsm_network \<Rightarrow> 'h gsm_network option" where
  "vlr_sgs_pag_ack B imsi n = do {
     (n1, found) \<leftarrow> nsub_find B imsi ''vlr_sgs_pag_ack'' n;
     (case found of None \<Rightarrow> Some n1
      | Some a \<Rightarrow> do {
          n2 \<leftarrow> with_vlr (vlr_sgs_pag_stop B a) n1;
          with_vlr (vlr_subscr_put B a ''vlr_sgs_pag_ack'') n2 }) }"

definition vlr_sgs_ue_unr :: "'h vlr_lib \<Rightarrow> sgs_lib \<Rightarrow> sgs_env \<Rightarrow> string \<Rightarrow> 'h gsm_network \<Rightarrow> 'h gsm_network option" where
  "vlr_sgs_ue_unr B L E imsi n = do {
     (n1, found) \<leftarrow> nsub_find B imsi ''vlr_sgs_ue_unr'' n;
     (case found of None \<Rightarrow> Some n1
      | Some a \<Rightarrow> do {
          n2 \<leftarrow> sgs_dispatch B L E a SGS_UE_E_RX_SGSAP_UE_UNREACHABLE False n1;
          n3 \<leftarrow> with_vlr (vlr_sgs_pag_stop B a) n2;
          with_vlr (vlr_subscr_put B a ''vlr_sgs_ue_unr'') n3 }) }"

text \<open>The timer is no longer pending when its function runs.\<close>

definition Ts5_timeout_cb :: "'h vlr_lib \<Rightarrow> nat \<Rightarrow> 'h gsm_network \<Rightarrow> 'h gsm_network option" where
  "Ts5_timeout_cb B a n = do {
     n1 \<leftarrow> with_vlr (vlr_subscr_get B a ''Ts5_timeout_cb'') n;
     n1 \<leftarrow> nsub_upd a (\<lambda>s. s\<lparr>vs_ts5 := False\<rparr>) n1;
     s \<leftarrow> nsub_get a n1;
     n2 \<leftarrow> (if vs_is_paging s \<and> vs_sgs_cbs s then paging_expired B (Some a) n1 else Some n1);
     n3 \<leftarrow> with_vlr (vlr_subscr_put B a VSUB_USE_SGS_PAGING_REQ) n2;
     let n4 = n3\<lparr>net_vlr := sgs_pag_inflight_dec (net_vlr n3)\<rparr>;
     with_vlr (vlr_subscr_put B a ''Ts5_timeout_cb'') n4 }"

end
