(* ===== verification/Vlr_Sgs_Inv.thy ===== *)
theory Vlr_Sgs_Inv
  imports Vlr_Sgs Vlr_Store_Life Transaction_Inv
begin

text \<open>
  What the SGs machine guarantees.  The proofs run the operations symbolically: \<open>wp m Q\<close> says that the operation
  returns and that its result satisfies \<open>Q\<close>, \<open>sgs_at\<close> that the invariant holds and the subscriber at an address is a
  given record; each operation has one rule in this form.
\<close>

subsection \<open>Symbolic execution\<close>

definition wp :: "'a option \<Rightarrow> ('a \<Rightarrow> bool) \<Rightarrow> bool" where
  "wp m Q \<longleftrightarrow> (\<exists>x. m = Some x \<and> Q x)"

lemma wp_bind [simp]: "wp (Option.bind m f) Q = wp m (\<lambda>x. wp (f x) Q)"
  by (auto simp: wp_def Option.bind_eq_Some_conv)

lemma wp_map [simp]: "wp (map_option g m) Q = wp m (\<lambda>x. Q (g x))"
  by (auto simp: wp_def)

lemma wp_simps [simp]:
  "wp (Some x) Q = Q x" "wp None Q = False" "wp (if b then m else m') Q = (if b then wp m Q else wp m' Q)"
  by (auto simp: wp_def)

lemma wp_mono: "wp m P \<Longrightarrow> (\<And>x. P x \<Longrightarrow> Q x) \<Longrightarrow> wp m Q"
  by (auto simp: wp_def)

subsection \<open>Invariant\<close>

definition ts5_set :: "(nat \<Rightarrow> vlr_subscr option) \<Rightarrow> nat set" where
  "ts5_set h = {a. \<exists>s. h a = Some s \<and> vs_ts5 s}"

text \<open>
  The paging counter is the number of running Ts5 timers, and only a subscriber whose callbacks are set is in a state
  other than SGs-NULL.
\<close>

definition sgs_inv :: "'h vlr_lib \<Rightarrow> 'h gsm_network \<Rightarrow> bool" where
  "sgs_inv B n \<longleftrightarrow> net_inv B n \<and> v_pag_inflight (net_vlr n) = card (ts5_set (v_heap (net_vlr n)))
     \<and> (\<forall>a s. v_heap (net_vlr n) a = Some s \<longrightarrow> vs_sgs_state s \<noteq> SGS_UE_ST_NULL \<longrightarrow> vs_sgs_cbs s)"

definition sgs_at :: "'h vlr_lib \<Rightarrow> nat \<Rightarrow> vlr_subscr \<Rightarrow> 'h gsm_network \<Rightarrow> bool" where
  "sgs_at B a s n \<longleftrightarrow> sgs_inv B n \<and> v_heap (net_vlr n) a = Some s"

lemma sgs_inv_vlr: "sgs_inv B n \<Longrightarrow> vlr_inv B (net_vlr n)" "sgs_inv B n \<Longrightarrow> net_inv B n"
  by (simp_all add: sgs_inv_def net_inv_def)

lemma sgs_atD:
  assumes "sgs_at B a s n"
  shows "sgs_inv B n" "v_heap (net_vlr n) a = Some s" "vsub_get a (net_vlr n) = Some s" "vsub_ok B s"
    "vs_sgs_state s \<noteq> SGS_UE_ST_NULL \<Longrightarrow> vs_sgs_cbs s" "vs_requests s \<noteq> [] \<Longrightarrow> vs_is_paging s"
proof -
  show 1: "sgs_inv B n" "v_heap (net_vlr n) a = Some s" "vsub_get a (net_vlr n) = Some s" using assms by (simp_all add: sgs_at_def vsub_get_def)
  show "vsub_ok B s" by (rule vlr_inv_ok [OF sgs_inv_vlr(1) [OF 1(1)] 1(2)])
  show "vs_sgs_cbs s" if "vs_sgs_state s \<noteq> SGS_UE_ST_NULL" using 1 that by (simp add: sgs_inv_def)
  show "vs_is_paging s" if "vs_requests s \<noteq> []" using 1 that unfolding sgs_inv_def net_inv_def paging_ok_def by blast
qed

lemma sgs_emit [simp]: "sgs_inv B (n_emit x n) = sgs_inv B n" "sgs_at B a s (n_emit x n) = sgs_at B a s n"
  by (simp_all add: sgs_inv_def sgs_at_def)

lemma finite_ts5_set: "vlr_inv B v \<Longrightarrow> finite (ts5_set (v_heap v))"
proof -
  assume "vlr_inv B v"
  then have "finite (dom (v_heap v))" by (metis List.finite_set vlr_inv_def)
  then show ?thesis by (rule rev_finite_subset) (auto simp: ts5_set_def)
qed

lemma card_ts5_upd:
  assumes "vlr_inv B v" and "touched a v v'" and "v_heap v a = Some s" and "v_heap v' a = Some s'"
  shows "card (ts5_set (v_heap v')) + of_bool (vs_ts5 s) = card (ts5_set (v_heap v)) + of_bool (vs_ts5 s')"
proof -
  have h: "v_heap v' = (v_heap v)(a \<mapsto> s')" using assms(2,4) by (auto simp: touched_def fun_eq_iff)
  have "ts5_set (v_heap v') = (if vs_ts5 s' then insert a (ts5_set (v_heap v)) else ts5_set (v_heap v) - {a})"
    unfolding h by (auto simp: ts5_set_def)
  moreover have "a \<in> ts5_set (v_heap v) \<longleftrightarrow> vs_ts5 s" using assms(3) by (simp add: ts5_set_def)
  moreover note fin = finite_ts5_set [OF assms(1)]
  moreover have "vs_ts5 s \<Longrightarrow> card (ts5_set (v_heap v)) > 0" using calculation by (auto simp: card_gt_0_iff)
  ultimately show ?thesis by (auto simp: card_insert_if)
qed

text \<open>A change of one record.\<close>

lemma sgs_vlr_upd:
  assumes at: "sgs_at B a s n" and v: "vlr_inv B v'" "touched a (net_vlr n) v'" "v_heap v' a = Some s'"
    and r: "vs_requests s' = vs_requests s" "vs_requests s \<noteq> [] \<Longrightarrow> vs_is_paging s'"
    and u: "\<And>ty. uc_by B (trans_vsub_use ty) (vs_uses s) \<le> uc_by B (trans_vsub_use ty) (vs_uses s')"
    and cb: "vs_sgs_state s' \<noteq> SGS_UE_ST_NULL \<Longrightarrow> vs_sgs_cbs s'"
    and pag: "v_pag_inflight v' + of_bool (vs_ts5 s) = v_pag_inflight (net_vlr n) + of_bool (vs_ts5 s')"
  shows "sgs_at B a s' (n\<lparr>net_vlr := v'\<rparr>)"
proof -
  note d = sgs_atD [OF at] and i = sgs_inv_vlr [OF sgs_atD(1) [OF at]]
  have "net_inv B (n\<lparr>net_vlr := v'\<rparr>)" using net_vlr_upd [OF i(2) v(1,2) d(2) v(3) r(1) _ u] r(2) by blast
  moreover have "v_pag_inflight v' = card (ts5_set (v_heap v'))"
    using card_ts5_upd [OF i(1) v(2) d(2) v(3)] pag d(1) by (simp add: sgs_inv_def)
  moreover have "vs_sgs_cbs t" if "v_heap v' b = Some t" "vs_sgs_state t \<noteq> SGS_UE_ST_NULL" for b t
    using that d(1) v(2,3) cb by (cases "b = a") (auto simp: sgs_inv_def touched_def)
  ultimately show ?thesis using v(3) by (simp add: sgs_at_def sgs_inv_def)
qed

lemma upd_wp:
  assumes at: "sgs_at B a s n" and k: "same_keys s (f s)" "vsub_ok B (f s)" "vs_uses (f s) = vs_uses s" "vs_requests (f s) = vs_requests s"
    and p: "vs_is_paging (f s) = vs_is_paging s" "vs_ts5 (f s) = vs_ts5 s" "vs_sgs_state (f s) \<noteq> SGS_UE_ST_NULL \<Longrightarrow> vs_sgs_cbs (f s)"
    and Q: "\<And>n'. sgs_at B a (f s) n' \<Longrightarrow> net_out n' = net_out n \<Longrightarrow> Q n'"
  shows "wp (nsub_upd a f n) Q"
proof -
  note d = sgs_atD [OF at] and i = sgs_inv_vlr [OF sgs_atD(1) [OF at]]
  have "sgs_at B a (f s) (n\<lparr>net_vlr := put_sub a (f s) (net_vlr n)\<rparr>)"
    by (rule sgs_vlr_upd [OF at put_sub_inv [OF i(1) d(2) k(1,2)]])
      (use k p d(6) in \<open>simp_all add: touched_def put_sub_def\<close>)
  from Q [OF this] show ?thesis using vsub_upd_eq [OF d(2)] by (simp add: with_vlr_def)
qed

lemma get_wp:
  assumes laws: "use_laws B" and at: "sgs_at B a s n"
    and Q: "\<And>n' m. sgs_at B a (s\<lparr>vs_uses := uc_change B u 1 (vs_uses s), vs_max_uses := m\<rparr>) n' \<Longrightarrow> net_out n' = net_out n \<Longrightarrow>
      (\<And>b. b \<noteq> a \<Longrightarrow> v_heap (net_vlr n') b = v_heap (net_vlr n) b) \<Longrightarrow> Q n'"
  shows "wp (with_vlr (vlr_subscr_get B a u) n) Q"
proof -
  note d = sgs_atD [OF at] and i = sgs_inv_vlr [OF sgs_atD(1) [OF at]]
  from get_alive [OF laws d(2,4), of u] obtain m where
    g: "vlr_subscr_get B a u (net_vlr n) = Some (put_sub a (s\<lparr>vs_uses := uc_change B u 1 (vs_uses s), vs_max_uses := m\<rparr>) (net_vlr n))"
      (is "_ = Some (put_sub a ?s _)") .
  have "vsub_ok B ?s" using d(4) by (auto simp: vsub_ok_def use_lawsD [OF laws])
  then have "sgs_at B a ?s (n\<lparr>net_vlr := put_sub a ?s (net_vlr n)\<rparr>)"
    by (intro sgs_vlr_upd [OF at put_sub_inv [OF i(1) d(2)]])
      (use d(5,6) in \<open>simp_all add: touched_def put_sub_def same_keys_def use_lawsD [OF laws]\<close>)
  from Q [OF this] show ?thesis using g by (simp add: with_vlr_def)
qed

text \<open>Dropping a reference while another one is held, and dropping any reference.\<close>

abbreviation flag_uses :: "string set" where
  "flag_uses \<equiv> {VSUB_USE_ATTACHED, VSUB_USE_PAGING, VSUB_USE_SGS_PAGING_REQ}"

definition trans_use :: "string \<Rightarrow> bool" where
  "trans_use u \<longleftrightarrow> (\<exists>ty. u = trans_vsub_use ty)"

lemma trans_use_free [simp]:
  "\<not> trans_use VSUB_USE_ATTACHED" "\<not> trans_use VSUB_USE_PAGING" "\<not> trans_use VSUB_USE_SGS_PAGING_REQ" "\<not> trans_use VSUB_USE_SGS_LU"
  "\<not> trans_use ''to_null''" "\<not> trans_use USE_ALLOC_TMSI" "\<not> trans_use ''vlr_sgs_reset_mme''" "\<not> trans_use ''Ts5_timeout_cb''"
  by (auto simp: trans_use_def trans_vsub_use_def trans_type_names_def split: trans_type.splits)

lemma put_alive_wp:
  assumes laws: "use_laws B" and at: "sgs_at B a s n" and u: "1 \<le> uc_by B u (vs_uses s)" "2 \<le> uc_total B (vs_uses s)" "\<not> trans_use u"
    and f: "u = VSUB_USE_ATTACHED \<Longrightarrow> \<not> vs_lu_complete s" "u = VSUB_USE_PAGING \<Longrightarrow> \<not> vs_is_paging s" "u = VSUB_USE_SGS_PAGING_REQ \<Longrightarrow> \<not> vs_ts5 s"
    and Q: "\<And>n' m. sgs_at B a (s\<lparr>vs_uses := uc_change B u (- 1) (vs_uses s), vs_max_uses := m\<rparr>) n' \<Longrightarrow> net_out n' = net_out n \<Longrightarrow>
      (\<And>b. b \<noteq> a \<Longrightarrow> v_heap (net_vlr n') b = v_heap (net_vlr n) b) \<Longrightarrow> Q n'"
  shows "wp (with_vlr (vlr_subscr_put B a u) n) Q"
proof -
  note d = sgs_atD [OF at] and i = sgs_inv_vlr [OF sgs_atD(1) [OF at]]
  from put_alive [OF d(2) laws u(1,2)] obtain m where
    g: "vlr_subscr_put B a u (net_vlr n) = Some (put_sub a (s\<lparr>vs_uses := uc_change B u (- 1) (vs_uses s), vs_max_uses := m\<rparr>) (net_vlr n))"
      (is "_ = Some (put_sub a ?s _)") .
  have "vsub_ok B ?s" using d(4) u f by (auto simp: vsub_ok_def use_lawsD [OF laws])
  then have "sgs_at B a ?s (n\<lparr>net_vlr := put_sub a ?s (net_vlr n)\<rparr>)"
    by (intro sgs_vlr_upd [OF at put_sub_inv [OF i(1) d(2)]])
      (use d(5,6) u in \<open>auto simp: touched_def put_sub_def same_keys_def use_lawsD [OF laws] trans_use_def\<close>)
  from Q [OF this] show ?thesis using g by (simp add: with_vlr_def)
qed

lemma put_keep_wp:
  assumes laws: "use_laws B" and at: "sgs_at B a s n" and u: "1 \<le> uc_by B u (vs_uses s)" and w: "w \<noteq> u" "1 \<le> uc_by B w (vs_uses s)"
    and f: "u = VSUB_USE_ATTACHED \<Longrightarrow> \<not> vs_lu_complete s" "u = VSUB_USE_PAGING \<Longrightarrow> \<not> vs_is_paging s" "u = VSUB_USE_SGS_PAGING_REQ \<Longrightarrow> \<not> vs_ts5 s"
    and t: "\<not> trans_use u"
    and Q: "\<And>n' m. sgs_at B a (s\<lparr>vs_uses := uc_change B u (- 1) (vs_uses s), vs_max_uses := m\<rparr>) n' \<Longrightarrow> net_out n' = net_out n \<Longrightarrow> Q n'"
  shows "wp (with_vlr (vlr_subscr_put B a u) n) Q"
proof -
  have "2 \<le> uc_total B (vs_uses s)" by (rule two_refs [OF laws sgs_atD(4) [OF at] u _ w(2)]) (use w(1) in simp)
  then show ?thesis by (rule put_alive_wp [OF laws at u _ t]) (use f Q in simp_all)
qed

lemma freed_heap [simp]: "v_heap (freed B a s v) = (v_heap v)(a := None)" "v_pag_inflight (freed B a s v) = v_pag_inflight v"
  by (simp_all add: freed_def)

lemma put_last_sgs:
  assumes laws: "hash_laws B" "use_laws B" and at: "sgs_at B a s n" and u: "1 \<le> uc_by B u (vs_uses s)" "uc_total B (vs_uses s) = 1"
    and t: "\<not> trans_use u" "u \<notin> flag_uses"
  shows "sgs_inv B (n\<lparr>net_vlr := freed B a s (net_vlr n)\<rparr>)"
proof -
  note d = sgs_atD [OF at] and i = sgs_inv_vlr [OF sgs_atD(1) [OF at]]
  let ?n = "n\<lparr>net_vlr := freed B a s (net_vlr n)\<rparr>"
  have "tr_vsub x \<noteq> Some a" if "net_trans n t = Some x" for t x
    using t(1) by (intro no_trans_on_last_ref [OF laws(2) i(2) d(2) u(2,1) _ that]) (auto simp: trans_use_def)
  then have "net_inv B ?n" by (intro net_vlr_gone [OF i(2) freed_inv [OF laws(1) i(1) d(2)]]) (auto simp: touched_def)
  moreover have "\<not> vs_ts5 s"
    using two_refs [OF laws(2) d(4) u(1), of VSUB_USE_SGS_PAGING_REQ] u(2) t(2) d(4) by (auto simp: vsub_ok_def)
  then have "ts5_set ((v_heap (net_vlr n))(a := None)) = ts5_set (v_heap (net_vlr n))" using d(2) by (auto simp: ts5_set_def)
  ultimately show ?thesis using d(1) by (auto simp: sgs_inv_def)
qed

lemma put_wp:
  assumes laws: "hash_laws B" "use_laws B" and at: "sgs_at B a s n" and u: "1 \<le> uc_by B u (vs_uses s)" "u \<notin> flag_uses" "\<not> trans_use u"
    and kept: "\<And>n' m. sgs_at B a (s\<lparr>vs_uses := uc_change B u (- 1) (vs_uses s), vs_max_uses := m\<rparr>) n' \<Longrightarrow>
      (\<And>b. b \<noteq> a \<Longrightarrow> v_heap (net_vlr n') b = v_heap (net_vlr n) b) \<Longrightarrow> Q n'"
    and gone: "\<And>n'. sgs_inv B n' \<Longrightarrow> uc_total B (vs_uses s) = 1 \<Longrightarrow> v_heap (net_vlr n') = (v_heap (net_vlr n))(a := None) \<Longrightarrow> Q n'"
  shows "wp (with_vlr (vlr_subscr_put B a u) n) Q"
proof -
  note d = sgs_atD [OF at] and i = sgs_inv_vlr [OF sgs_atD(1) [OF at]]
  have "1 \<le> uc_total B (vs_uses s)" using vsub_ok_total [OF laws(2) d(4), of u] u by simp
  then consider "uc_total B (vs_uses s) = 1" | "2 \<le> uc_total B (vs_uses s)" by linarith
  then show ?thesis
  proof cases
    case 1
    from put_last [OF d(2) laws(2) u(1) this] gone [OF put_last_sgs [OF laws at u(1) 1 u(3,2)] 1] show ?thesis by (simp add: with_vlr_def)
  next
    case 2
    then show ?thesis by (rule put_alive_wp [OF laws(2) at u(1) _ u(3)]) (use u(2) kept in simp_all)
  qed
qed

lemma unlink_sgs:
  assumes "sgs_inv B n" and "net_inv B n'" and "net_vlr n' = unlink_request p (net_vlr n)"
  shows "sgs_inv B n'"
proof -
  have "ts5_set (v_heap (net_vlr n')) = ts5_set (v_heap (net_vlr n))" by (auto simp: assms(3) ts5_set_def unlink_heap)
  moreover have "v_pag_inflight (net_vlr n') = v_pag_inflight (net_vlr n)" by (simp add: assms(3) unlink_request_def)
  ultimately show ?thesis using assms by (auto simp: sgs_inv_def unlink_heap)
qed

lemma conclude_wp:
  "sgs_at B a s n \<Longrightarrow> vs_requests s = ps \<Longrightarrow> wp (conclude_loop m ps n) (sgs_at B a (s\<lparr>vs_requests := []\<rparr>))"
proof (induction ps arbitrary: n s)
  case Nil
  then have eq: "s\<lparr>vs_requests := []\<rparr> = s" by (cases s) simp
  show ?case unfolding eq conclude_loop.simps wp_simps by (rule Nil.prems)
next
  case (Cons p ps)
  note d = sgs_atD [OF Cons.prems(1)] and i = sgs_inv_vlr [OF sgs_atD(1) [OF Cons.prems(1)]]
  obtain r where r: "net_pr n p = Some r"
    using i(2) d(2) Cons.prems(2) unfolding net_inv_def paging_ok_def by (metis list.set_intros(1) not_None_eq)
  obtain n1 where n1: "paging_request_remove p n = Some n1" "net_inv B n1" "net_vlr n1 = unlink_request p (net_vlr n)"
    using request_remove_ok [OF i(2) r] by blast
  have "sgs_at B a (s\<lparr>vs_requests := ps\<rparr>) n1"
    using unlink_sgs [OF d(1) n1(2,3)] d(2) Cons.prems(2) by (simp add: sgs_at_def n1(3) unlink_heap)
  then have "sgs_at B a (s\<lparr>vs_requests := ps\<rparr>) (case pr_cb r of None \<Rightarrow> n1 | Some cb \<Rightarrow> n_emit (CALL_PAGING_CB cb m (pr_trans r)) n1)"
    by (simp split: option.splits)
  from Cons.IH [OF this] show ?case using r n1(1) by simp
qed

text \<open>A paging that expires: the requests are gone, and so is the reference for them.\<close>

lemma stop_wp:
  assumes laws: "use_laws B" and at: "sgs_at B a s n" and r: "vs_requests s = []" and w: "w \<noteq> VSUB_USE_PAGING" "1 \<le> uc_by B w (vs_uses s)"
    and p: "vs_is_paging s"
    and Q: "\<And>n' m. sgs_at B a (s\<lparr>vs_is_paging := False, vs_uses := uc_change B VSUB_USE_PAGING (- 1) (vs_uses s), vs_max_uses := m\<rparr>) n' \<Longrightarrow> Q n'"
  shows "wp (do { n' \<leftarrow> nsub_upd a (\<lambda>s. s\<lparr>vs_is_paging := False\<rparr>) n; with_vlr (vlr_subscr_put B a VSUB_USE_PAGING) n' }) Q"
proof -
  note d = sgs_atD [OF at] and i = sgs_inv_vlr [OF sgs_atD(1) [OF at]]
  let ?s = "s\<lparr>vs_is_paging := False\<rparr>"
  have pg: "1 \<le> uc_by B VSUB_USE_PAGING (vs_uses s)" using d(4) p by (simp add: vsub_ok_def)
  have ok: "vsub_ok B ?s" using d(4) by (simp add: vsub_ok_def)
  have "sgs_at B a ?s (n\<lparr>net_vlr := put_sub a ?s (net_vlr n)\<rparr>)"
    by (rule sgs_vlr_upd [OF at put_sub_inv [OF i(1) d(2) _ ok]]) (use r d(5) in \<open>simp_all add: touched_def put_sub_def same_keys_def\<close>)
  from put_keep_wp [OF laws this, of VSUB_USE_PAGING w] w pg Q
  show ?thesis using vsub_upd_eq [OF d(2)] by (simp add: with_vlr_def)
qed

lemma expired_wp:
  assumes laws: "use_laws B" and at: "sgs_at B a s n" and w: "w \<noteq> VSUB_USE_PAGING" "1 \<le> uc_by B w (vs_uses s)"
    and Q: "\<And>n' es m. sgs_at B a (s\<lparr>vs_paging_timer := False, vs_requests := [], vs_is_paging := False, vs_uses := es, vs_max_uses := m\<rparr>) n' \<Longrightarrow>
      (\<And>u. u \<noteq> VSUB_USE_PAGING \<Longrightarrow> uc_by B u es = uc_by B u (vs_uses s)) \<Longrightarrow> Q n'"
  shows "wp (paging_expired B (Some a) n) Q"
proof -
  let ?s1 = "s\<lparr>vs_paging_timer := False\<rparr>" and ?s2 = "s\<lparr>vs_paging_timer := False, vs_requests := []\<rparr>"
  note ok = sgs_atD(4) [OF at]
  have fin: "wp (if vs_is_paging s then do { n' \<leftarrow> nsub_upd a (\<lambda>s. s\<lparr>vs_is_paging := False\<rparr>) n3; with_vlr (vlr_subscr_put B a VSUB_USE_PAGING) n' }
      else Some n3) Q" if n3: "sgs_at B a ?s2 n3" for n3
  proof (cases "vs_is_paging s")
    case True
    show ?thesis unfolding if_P [OF True]
      by (rule stop_wp [OF laws n3, of w]) (use w True Q in \<open>simp_all add: use_lawsD [OF laws]\<close>)
  next
    case False
    then have eq: "?s2 = s\<lparr>vs_paging_timer := False, vs_requests := [], vs_is_paging := False, vs_uses := vs_uses s, vs_max_uses := vs_max_uses s\<rparr>"
      by (cases s) simp
    have "Q n3" by (rule Q [OF n3 [THEN subst [OF eq, where P = "\<lambda>s. sgs_at B a s n3"]]]) simp
    with False show ?thesis by simp
  qed
  have rest: "wp (do { s3 \<leftarrow> nsub_get a n3;
      if vs_is_paging s3 then do { n' \<leftarrow> nsub_upd a (\<lambda>s. s\<lparr>vs_is_paging := False\<rparr>) n3; with_vlr (vlr_subscr_put B a VSUB_USE_PAGING) n' }
      else Some n3 }) Q" if "sgs_at B a ?s2 n3" for n3
    using fin [OF that] by (simp only: sgs_atD(3) [OF that] bind.bind_lunit) simp
  have "wp (do { n2 \<leftarrow> conclude_loop None (vs_requests s) n1; let n3 = n_emit (SIGNAL_PAGING a None) n2; s3 \<leftarrow> nsub_get a n3;
      if vs_is_paging s3 then do { n' \<leftarrow> nsub_upd a (\<lambda>s. s\<lparr>vs_is_paging := False\<rparr>) n3; with_vlr (vlr_subscr_put B a VSUB_USE_PAGING) n' }
      else Some n3 }) Q" if n1: "sgs_at B a ?s1 n1" for n1
  proof -
    have "wp (conclude_loop None (vs_requests s) n1) (sgs_at B a ?s2)" using conclude_wp [OF n1 refl] by simp
    then show ?thesis unfolding wp_bind Let_def
      by (rule wp_mono) (rule rest [unfolded wp_bind], simp)
  qed
  moreover have "vsub_ok B ?s1" using ok by (simp add: vsub_ok_def)
  ultimately have "wp (nsub_upd a (\<lambda>s. s\<lparr>vs_paging_timer := False\<rparr>) n) (\<lambda>n1. wp (do { s \<leftarrow> nsub_get a n1; n2 \<leftarrow> conclude_loop None (vs_requests s) n1;
      let n3 = n_emit (SIGNAL_PAGING a None) n2; s3 \<leftarrow> nsub_get a n3;
      if vs_is_paging s3 then do { n' \<leftarrow> nsub_upd a (\<lambda>s. s\<lparr>vs_is_paging := False\<rparr>) n3; with_vlr (vlr_subscr_put B a VSUB_USE_PAGING) n' }
      else Some n3 }) Q)"
    by (intro upd_wp [OF at]) (use sgs_atD(5) [OF at] in \<open>simp_all add: same_keys_def sgs_atD(3)\<close>)
  then show ?thesis by (simp add: paging_expired_def paging_concludes_def)
qed

text \<open>Stopping the timer Ts5.\<close>

lemma inflight_dec_sgs:
  assumes "net_inv B n" and "card (ts5_set (v_heap (net_vlr n))) = v_pag_inflight (net_vlr n) - 1" and "0 < v_pag_inflight (net_vlr n)"
    and "\<forall>a s. v_heap (net_vlr n) a = Some s \<longrightarrow> vs_sgs_state s \<noteq> SGS_UE_ST_NULL \<longrightarrow> vs_sgs_cbs s"
  shows "sgs_inv B (n\<lparr>net_vlr := sgs_pag_inflight_dec (net_vlr n)\<rparr>)"
  using assms by (simp add: sgs_inv_def sgs_pag_inflight_dec_def net_inv_def vlr_inv_def trans_ok_def paging_ok_def)

lemma pag_stop_wp:
  assumes laws: "hash_laws B" "use_laws B" and at: "sgs_at B a s n" and w: "w \<noteq> VSUB_USE_SGS_PAGING_REQ" "1 \<le> uc_by B w (vs_uses s)"
    and Q: "\<And>n' es m. sgs_at B a (s\<lparr>vs_ts5 := False, vs_uses := es, vs_max_uses := m\<rparr>) n' \<Longrightarrow>
      (\<And>u. u \<noteq> VSUB_USE_SGS_PAGING_REQ \<Longrightarrow> uc_by B u es = uc_by B u (vs_uses s)) \<Longrightarrow> (\<not> vs_ts5 s \<Longrightarrow> es = vs_uses s) \<Longrightarrow> Q n'"
  shows "wp (with_vlr (vlr_sgs_pag_stop B a) n) Q"
proof (cases "vs_ts5 s")
  case False
  then have eq: "s = s\<lparr>vs_ts5 := False, vs_uses := vs_uses s, vs_max_uses := vs_max_uses s\<rparr>" by (cases s) simp
  have "Q n" by (rule Q [OF at [THEN subst [OF eq, where P = "\<lambda>s. sgs_at B a s n"]]]) simp_all
  then show ?thesis using False by (simp add: with_vlr_def vlr_sgs_pag_stop_def sgs_atD(3) [OF at])
next
  case True
  note d = sgs_atD [OF at] and i = sgs_inv_vlr [OF sgs_atD(1) [OF at]]
  let ?s = "s\<lparr>vs_ts5 := False\<rparr>"
  define v1 where "v1 = put_sub a ?s (net_vlr n)"
  have u: "1 \<le> uc_by B VSUB_USE_SGS_PAGING_REQ (vs_uses s)" using d(4) True by (simp add: vsub_ok_def)
  have "vsub_ok B ?s" using d(4) by (simp add: vsub_ok_def)
  then have v1: "vlr_inv B v1" "touched a (net_vlr n) v1" "v_heap v1 a = Some ?s" "v_pag_inflight v1 = v_pag_inflight (net_vlr n)"
    using put_sub_inv [OF i(1) d(2)] by (simp_all add: v1_def touched_def same_keys_def) (simp add: put_sub_def)
  have "2 \<le> uc_total B (vs_uses ?s)" using two_refs [OF laws(2) d(4) u _ w(2)] w(1) by simp
  from put_alive [OF v1(3) laws(2) _ this, of VSUB_USE_SGS_PAGING_REQ] u obtain m where
    g: "vlr_subscr_put B a VSUB_USE_SGS_PAGING_REQ v1 = Some (put_sub a (?s\<lparr>vs_uses := uc_change B VSUB_USE_SGS_PAGING_REQ (- 1) (vs_uses s), vs_max_uses := m\<rparr>) v1)"
      (is "_ = Some (put_sub a ?t _)") by auto
  have t: "vsub_ok B ?t" using d(4) u by (auto simp: vsub_ok_def use_lawsD [OF laws(2)])
  have h: "put_sub a ?t v1 = put_sub a ?t (net_vlr n)" by (simp add: v1_def)
  let ?n = "n\<lparr>net_vlr := put_sub a ?t (net_vlr n)\<rparr>"
  have tch: "touched a (net_vlr n) (put_sub a ?t (net_vlr n))" by (simp add: touched_def)
  have inv: "vlr_inv B (put_sub a ?t (net_vlr n))" by (rule put_sub_inv [OF i(1) d(2) _ t]) (simp add: same_keys_def)
  have "net_inv B ?n"
    by (rule net_vlr_upd [OF i(2) inv tch d(2), where s' = ?t]) (use d(6) trans_vsub_use_not_special(3) in \<open>simp_all add: use_lawsD [OF laws(2)]\<close>)
  moreover have "card (ts5_set (v_heap (put_sub a ?t (net_vlr n)))) + 1 = v_pag_inflight (net_vlr n)"
    using card_ts5_upd [OF i(1) tch d(2), of ?t] True d(1) by (simp add: sgs_inv_def)
  moreover have "v_pag_inflight (put_sub a ?t (net_vlr n)) = v_pag_inflight (net_vlr n)" by (simp add: put_sub_def)
  ultimately have "sgs_inv B (?n\<lparr>net_vlr := sgs_pag_inflight_dec (net_vlr ?n)\<rparr>)"
    using d(1,5) by (intro inflight_dec_sgs) (auto simp: sgs_inv_def)
  then have "sgs_at B a ?t (?n\<lparr>net_vlr := sgs_pag_inflight_dec (net_vlr ?n)\<rparr>)" by (simp add: sgs_at_def sgs_pag_inflight_dec_def)
  from Q [OF this] show ?thesis
    using True vsub_upd_eq [OF d(2)] g [unfolded h] by (simp add: with_vlr_def vlr_sgs_pag_stop_def d(3) v1_def use_lawsD [OF laws(2)])
qed

text \<open>Changing the temporary identities and linking the record anew.\<close>

lemma retmsi_wp:
  assumes laws: "hash_laws B" and at: "sgs_at B a s n"
    and k: "vs_imsi (f s) = vs_imsi s" "vs_lu_complete (f s) = vs_lu_complete s" "vsub_ok B (f s)" "vs_uses (f s) = vs_uses s" "vs_requests (f s) = vs_requests s"
    and p: "vs_is_paging (f s) = vs_is_paging s" "vs_ts5 (f s) = vs_ts5 s" "vs_sgs_state (f s) \<noteq> SGS_UE_ST_NULL \<Longrightarrow> vs_sgs_cbs (f s)"
    and Q: "\<And>n'. sgs_at B a (f s) n' \<Longrightarrow> net_out n' = net_out n \<Longrightarrow> (\<And>b. b \<noteq> a \<Longrightarrow> v_heap (net_vlr n') b = v_heap (net_vlr n) b) \<Longrightarrow> Q n'"
  shows "wp (nsub_upd a f n) (\<lambda>n1. wp (with_vlr (vlr_subscr_rehash_tmsi B a) n1) Q)"
proof -
  note d = sgs_atD [OF at] and i = sgs_inv_vlr [OF sgs_atD(1) [OF at]]
  let ?h = "(v_heap (net_vlr n))(a \<mapsto> f s)" and ?v = "put_sub a (f s) (net_vlr n)"
  define t2 where "t2 = relinked B tmsi_key a (f s) (v_by_tmsi (net_vlr n))"
  define t3 where "t3 = relinked B tmsi_new_key a (f s) (v_by_tmsi_new (net_vlr n))"
  have "hash_ok B (imsi_key B) ?h (v_by_imsi (net_vlr n))" "hash_ok B tmsi_key ?h t2" "hash_ok B tmsi_new_key ?h t3"
    using i(1) d(2) k(1) by (auto simp: vlr_inv_def t2_def t3_def imsi_key_def intro!: hash_ok_relinked [OF laws] hash_ok_upd)
  from replace_inv [OF i(1) d(2) k(3,2) _ this] have "vlr_inv B (?v\<lparr>v_by_imsi := v_by_imsi (net_vlr n), v_by_tmsi := t2, v_by_tmsi_new := t3\<rparr>)"
    using imsi_uniqueD [OF i(1) d(2)] k(1) by metis
  moreover have "?v\<lparr>v_by_imsi := v_by_imsi (net_vlr n), v_by_tmsi := t2, v_by_tmsi_new := t3\<rparr> = ?v\<lparr>v_by_tmsi := t2, v_by_tmsi_new := t3\<rparr>"
    by (simp add: put_sub_def)
  ultimately have inv: "vlr_inv B (?v\<lparr>v_by_tmsi := t2, v_by_tmsi_new := t3\<rparr>)" by (simp only:)
  have "sgs_at B a (f s) (n\<lparr>net_vlr := ?v\<lparr>v_by_tmsi := t2, v_by_tmsi_new := t3\<rparr>\<rparr>)"
    by (rule sgs_vlr_upd [OF at inv]) (use k p d(6) in \<open>simp_all add: touched_def put_sub_def\<close>)
  from Q [OF this] show ?thesis
    using vsub_upd_eq [OF d(2)] rehash_tmsi_eq [of ?v a "f s" B] by (simp add: with_vlr_def t2_def t3_def)
qed

lemma state_chg_wp:
  assumes L: "fsm_laws L" and at: "sgs_at B a s n" and cb: "st \<noteq> SGS_UE_ST_NULL \<Longrightarrow> vs_sgs_cbs s"
    and Q: "\<And>n'. sgs_at B a (s\<lparr>vs_sgs_state := st, vs_ts6_2 := (secs > 0)\<rparr>) n' \<Longrightarrow> net_out n' = net_out n \<Longrightarrow> Q n'"
  shows "wp (sgs_state_chg L a st secs n) Q"
proof -
  have "chg_allowed L (out_state_mask (sgs_ue_fsm_states st')) False st" for st'
    using L by (cases st; cases st') (simp_all add: fsm_laws_def sgs_ue_fsm_states_def)
  then show ?thesis unfolding sgs_state_chg_def
    by (intro upd_wp [OF at]) (use sgs_atD(4) [OF at] cb Q in \<open>auto simp: same_keys_def vsub_ok_def\<close>)
qed

text \<open>Registering the subscriber.\<close>

lemma register_wp:
  assumes laws: "use_laws B" and at: "sgs_at B a s n" and nc: "\<not> vs_lu_complete s"
    and Q: "\<And>n' m. sgs_at B a (s\<lparr>vs_lu_complete := True, vs_uses := uc_change B VSUB_USE_ATTACHED 1 (vs_uses s), vs_max_uses := m\<rparr>) n' \<Longrightarrow> Q n'"
  shows "wp (with_vlr (vlr_subscr_set_lu_complete a True) n) (\<lambda>n1. wp (with_vlr (vlr_subscr_get B a VSUB_USE_ATTACHED) n1) Q)"
proof -
  note d = sgs_atD [OF at] and i = sgs_inv_vlr [OF sgs_atD(1) [OF at]]
  let ?s = "s\<lparr>vs_lu_complete := True\<rparr>"
  let ?v = "(put_sub a ?s (net_vlr n))\<lparr>v_lu_complete := v_lu_complete (net_vlr n) + 1\<rparr>"
  have e1: "vlr_subscr_set_lu_complete a True (net_vlr n) = Some ?v"
    using nc d(3) vsub_upd_eq [OF d(2)] by (simp add: vlr_subscr_set_lu_complete_def)
  have tot: "0 \<le> uc_by B VSUB_USE_ATTACHED (vs_uses s)" "0 \<le> uc_total B (vs_uses s)"
    using d(4) vsub_ok_total [OF laws d(4), of VSUB_USE_ATTACHED] by (simp_all add: vsub_ok_def) (metis dual_order.trans)
  have "v_heap ?v a = Some ?s" by simp
  from use_get_put_alive [OF this, of B VSUB_USE_ATTACHED 1] tot obtain m where
    e2: "vlr_subscr_get B a VSUB_USE_ATTACHED ?v = Some (put_sub a (?s\<lparr>vs_uses := uc_change B VSUB_USE_ATTACHED 1 (vs_uses s), vs_max_uses := m\<rparr>) ?v)"
      (is "_ = Some (put_sub a ?t _)") by (auto simp: vlr_subscr_get_def use_lawsD [OF laws])
  have t: "vsub_ok B ?t" using d(4) by (auto simp: vsub_ok_def use_lawsD [OF laws])
  let ?w = "(put_sub a ?t (net_vlr n))\<lparr>v_lu_complete := v_lu_complete (net_vlr n) + 1\<rparr>"
  have w: "put_sub a ?t ?v = ?w" by (simp add: put_sub_def)
  have "a \<notin> lu_set (v_heap (net_vlr n))" using d(2) nc by (simp add: lu_set_def)
  then have "card (lu_set ((v_heap (net_vlr n))(a \<mapsto> ?t))) = card (lu_set (v_heap (net_vlr n))) + 1"
    using finite_lu_set [OF i(1)] by (simp add: lu_set_upd)
  moreover have "insert a (dom (v_heap (net_vlr n))) = dom (v_heap (net_vlr n))" using d(2) by auto
  moreover have "imsi_unique ((v_heap (net_vlr n))(a \<mapsto> ?t))"
    using i(1) d(2) unfolding vlr_inv_def imsi_unique_def by (simp split: if_splits) metis
  moreover have "hash_ok B key (v_heap (net_vlr n)) tb \<Longrightarrow> key ?t = key s \<Longrightarrow> hash_ok B key ((v_heap (net_vlr n))(a \<mapsto> ?t)) tb" for key tb
    using hash_ok_upd [of B key "v_heap (net_vlr n)" tb a s ?t] d(2) by simp
  ultimately have inv: "vlr_inv B ?w" using i(1) t unfolding vlr_inv_def by (simp add: imsi_key_def tmsi_key_def tmsi_new_key_def)
  have "sgs_at B a ?t (n\<lparr>net_vlr := ?w\<rparr>)"
    by (rule sgs_vlr_upd [OF at inv]) (use d(5,6) in \<open>simp_all add: touched_def put_sub_def use_lawsD [OF laws]\<close>)
  from Q [OF this] show ?thesis using e1 e2 [unfolded w] by (simp add: with_vlr_def)
qed

text \<open>Starting the timer Ts5.\<close>

lemma pag_wp:
  assumes laws: "use_laws B" and at: "sgs_at B a s n" and nt: "\<not> vs_ts5 s"
    and Q: "\<And>n' m. sgs_at B a (s\<lparr>vs_ts5 := True, vs_paging_serv := serv, vs_uses := uc_change B VSUB_USE_SGS_PAGING_REQ 1 (vs_uses s), vs_max_uses := m\<rparr>) n' \<Longrightarrow> Q n'"
  shows "wp (vlr_sgs_pag B a serv n) Q"
proof -
  note d = sgs_atD [OF at] and i = sgs_inv_vlr [OF sgs_atD(1) [OF at]]
  let ?s = "s\<lparr>vs_ts5 := True, vs_paging_serv := serv\<rparr>"
  let ?v = "put_sub a ?s (net_vlr n)"
  have tot: "0 \<le> uc_by B VSUB_USE_SGS_PAGING_REQ (vs_uses s)" "0 \<le> uc_total B (vs_uses s)"
    using d(4) vsub_ok_total [OF laws d(4), of VSUB_USE_ATTACHED] by (simp_all add: vsub_ok_def) (metis dual_order.trans)
  have "v_heap ?v a = Some ?s" by simp
  from use_get_put_alive [OF this, of B VSUB_USE_SGS_PAGING_REQ 1] tot obtain m where
    e2: "vlr_subscr_get B a VSUB_USE_SGS_PAGING_REQ ?v = Some (put_sub a (?s\<lparr>vs_uses := uc_change B VSUB_USE_SGS_PAGING_REQ 1 (vs_uses s), vs_max_uses := m\<rparr>) ?v)"
      (is "_ = Some (put_sub a ?t _)") by (auto simp: vlr_subscr_get_def use_lawsD [OF laws])
  have t: "vsub_ok B ?t" using d(4) by (auto simp: vsub_ok_def use_lawsD [OF laws])
  let ?w = "sgs_pag_inflight_inc (put_sub a ?t (net_vlr n))"
  have "vlr_inv B (put_sub a ?t (net_vlr n))" by (rule put_sub_inv [OF i(1) d(2) _ t]) (simp add: same_keys_def)
  then have inv: "vlr_inv B ?w" by (simp add: vlr_inv_def sgs_pag_inflight_inc_def)
  have "sgs_at B a ?t (n\<lparr>net_vlr := ?w\<rparr>)"
    by (rule sgs_vlr_upd [OF at inv]) (use d(5,6) nt in \<open>simp_all add: touched_def put_sub_def sgs_pag_inflight_inc_def use_lawsD [OF laws]\<close>)
  from Q [OF this] show ?thesis
    using nt d(3) e2 vsub_upd_eq [OF d(2)] by (simp add: vlr_sgs_pag_def with_vlr_def)
qed

subsection \<open>Returning to SGs-NULL\<close>

text \<open>What \<open>to_null()\<close> leaves of the record; the references for pagings are not shown.\<close>

definition nulled :: "vlr_subscr \<Rightarrow> vlr_subscr \<Rightarrow> bool" where
  "nulled s s' \<longleftrightarrow> s' = s\<lparr>vs_sgs_state := SGS_UE_ST_NULL, vs_ts6_2 := False, vs_conf_by_radio := False, vs_tmsi_new := GSM_RESERVED_TMSI,
       vs_last_eutran_plmn := None, vs_ts5 := False, vs_is_paging := vs_is_paging s', vs_paging_timer := vs_paging_timer s',
       vs_requests := vs_requests s', vs_uses := vs_uses s', vs_max_uses := vs_max_uses s'\<rparr>
     \<and> (vs_sgs_cbs s \<longrightarrow> \<not> vs_is_paging s')"

definition same_uses :: "'h vlr_lib \<Rightarrow> string set \<Rightarrow> vlr_subscr \<Rightarrow> vlr_subscr \<Rightarrow> bool" where
  "same_uses B U s s' \<longleftrightarrow> (\<forall>u. u \<notin> U \<longrightarrow> uc_by B u (vs_uses s') = uc_by B u (vs_uses s))"

lemma nulledD:
  assumes "nulled s s'"
  shows "vs_sgs_state s' = SGS_UE_ST_NULL" "vs_sgs_cbs s' = vs_sgs_cbs s" "vs_ts5 s' = False" "vs_lu_complete s' = vs_lu_complete s"
    "vs_tmsi_new s' = GSM_RESERVED_TMSI" "vs_conf_by_radio s' = False" "vs_imsi_detached s' = vs_imsi_detached s"
    "vs_sgs_cbs s \<Longrightarrow> \<not> vs_is_paging s'" "vs_expire_lu s' = vs_expire_lu s" "vs_imsi s' = vs_imsi s"
  using assms by (cases s; cases s'; simp add: nulled_def)+

text \<open>The two references that the paging code releases.\<close>

abbreviation paging_uses :: "string set" where
  "paging_uses \<equiv> {VSUB_USE_PAGING, VSUB_USE_SGS_PAGING_REQ}"

lemma to_null_tail_wp:
  assumes laws: "hash_laws B" "use_laws B" and at: "sgs_at B a s n" and w: "w \<notin> paging_uses" "w \<noteq> ''to_null''" "1 \<le> uc_by B w (vs_uses s)"
    and t: "1 \<le> uc_by B ''to_null'' (vs_uses s)"
    and Q: "\<And>n' es m. sgs_at B a (s\<lparr>vs_ts5 := False, vs_uses := es, vs_max_uses := m\<rparr>) n' \<Longrightarrow>
      (\<And>u. u \<noteq> VSUB_USE_SGS_PAGING_REQ \<Longrightarrow> uc_by B u es = uc_by B u (vs_uses s) - of_bool (u = ''to_null'')) \<Longrightarrow>
      (\<not> vs_ts5 s \<Longrightarrow> uc_total B es = uc_total B (vs_uses s) - 1) \<Longrightarrow> Q n'"
  shows "wp (with_vlr (vlr_sgs_pag_stop B a) n) (\<lambda>n7. wp (with_vlr (vlr_subscr_put B a ''to_null'') n7) Q)"
proof (rule pag_stop_wp [OF laws at, of w])
  fix n1 es m
  assume n1: "sgs_at B a (s\<lparr>vs_ts5 := False, vs_uses := es, vs_max_uses := m\<rparr>) n1"
    and es: "\<And>u. u \<noteq> VSUB_USE_SGS_PAGING_REQ \<Longrightarrow> uc_by B u es = uc_by B u (vs_uses s)" "\<not> vs_ts5 s \<Longrightarrow> es = vs_uses s"
  show "wp (with_vlr (vlr_subscr_put B a ''to_null'') n1) Q"
    by (rule put_keep_wp [OF laws(2) n1, of _ w])
      (use w t es Q in \<open>simp_all add: use_lawsD [OF laws(2)]\<close>)
qed (use w in simp_all)

text \<open>The second half of \<open>to_null()\<close>, from where it holds its own reference.\<close>

definition to_null_end :: "'h vlr_lib \<Rightarrow> nat \<Rightarrow> 'h gsm_network \<Rightarrow> 'h gsm_network option" where
  "to_null_end B a n = do {
     s \<leftarrow> nsub_get a n;
     n6 \<leftarrow> (if vs_is_paging s \<and> vs_sgs_cbs s then paging_expired B (Some a) n else Some n);
     n7 \<leftarrow> with_vlr (vlr_sgs_pag_stop B a) n6;
     with_vlr (vlr_subscr_put B a ''to_null'') n7 }"

lemma to_null_split:
  "to_null B L a n = do {
     n1 \<leftarrow> sgs_state_chg L a SGS_UE_ST_NULL 0 n;
     n2 \<leftarrow> nsub_upd a (\<lambda>s. s\<lparr>vs_conf_by_radio := False, vs_tmsi_new := GSM_RESERVED_TMSI\<rparr>) n1;
     n3 \<leftarrow> with_vlr (vlr_subscr_rehash_tmsi B a) n2;
     n4 \<leftarrow> nsub_upd a (\<lambda>s. s\<lparr>vs_last_eutran_plmn := None\<rparr>) n3;
     n5 \<leftarrow> with_vlr (vlr_subscr_get B a ''to_null'') n4;
     to_null_end B a n5 }"
  by (simp only: to_null_def to_null_end_def vlr_subscr_set_last_used_eutran_plmn_id_def)

lemma to_null_end_wp:
  assumes laws: "hash_laws B" "use_laws B" and at: "sgs_at B a s n" and w: "w \<notin> paging_uses" "w \<noteq> ''to_null''" "1 \<le> uc_by B w (vs_uses s)"
    and t: "1 \<le> uc_by B ''to_null'' (vs_uses s)"
    and Q: "\<And>n' s'. sgs_at B a s' n' \<Longrightarrow> s' = s\<lparr>vs_ts5 := False, vs_is_paging := vs_is_paging s', vs_paging_timer := vs_paging_timer s',
       vs_requests := vs_requests s', vs_uses := vs_uses s', vs_max_uses := vs_max_uses s'\<rparr> \<Longrightarrow> (vs_sgs_cbs s \<Longrightarrow> \<not> vs_is_paging s') \<Longrightarrow>
      (\<And>u. u \<notin> paging_uses \<Longrightarrow> uc_by B u (vs_uses s') = uc_by B u (vs_uses s) - of_bool (u = ''to_null'')) \<Longrightarrow>
      (\<not> vs_ts5 s \<Longrightarrow> \<not> vs_is_paging s \<Longrightarrow> uc_total B (vs_uses s') = uc_total B (vs_uses s) - 1) \<Longrightarrow> Q n'"
  shows "wp (to_null_end B a n) Q"
proof (cases "vs_is_paging s \<and> vs_sgs_cbs s")
  case True
  have "wp (paging_expired B (Some a) n) (\<lambda>n6. wp (with_vlr (vlr_sgs_pag_stop B a) n6) (\<lambda>n7. wp (with_vlr (vlr_subscr_put B a ''to_null'') n7) Q))"
  proof (rule expired_wp [OF laws(2) at, of w])
    fix n6 es m
    let ?s = "s\<lparr>vs_paging_timer := False, vs_requests := [], vs_is_paging := False, vs_uses := es, vs_max_uses := m\<rparr>"
    assume n6: "sgs_at B a ?s n6" and es: "\<And>u. u \<noteq> VSUB_USE_PAGING \<Longrightarrow> uc_by B u es = uc_by B u (vs_uses s)"
    show "wp (with_vlr (vlr_sgs_pag_stop B a) n6) (\<lambda>n7. wp (with_vlr (vlr_subscr_put B a ''to_null'') n7) Q)"
    proof (rule to_null_tail_wp [OF laws n6, of w])
      fix n' es' m' assume a: "sgs_at B a (?s\<lparr>vs_ts5 := False, vs_uses := es', vs_max_uses := m'\<rparr>) n'"
        "\<And>u. u \<noteq> VSUB_USE_SGS_PAGING_REQ \<Longrightarrow> uc_by B u es' = uc_by B u (vs_uses ?s) - of_bool (u = ''to_null'')"
      show "Q n'" by (rule Q [OF a(1)]) (use a(2) es True in simp_all)
    qed (use w t es in simp_all)
  qed (use w in simp_all)
  then show ?thesis using True by (simp add: to_null_end_def sgs_atD(3) [OF at])
next
  case False
  have "wp (with_vlr (vlr_sgs_pag_stop B a) n) (\<lambda>n7. wp (with_vlr (vlr_subscr_put B a ''to_null'') n7) Q)"
  proof (rule to_null_tail_wp [OF laws at, of w])
    fix n' es m assume a: "sgs_at B a (s\<lparr>vs_ts5 := False, vs_uses := es, vs_max_uses := m\<rparr>) n'"
      "\<And>u. u \<noteq> VSUB_USE_SGS_PAGING_REQ \<Longrightarrow> uc_by B u es = uc_by B u (vs_uses s) - of_bool (u = ''to_null'')"
      "\<not> vs_ts5 s \<Longrightarrow> uc_total B es = uc_total B (vs_uses s) - 1"
    show "Q n'" by (rule Q [OF a(1)]) (use a(2,3) False in \<open>auto intro!: vlr_subscr.equality\<close>)
  qed (use w t in simp_all)
  then show ?thesis using False by (auto simp: to_null_end_def sgs_atD(3) [OF at])
qed

lemma to_null_wp:
  assumes laws: "hash_laws B" "use_laws B" "fsm_laws L" and at: "sgs_at B a s n"
    and w: "w \<notin> paging_uses" "w \<noteq> ''to_null''" "1 \<le> uc_by B w (vs_uses s)"
    and Q: "\<And>n' s'. sgs_at B a s' n' \<Longrightarrow> nulled s s' \<Longrightarrow> same_uses B paging_uses s s' \<Longrightarrow>
      (\<not> vs_ts5 s \<Longrightarrow> \<not> vs_is_paging s \<Longrightarrow> uc_total B (vs_uses s') = uc_total B (vs_uses s)) \<Longrightarrow> Q n'"
  shows "wp (to_null B L a n) Q"
proof -
  note ok = sgs_atD(4) [OF at]
  let ?s1 = "s\<lparr>vs_sgs_state := SGS_UE_ST_NULL, vs_ts6_2 := (0 < (0::nat))\<rparr>"
  let ?s3 = "?s1\<lparr>vs_conf_by_radio := False, vs_tmsi_new := GSM_RESERVED_TMSI\<rparr>"
  let ?s4 = "?s3\<lparr>vs_last_eutran_plmn := None\<rparr>"
  have t0: "0 \<le> uc_by B ''to_null'' (vs_uses s)" using ok by (simp add: vsub_ok_def)
  have "wp (to_null_end B a n5) Q" if n5: "sgs_at B a (?s4\<lparr>vs_uses := uc_change B ''to_null'' 1 (vs_uses ?s4), vs_max_uses := m\<rparr>) n5" for n5 m
  proof (rule to_null_end_wp [OF laws(1,2) n5, of w])
    fix n' s' assume a: "sgs_at B a s' n'" and e: "s' = ?s4\<lparr>vs_uses := uc_change B ''to_null'' 1 (vs_uses ?s4), vs_max_uses := m, vs_ts5 := False, vs_is_paging := vs_is_paging s',
        vs_paging_timer := vs_paging_timer s', vs_requests := vs_requests s', vs_uses := vs_uses s', vs_max_uses := vs_max_uses s'\<rparr>"
      and p: "vs_sgs_cbs (?s4\<lparr>vs_uses := uc_change B ''to_null'' 1 (vs_uses ?s4), vs_max_uses := m\<rparr>) \<Longrightarrow> \<not> vs_is_paging s'"
      and u: "\<And>u. u \<notin> paging_uses \<Longrightarrow> uc_by B u (vs_uses s') = uc_by B u (vs_uses (?s4\<lparr>vs_uses := uc_change B ''to_null'' 1 (vs_uses ?s4), vs_max_uses := m\<rparr>)) - of_bool (u = ''to_null'')"
      and tot: "\<not> vs_ts5 (?s4\<lparr>vs_uses := uc_change B ''to_null'' 1 (vs_uses ?s4), vs_max_uses := m\<rparr>) \<Longrightarrow>
        \<not> vs_is_paging (?s4\<lparr>vs_uses := uc_change B ''to_null'' 1 (vs_uses ?s4), vs_max_uses := m\<rparr>) \<Longrightarrow>
        uc_total B (vs_uses s') = uc_total B (vs_uses (?s4\<lparr>vs_uses := uc_change B ''to_null'' 1 (vs_uses ?s4), vs_max_uses := m\<rparr>)) - 1"
    show "Q n'"
    proof (rule Q [OF a])
      show "uc_total B (vs_uses s') = uc_total B (vs_uses s)" if "\<not> vs_ts5 s" "\<not> vs_is_paging s"
        using tot that by (simp add: use_lawsD [OF laws(2)])
      show "nulled s s'" using e p unfolding nulled_def by simp
      show "same_uses B paging_uses s s'" using u by (simp add: same_uses_def use_lawsD [OF laws(2)])
    qed
  qed (use w t0 in \<open>simp_all add: use_lawsD [OF laws(2)]\<close>)
  then have n4: "wp (with_vlr (vlr_subscr_get B a ''to_null'') n4) (\<lambda>n5. wp (to_null_end B a n5) Q)" if "sgs_at B a ?s4 n4" for n4
    by (intro get_wp [OF laws(2) that])
  have n3: "wp (nsub_upd a (\<lambda>s. s\<lparr>vs_last_eutran_plmn := None\<rparr>) n3) (\<lambda>n4. wp (with_vlr (vlr_subscr_get B a ''to_null'') n4) (\<lambda>n5. wp (to_null_end B a n5) Q))"
    if "sgs_at B a ?s3 n3" for n3
    by (rule upd_wp [OF that]) (use ok n4 in \<open>simp_all add: same_keys_def vsub_ok_def\<close>)
  show ?thesis unfolding to_null_split wp_bind
  proof (rule state_chg_wp [OF laws(3) at])
    fix n1 assume n1: "sgs_at B a ?s1 n1"
    show "wp (nsub_upd a (\<lambda>s. s\<lparr>vs_conf_by_radio := False, vs_tmsi_new := GSM_RESERVED_TMSI\<rparr>) n1) (\<lambda>n2. wp (with_vlr (vlr_subscr_rehash_tmsi B a) n2)
       (\<lambda>n3. wp (nsub_upd a (\<lambda>s. s\<lparr>vs_last_eutran_plmn := None\<rparr>) n3) (\<lambda>n4. wp (with_vlr (vlr_subscr_get B a ''to_null'') n4) (\<lambda>n5. wp (to_null_end B a n5) Q))))"
      by (rule retmsi_wp [OF laws(1) n1]) (use ok n3 in \<open>simp_all add: vsub_ok_def\<close>)
  qed simp
qed

subsection \<open>Allocating a TMSI\<close>

text \<open>A record whose pending TMSI and whose use count list, but not the counts, may have changed.\<close>

definition retagged :: "'h vlr_lib \<Rightarrow> vlr_subscr \<Rightarrow> vlr_subscr \<Rightarrow> bool" where
  "retagged B s s' \<longleftrightarrow> s' = s\<lparr>vs_tmsi_new := vs_tmsi_new s', vs_uses := vs_uses s', vs_max_uses := vs_max_uses s'\<rparr> \<and> same_uses B {} s s'
     \<and> uc_total B (vs_uses s') = uc_total B (vs_uses s)"

lemma retagged_refl [simp]: "retagged B s s"
  by (cases s) (simp add: retagged_def same_uses_def)

lemma retagged_trans: "retagged B s s' \<Longrightarrow> retagged B s' s'' \<Longrightarrow> retagged B s s''"
  by (cases s; cases s'; cases s'') (simp add: retagged_def same_uses_def)

lemma retaggedD:
  assumes "retagged B s s'"
  shows "vs_sgs_cbs s' = vs_sgs_cbs s" "uc_by B u (vs_uses s') = uc_by B u (vs_uses s)" "vs_sgs_state s' = vs_sgs_state s"
    "vs_imsi s' = vs_imsi s" "vs_lu_complete s' = vs_lu_complete s" "uc_total B (vs_uses s') = uc_total B (vs_uses s)"
    "vs_ts5 s' = vs_ts5 s" "vs_is_paging s' = vs_is_paging s"
  using assms by (cases s; cases s'; simp add: retagged_def same_uses_def)+

lemma sgs_vlr_emit [simp]: "sgs_inv B (n\<lparr>net_vlr := v_emit x v\<rparr>) = sgs_inv B (n\<lparr>net_vlr := v\<rparr>)"
  "sgs_at B a s (n\<lparr>net_vlr := v_emit x v\<rparr>) = sgs_at B a s (n\<lparr>net_vlr := v\<rparr>)"
  by (simp_all add: sgs_at_def sgs_inv_def net_inv_def vlr_inv_def v_emit_def trans_ok_def paging_ok_def)

text \<open>A reference that is taken and dropped again.\<close>

lemma get_put_sgs:
  assumes laws: "hash_laws B" "use_laws B" and at: "sgs_at B a s n" and b: "v_heap (net_vlr n) b = Some t"
    and u: "u \<notin> flag_uses" "\<not> trans_use u" and w: "1 \<le> uc_by B w (vs_uses s)"
  shows "wp (with_vlr (vlr_subscr_get B b u) n) (\<lambda>n1. wp (with_vlr (vlr_subscr_put B b u) n1) (\<lambda>n2. \<exists>s'. sgs_at B a s' n2 \<and> retagged B s s'))"
proof -
  have bt: "sgs_at B b t n" using at b by (simp add: sgs_at_def)
  note ok = sgs_atD(4) [OF bt]
  have u0: "1 \<le> uc_by B u (uc_change B u 1 (vs_uses t))" using ok by (simp add: vsub_ok_def use_lawsD [OF laws(2)])
  show ?thesis
  proof (rule get_wp [OF laws(2) bt])
    fix n1 m assume n1: "sgs_at B b (t\<lparr>vs_uses := uc_change B u 1 (vs_uses t), vs_max_uses := m\<rparr>) n1"
      and o1: "\<And>c. c \<noteq> b \<Longrightarrow> v_heap (net_vlr n1) c = v_heap (net_vlr n) c"
    show "wp (with_vlr (vlr_subscr_put B b u) n1) (\<lambda>n2. \<exists>s'. sgs_at B a s' n2 \<and> retagged B s s')"
    proof (rule put_wp [OF laws n1])
      fix n2 m' assume n2: "sgs_at B b (t\<lparr>vs_uses := uc_change B u 1 (vs_uses t), vs_max_uses := m, vs_uses := uc_change B u (- 1)
            (vs_uses (t\<lparr>vs_uses := uc_change B u 1 (vs_uses t), vs_max_uses := m\<rparr>)), vs_max_uses := m'\<rparr>) n2"
        and o2: "\<And>c. c \<noteq> b \<Longrightarrow> v_heap (net_vlr n2) c = v_heap (net_vlr n1) c"
      show "\<exists>s'. sgs_at B a s' n2 \<and> retagged B s s'"
      proof (cases "a = b")
        case True
        with n2 at b show ?thesis by (intro exI conjI) (auto simp: sgs_at_def retagged_def same_uses_def use_lawsD [OF laws(2)])
      next
        case False
        with o1 o2 at n2 have "sgs_at B a s n2" by (simp add: sgs_at_def)
        then show ?thesis by (intro exI [of _ s]) simp
      qed
    next
      fix n2 assume n2: "sgs_inv B n2" and tot: "uc_total B (vs_uses (t\<lparr>vs_uses := uc_change B u 1 (vs_uses t), vs_max_uses := m\<rparr>)) = 1"
        and o2: "v_heap (net_vlr n2) = (v_heap (net_vlr n1))(b := None)"
      have "uc_total B (vs_uses t) = 0" using tot by (simp add: use_lawsD [OF laws(2)])
      then have "uc_by B w (vs_uses t) \<le> 0" using vsub_ok_total [OF laws(2) ok, of w] by simp
      then have "a \<noteq> b" using w at b by (auto simp: sgs_at_def)
      with o1 o2 at n2 have "sgs_at B a s n2" by (simp add: sgs_at_def)
      then show "\<exists>s'. sgs_at B a s' n2 \<and> retagged B s s'" by (intro exI [of _ s]) simp
    qed (use u u0 in simp_all)
  qed
qed

lemma set_tmsi_new_sgs:
  assumes laws: "hash_laws B" and at: "sgs_at B a s n"
  shows "wp (nsub_upd a (\<lambda>s. s\<lparr>vs_tmsi_new := t\<rparr>) n) (\<lambda>n1. wp (with_vlr (vlr_subscr_rehash_tmsi B a) n1) (sgs_at B a (s\<lparr>vs_tmsi_new := t\<rparr>)))"
  by (rule retmsi_wp [OF laws at]) (use sgs_atD(4,5) [OF at] in \<open>simp_all add: vsub_ok_def\<close>)

lemma alloc_loop_wp:
  assumes laws: "hash_laws B" "use_laws B"
  shows "sgs_at B a s n \<Longrightarrow> 1 \<le> uc_by B w (vs_uses s) \<Longrightarrow>
    wp (alloc_tmsi_loop B is_ps nri rnd k a (net_vlr n)) (\<lambda>(v', rc). \<exists>s'. sgs_at B a s' (n\<lparr>net_vlr := v'\<rparr>) \<and> retagged B s s')"
proof (induction k arbitrary: n s)
  case 0
  then show ?case by (auto intro: exI [of _ s])
next
  case (Suc k)
  show ?case
  proof (cases "rnd k")
    case (Inl rc)
    then show ?thesis using Suc.prems by (auto intro: exI [of _ s])
  next
    case (Inr r)
    show ?thesis
    proof (cases "tmsi_candidate is_ps nri r")
      case None
      with Inr Suc.IH [OF Suc.prems] show ?thesis by simp
    next
      case (Some t)
      note inv = sgs_inv_vlr(1) [OF sgs_atD(1) [OF Suc.prems(1)]]
      consider "vlr_subscr_find_by_tmsi B t (Some USE_ALLOC_TMSI) (net_vlr n) = Some (net_vlr n, None)"
        | b s' where "vlr_subscr_find_by_tmsi B t (Some USE_ALLOC_TMSI) (net_vlr n) = get_found B (Some USE_ALLOC_TMSI) (Some b) (net_vlr n)"
            "v_heap (net_vlr n) b = Some s'"
      proof (cases "t = GSM_RESERVED_TMSI")
        case False
        with that show thesis by (cases rule: find_by_tmsi_cases [OF laws(1) inv False, of "Some USE_ALLOC_TMSI"]) auto
      qed (use that(1) in \<open>simp add: vlr_subscr_find_by_tmsi_def\<close>)
      then show ?thesis
      proof cases
        case 1
        have tg: "retagged B s (s\<lparr>vs_tmsi_new := t\<rparr>)" by (simp add: retagged_def same_uses_def)
        from set_tmsi_new_sgs [OF laws(1) Suc.prems(1), of t] tg show ?thesis
          using Inr Some 1 by (auto simp: with_vlr_def wp_def Option.bind_eq_Some_conv intro!: exI [of _ "s\<lparr>vs_tmsi_new := t\<rparr>"])
      next
        case 2
        from get_put_sgs [OF laws Suc.prems(1) 2(2), of USE_ALLOC_TMSI w] Suc.prems(2) obtain v1 v2 s2 where
          g: "vlr_subscr_get B b USE_ALLOC_TMSI (net_vlr n) = Some v1" "vlr_subscr_put B b USE_ALLOC_TMSI v1 = Some v2"
            "sgs_at B a s2 (n\<lparr>net_vlr := v2\<rparr>)" "retagged B s s2"
          by (auto simp: with_vlr_def wp_def)
        have eq: "alloc_tmsi_loop B is_ps nri rnd (Suc k) a (net_vlr n) = alloc_tmsi_loop B is_ps nri rnd k a v2"
          using Inr Some 2(1) g(1,2) by (simp add: get_found_def)
        have "1 \<le> uc_by B w (vs_uses s2)" using Suc.prems(2) retaggedD(2) [OF g(4)] by simp
        from Suc.IH [OF g(3) this] retagged_trans [OF g(4)] show ?thesis unfolding eq by (auto elim!: wp_mono)
      qed
    qed
  qed
qed

subsection \<open>The functions of the states\<close>

text \<open>
  A caller holds the record by a reference that the machine does not touch; \<open>sgs_kept\<close>: after the call the record is
  there, the caller's reference too, and the fields in \<open>core\<close> have the given values.
\<close>

definition own_use :: "string \<Rightarrow> bool" where
  "own_use w \<longleftrightarrow> w \<notin> {VSUB_USE_PAGING, VSUB_USE_SGS_PAGING_REQ, VSUB_USE_SGS_LU, ''to_null''}"

definition core :: "vlr_subscr \<Rightarrow> bool \<times> bool \<times> rat_type \<times> bool \<times> string" where
  "core s = (vs_sgs_cbs s, vs_lu_complete s, vs_attached_via s, vs_imsi_detached s, vs_imsi s)"

definition sgs_kept :: "'h vlr_lib \<Rightarrow> nat \<Rightarrow> string \<Rightarrow> bool \<times> bool \<times> rat_type \<times> bool \<times> string \<Rightarrow> 'h gsm_network \<Rightarrow> bool" where
  "sgs_kept B a w c n \<longleftrightarrow> (\<exists>s. sgs_at B a s n \<and> 1 \<le> uc_by B w (vs_uses s) \<and> core s = c)"

lemma sgs_keptI: "sgs_at B a s n \<Longrightarrow> 1 \<le> uc_by B w (vs_uses s) \<Longrightarrow> core s = c \<Longrightarrow> sgs_kept B a w c n"
  by (auto simp: sgs_kept_def)

lemma sgs_keptE:
  assumes "sgs_kept B a w c n"
  obtains s where "sgs_at B a s n" "1 \<le> uc_by B w (vs_uses s)" "core s = c"
  using assms by (auto simp: sgs_kept_def)

lemma sgs_kept_emit [simp]: "sgs_kept B a w c (n_emit x n) = sgs_kept B a w c n"
  by (simp add: sgs_kept_def)

lemma nulled_core: "nulled s s' \<Longrightarrow> core s' = core s"
  by (cases s; cases s') (simp add: core_def nulled_def)

lemma retagged_core: "retagged B s s' \<Longrightarrow> core s' = core s"
  by (cases s; cases s') (simp add: core_def retagged_def)

lemma to_null_kept:
  assumes "hash_laws B" "use_laws B" "fsm_laws L" and "own_use w" and "sgs_kept B a w c n"
  shows "wp (to_null B L a n) (sgs_kept B a w c)"
  using assms(5)
proof (rule sgs_keptE)
  fix s assume s: "sgs_at B a s n" "1 \<le> uc_by B w (vs_uses s)" "core s = c"
  show ?thesis
  proof (rule to_null_wp [OF assms(1-3) s(1), of w])
    fix n' s' assume n': "sgs_at B a s' n'" "nulled s s'" "same_uses B paging_uses s s'"
    have "uc_by B w (vs_uses s') = uc_by B w (vs_uses s)" using n'(3) assms(4) by (simp add: same_uses_def own_use_def)
    with n'(1) nulled_core [OF n'(2)] s(2,3) show "sgs_kept B a w c n'" by (intro sgs_keptI) simp_all
  qed (use s(2) assms(4) in \<open>simp_all add: own_use_def\<close>)
qed

lemma chg_kept:
  assumes "fsm_laws L" and "sgs_kept B a w c n" and "st \<noteq> SGS_UE_ST_NULL \<Longrightarrow> fst c"
  shows "wp (sgs_state_chg L a st secs n) (sgs_kept B a w c)"
  using assms(2)
proof (rule sgs_keptE)
  fix s assume s: "sgs_at B a s n" "1 \<le> uc_by B w (vs_uses s)" "core s = c"
  show ?thesis
    by (rule state_chg_wp [OF assms(1) s(1)]) (use s(2,3) assms(3) in \<open>auto simp: core_def intro!: sgs_keptI\<close>)
qed

text \<open>Updates of fields that the invariant does not mention.\<close>

lemma upd_kept:
  assumes "sgs_kept B a w c n" and "\<And>s. vsub_ok B s \<Longrightarrow> vsub_ok B (f s)"
    and "\<And>s. same_keys s (f s) \<and> vs_uses (f s) = vs_uses s \<and> vs_requests (f s) = vs_requests s \<and> vs_is_paging (f s) = vs_is_paging s
      \<and> vs_ts5 (f s) = vs_ts5 s \<and> vs_sgs_state (f s) = vs_sgs_state s \<and> vs_sgs_cbs (f s) = vs_sgs_cbs s"
    and "\<And>s. core s = c \<Longrightarrow> core (f s) = c'"
  shows "wp (nsub_upd a f n) (sgs_kept B a w c')"
  using assms(1)
proof (rule sgs_keptE)
  fix s assume s: "sgs_at B a s n" "1 \<le> uc_by B w (vs_uses s)" "core s = c"
  show ?thesis
    by (rule upd_wp [OF s(1)]) (use assms(2) [of s] assms(3) [of s] assms(4) [of s] s sgs_atD(4,5) [OF s(1)] in \<open>auto intro!: sgs_keptI\<close>)
qed

lemma mm_info_kept: "sgs_kept B a w c n \<Longrightarrow> fst c \<Longrightarrow> wp (sgs_tx_mm_info_cb E a n) (sgs_kept B a w c)"
  by (erule sgs_keptE) (auto simp: sgs_tx_mm_info_cb_def sgs_atD(3) core_def intro!: sgs_keptI)

lemma pag_stop_kept:
  assumes "hash_laws B" "use_laws B" and "own_use w" and "sgs_kept B a w c n"
  shows "wp (with_vlr (vlr_sgs_pag_stop B a) n) (sgs_kept B a w c)"
  using assms(4)
proof (rule sgs_keptE)
  fix s assume s: "sgs_at B a s n" "1 \<le> uc_by B w (vs_uses s)" "core s = c"
  show ?thesis
    by (rule pag_stop_wp [OF assms(1,2) s(1), of w]) (use s(2,3) assms(3) in \<open>auto simp: core_def own_use_def intro!: sgs_keptI\<close>)
qed

lemma paging_cb_kept:
  assumes "use_laws B" and "own_use w" and "sgs_kept B a w c n"
  shows "wp (sgs_iface_paging_cb B E a serv n) (\<lambda>r. sgs_kept B a w c (fst r))"
  using assms(3)
proof (rule sgs_keptE)
  fix s assume s: "sgs_at B a s n" "1 \<le> uc_by B w (vs_uses s)" "core s = c"
  have w: "w \<noteq> VSUB_USE_PAGING" "w \<noteq> VSUB_USE_SGS_PAGING_REQ" using assms(2) by (simp_all add: own_use_def)
  have "wp (paging_expired B (Some a) n) (sgs_kept B a w c)"
    by (rule expired_wp [OF assms(1) s(1) w(1) s(2)]) (use s(2,3) w in \<open>auto simp: core_def intro!: sgs_keptI\<close>)
  moreover have "wp (vlr_sgs_pag B a serv (n_emit (TX_SGS_PAGING a serv) n)) (sgs_kept B a w c)" if "\<not> vs_ts5 s"
    by (rule pag_wp [OF assms(1) _ that]) (use s w in \<open>auto simp: core_def use_lawsD [OF assms(1)] intro!: sgs_keptI\<close>)
  ultimately show ?thesis
    using assms(3) by (cases "serv = SGSAP_SERV_IND_PAGING_TIMEOUT"; cases "vs_ts5 s") (auto simp: sgs_iface_paging_cb_def sgs_atD(3) [OF s(1)])
qed

lemma respawn_kept:
  assumes "hash_laws B" "use_laws B" and "own_use w" and "sgs_kept B a w c n" and "fst c"
  shows "wp (respawn_paging B E a n) (sgs_kept B a w c)"
  using assms(4)
proof (rule sgs_keptE)
  fix s assume s: "sgs_at B a s n"
  have "wp (with_vlr (vlr_sgs_pag_stop B a) n) (\<lambda>n1. wp (do { s1 \<leftarrow> nsub_get a n1;
       if \<not> vs_sgs_cbs s1 then None else map_option fst (sgs_iface_paging_cb B E a (vs_paging_serv s1) n1) }) (sgs_kept B a w c))"
    using pag_stop_kept [OF assms(1-4)]
  proof (rule wp_mono)
    fix n1 assume k: "sgs_kept B a w c n1"
    then obtain s1 where "sgs_at B a s1 n1" "vs_sgs_cbs s1" using assms(5) by (metis core_def fst_conv sgs_keptE)
    with paging_cb_kept [OF assms(2,3) k, of E "vs_paging_serv s1"]
    show "wp (do { s1 \<leftarrow> nsub_get a n1; if \<not> vs_sgs_cbs s1 then None else map_option fst (sgs_iface_paging_cb B E a (vs_paging_serv s1) n1) }) (sgs_kept B a w c)"
      by (simp add: sgs_atD(3))
  qed
  then show ?thesis using assms(4) by (simp add: respawn_paging_def sgs_atD(3) [OF s])
qed

lemma lu_release_kept:
  assumes "use_laws B" and "own_use w" and "sgs_kept B a w c n"
  shows "wp (with_vlr (vlr_sgs_lu_release B a) n) (sgs_kept B a w c)"
  using assms(3)
proof (rule sgs_keptE)
  fix s assume s: "sgs_at B a s n" "1 \<le> uc_by B w (vs_uses s)" "core s = c"
  have w: "w \<noteq> VSUB_USE_SGS_LU" using assms(2) by (simp add: own_use_def)
  have "wp (with_vlr (vlr_subscr_put B a VSUB_USE_SGS_LU) n) (sgs_kept B a w c)" if "0 < uc_by B VSUB_USE_SGS_LU (vs_uses s)"
    by (rule put_keep_wp [OF assms(1) s(1) _ w s(2)])
      (use that s w in \<open>auto simp: core_def use_lawsD [OF assms(1)] intro!: sgs_keptI\<close>)
  then show ?thesis using assms(3) by (simp add: vlr_sgs_lu_release_def with_vlr_def sgs_atD(3) [OF s(1)])
qed

lemma keep_expiry_kept: "sgs_kept B a w c n \<Longrightarrow> wp (with_vlr (vlr_subscr_keep_incomplete_expiry clock a) n) (sgs_kept B a w c)"
proof (erule sgs_keptE)
  fix s assume s: "sgs_at B a s n" "1 \<le> uc_by B w (vs_uses s)" "core s = c"
  then have k: "sgs_kept B a w c n" by (rule sgs_keptI)
  have "wp (nsub_upd a (\<lambda>s. s\<lparr>vs_expire_lu := t\<rparr>) n) (sgs_kept B a w c)" for t
    by (rule upd_kept [OF k]) (simp_all add: core_def same_keys_def vsub_ok_def)
  then show ?thesis
    using k by (auto simp: vlr_subscr_keep_incomplete_expiry_def with_vlr_def sgs_atD(3) [OF s(1)] split: option.splits)
qed

lemma allstate_kept:
  assumes laws: "hash_laws B" "use_laws B" "fsm_laws L" and w: "own_use w" and k: "sgs_kept B a w c n" and ev: "ev \<in> set sgs_ue_fsm"
  shows "wp (sgs_ue_fsm_allstate B L E a ev n) (\<lambda>n'. \<exists>c'. sgs_kept B a w c' n' \<and> fst c' = fst c)"
proof (cases "ev = SGS_UE_E_RX_DETACH_IND_FROM_MME \<or> ev = SGS_UE_E_RX_DETACH_IND_FROM_UE")
  case False
  have t: "sgs_kept B a w c n' \<Longrightarrow> wp (to_null B L a n') (\<lambda>n'. \<exists>c'. sgs_kept B a w c' n' \<and> fst c' = fst c)" for n'
    by (erule wp_mono [OF to_null_kept [OF laws w]]) blast
  have "wp (nsub_upd a (\<lambda>s. s\<lparr>vs_conf_by_radio := False\<rparr>) n) (sgs_kept B a w c)"
    by (rule upd_kept [OF k]) (simp_all add: core_def same_keys_def vsub_ok_def)
  then have "wp (nsub_upd a (\<lambda>s. s\<lparr>vs_conf_by_radio := False\<rparr>) n) (\<lambda>n1. wp (to_null B L a n1) (\<lambda>n'. \<exists>c'. sgs_kept B a w c' n' \<and> fst c' = fst c))"
    by (rule wp_mono) (rule t)
  with False t [OF k] ev show ?thesis by (auto simp: sgs_ue_fsm_allstate_def sgs_ue_fsm_def)
next
  case True
  obtain cb lc via det imsi where c: "c = (cb, lc, via, det, imsi)" by (cases c)
  let ?c = "(cb, lc, via, True, imsi)"
  have t: "sgs_kept B a w ?c n' \<Longrightarrow> wp (to_null B L a n') (\<lambda>n'. \<exists>c'. sgs_kept B a w c' n' \<and> fst c' = fst c)" for n'
    unfolding c by (erule wp_mono [OF to_null_kept [OF laws w]]) (metis fst_conv)
  have "wp (nsub_upd a (\<lambda>s. s\<lparr>vs_imsi_detached := True\<rparr>) n) (sgs_kept B a w ?c)"
    by (rule upd_kept [OF k]) (simp_all add: core_def same_keys_def vsub_ok_def c)
  then have "wp (nsub_upd a (\<lambda>s. s\<lparr>vs_imsi_detached := True\<rparr>) n) (\<lambda>n1. wp (do { s \<leftarrow> nsub_get a n1;
        n2 \<leftarrow> (if vs_lu_complete s then nsub_upd a (\<lambda>s. s\<lparr>vs_expire_lu := 0\<rparr>) n1
               else with_vlr (vlr_subscr_keep_incomplete_expiry (se_clock E) a) n1);
        to_null B L a n2 }) (\<lambda>n'. \<exists>c'. sgs_kept B a w c' n' \<and> fst c' = fst c))" (is "wp _ (\<lambda>n1. wp (?rest n1) ?Q)")
  proof (rule wp_mono)
    fix n1 assume k1: "sgs_kept B a w ?c n1"
    then obtain s1 where s1: "nsub_get a n1 = Some s1" by (metis sgs_keptE sgs_atD(3))
    have "wp (nsub_upd a (\<lambda>s. s\<lparr>vs_expire_lu := 0\<rparr>) n1) (sgs_kept B a w ?c)"
      by (rule upd_kept [OF k1]) (simp_all add: core_def same_keys_def vsub_ok_def)
    then have "wp (if vs_lu_complete s1 then nsub_upd a (\<lambda>s. s\<lparr>vs_expire_lu := 0\<rparr>) n1
        else with_vlr (vlr_subscr_keep_incomplete_expiry (se_clock E) a) n1) (sgs_kept B a w ?c)"
      using keep_expiry_kept [OF k1] by simp
    then show "wp (?rest n1) ?Q" unfolding s1 bind.bind_lunit wp_bind by (rule wp_mono) (rule t)
  qed
  then show ?thesis using True by (simp add: sgs_ue_fsm_allstate_def)
qed

text \<open>Accepting a location update, for a subscriber with or without a pending TMSI.\<close>

lemma associate_kept:
  assumes laws: "hash_laws B" "use_laws B" "fsm_laws L" and w: "own_use w" and k: "sgs_kept B a w c n" and cb: "fst c"
  shows "wp (do { n4 \<leftarrow> sgs_tx_mm_info_cb E a n; s4 \<leftarrow> nsub_get a n4;
            n5 \<leftarrow> (if vlr_sgs_pag_pend s4 then respawn_paging B E a n4 else Some n4);
            sgs_state_chg L a SGS_UE_ST_ASSOCIATED 0 n5 })
     (\<lambda>n'. sgs_kept B a w c n' \<and> (\<exists>s'. nsub_get a n' = Some s' \<and> vs_sgs_state s' = SGS_UE_ST_ASSOCIATED))"
proof -
  have fin: "wp (sgs_state_chg L a SGS_UE_ST_ASSOCIATED 0 n5) (\<lambda>n'. sgs_kept B a w c n' \<and> (\<exists>s'. nsub_get a n' = Some s' \<and> vs_sgs_state s' = SGS_UE_ST_ASSOCIATED))"
    if "sgs_kept B a w c n5" for n5
    using that
  proof (rule sgs_keptE)
    fix s assume s: "sgs_at B a s n5" "1 \<le> uc_by B w (vs_uses s)" "core s = c"
    show ?thesis
      by (rule state_chg_wp [OF laws(3) s(1)]) (use s(2,3) cb in \<open>auto simp: core_def sgs_atD(3) intro!: sgs_keptI\<close>)
  qed
  have "wp (do { s4 \<leftarrow> nsub_get a n4; n5 \<leftarrow> (if vlr_sgs_pag_pend s4 then respawn_paging B E a n4 else Some n4);
            sgs_state_chg L a SGS_UE_ST_ASSOCIATED 0 n5 }) (\<lambda>n'. sgs_kept B a w c n' \<and> (\<exists>s'. nsub_get a n' = Some s' \<and> vs_sgs_state s' = SGS_UE_ST_ASSOCIATED))"
    if k4: "sgs_kept B a w c n4" for n4
  proof -
    from k4 obtain s4 where s4: "nsub_get a n4 = Some s4" by (metis sgs_keptE sgs_atD(3))
    have "wp (if vlr_sgs_pag_pend s4 then respawn_paging B E a n4 else Some n4) (sgs_kept B a w c)"
      using respawn_kept [OF laws(1,2) w k4 cb] k4 by simp
    then show ?thesis unfolding s4 bind.bind_lunit wp_bind by (rule wp_mono) (rule fin)
  qed
  then show ?thesis unfolding wp_bind [of "sgs_tx_mm_info_cb E a n"] by (rule wp_mono [OF mm_info_kept [OF k cb]])
qed

definition associated :: "nat \<Rightarrow> 'h gsm_network \<Rightarrow> bool" where
  "associated a n \<longleftrightarrow> (\<exists>s. nsub_get a n = Some s \<and> vs_sgs_state s = SGS_UE_ST_ASSOCIATED)"

definition accept_end :: "'h vlr_lib \<Rightarrow> sgs_lib \<Rightarrow> sgs_env \<Rightarrow> nat \<Rightarrow> 'h gsm_network \<Rightarrow> 'h gsm_network option" where
  "accept_end B L E a n2 = do {
     n3 \<leftarrow> nsub_upd a (\<lambda>s. s\<lparr>vs_attached_via := RAT_EUTRAN_SGS\<rparr>) n2;
     s3 \<leftarrow> nsub_get a n3;
     if vs_tmsi_new s3 \<noteq> GSM_RESERVED_TMSI then sgs_state_chg L a SGS_UE_ST_ASSOCIATED (vs_ts6_2_secs s3) n3
     else do {
       n4 \<leftarrow> sgs_tx_mm_info_cb E a n3;
       s4 \<leftarrow> nsub_get a n4;
       n5 \<leftarrow> (if vlr_sgs_pag_pend s4 then respawn_paging B E a n4 else Some n4);
       sgs_state_chg L a SGS_UE_ST_ASSOCIATED 0 n5 } }"

lemma accept_end_wp:
  assumes laws: "hash_laws B" "use_laws B" "fsm_laws L" and w: "own_use w" and k: "sgs_kept B a w (True, lc, via, det, imsi) n"
  shows "wp (accept_end B L E a n) (\<lambda>n'. sgs_kept B a w (True, lc, RAT_EUTRAN_SGS, det, imsi) n' \<and> associated a n')"
proof -
  let ?c = "(True, lc, RAT_EUTRAN_SGS, det, imsi)" and ?Q = "\<lambda>n'. sgs_kept B a w (True, lc, RAT_EUTRAN_SGS, det, imsi) n' \<and> associated a n'"
  have chg: "wp (sgs_state_chg L a SGS_UE_ST_ASSOCIATED secs n3) ?Q" if "sgs_kept B a w ?c n3" for n3 secs
    using that
  proof (rule sgs_keptE)
    fix s assume s: "sgs_at B a s n3" "1 \<le> uc_by B w (vs_uses s)" "core s = ?c"
    show ?thesis
      by (rule state_chg_wp [OF laws(3) s(1)]) (use s(2,3) in \<open>auto simp: core_def associated_def sgs_atD(3) intro!: sgs_keptI\<close>)
  qed
  have "wp (nsub_upd a (\<lambda>s. s\<lparr>vs_attached_via := RAT_EUTRAN_SGS\<rparr>) n) (sgs_kept B a w ?c)"
    by (rule upd_kept [OF k]) (simp_all add: core_def same_keys_def vsub_ok_def)
  then show ?thesis unfolding accept_end_def wp_bind [of "nsub_upd _ _ _"]
  proof (rule wp_mono)
    fix n3 assume k3: "sgs_kept B a w ?c n3"
    then obtain s3 where s3: "nsub_get a n3 = Some s3" by (metis sgs_keptE sgs_atD(3))
    show "wp (do { s3 \<leftarrow> nsub_get a n3;
       if vs_tmsi_new s3 \<noteq> GSM_RESERVED_TMSI then sgs_state_chg L a SGS_UE_ST_ASSOCIATED (vs_ts6_2_secs s3) n3
       else do {
         n4 \<leftarrow> sgs_tx_mm_info_cb E a n3; s4 \<leftarrow> nsub_get a n4;
         n5 \<leftarrow> (if vlr_sgs_pag_pend s4 then respawn_paging B E a n4 else Some n4);
         sgs_state_chg L a SGS_UE_ST_ASSOCIATED 0 n5 } }) ?Q"
      unfolding s3 bind.bind_lunit using chg [OF k3] associate_kept [OF laws w k3, of E, folded associated_def]
      by (cases "vs_tmsi_new s3 = GSM_RESERVED_TMSI") (simp_all only: if_True if_False simp_thms fst_conv)
  qed
qed

lemma accept_wp:
  assumes laws: "hash_laws B" "use_laws B" "fsm_laws L" and w: "own_use w" and k: "sgs_kept B a w (True, lc, via, det, imsi) n"
  shows "wp (sgs_ue_fsm_lau_present B L E a SGS_UE_E_TX_LU_ACCEPT r n)
    (\<lambda>n'. sgs_kept B a w (True, True, RAT_EUTRAN_SGS, False, imsi) n' \<and> associated a n')"
proof -
  let ?c = "(True, lc, via, False, imsi)" and ?d = "(True, True, via, False, imsi)"
  let ?f = "\<lambda>s. s\<lparr>vs_conf_by_radio := True, vs_sub_dataconf := True, vs_loc_conf := True, vs_la_allowed := True, vs_imsi_detached := False\<rparr>"
  have eq: "sgs_ue_fsm_lau_present B L E a SGS_UE_E_TX_LU_ACCEPT r n = do {
      n1 \<leftarrow> nsub_upd a ?f n; s \<leftarrow> nsub_get a n1;
      n2 \<leftarrow> (if \<not> vs_lu_complete s then do { n' \<leftarrow> with_vlr (vlr_subscr_set_lu_complete a True) n1; with_vlr (vlr_subscr_get B a VSUB_USE_ATTACHED) n' }
            else Some n1);
      accept_end B L E a n2 }"
    by (simp only: sgs_ue_fsm_lau_present_def accept_end_def sgs_ue_fsm_event.case)
  have "wp (nsub_upd a ?f n) (sgs_kept B a w ?c)"
    by (rule upd_kept [OF k]) (simp_all add: core_def same_keys_def vsub_ok_def)
  then show ?thesis unfolding eq wp_bind [of "nsub_upd _ _ _"]
  proof (rule wp_mono, elim sgs_keptE)
    fix n1 s assume s: "sgs_at B a s n1" "1 \<le> uc_by B w (vs_uses s)" "core s = ?c"
    let ?m = "(if \<not> vs_lu_complete s then do { n' \<leftarrow> with_vlr (vlr_subscr_set_lu_complete a True) n1; with_vlr (vlr_subscr_get B a VSUB_USE_ATTACHED) n' }
            else Some n1)"
    have "wp ?m (sgs_kept B a w ?d)"
    proof (cases "vs_lu_complete s")
      case True
      then show ?thesis using s by (auto simp: core_def intro!: sgs_keptI)
    next
      case False
      have "wp (with_vlr (vlr_subscr_set_lu_complete a True) n1) (\<lambda>n'. wp (with_vlr (vlr_subscr_get B a VSUB_USE_ATTACHED) n') (sgs_kept B a w ?d))"
        by (rule register_wp [OF laws(2) s(1) False]) (use s in \<open>auto simp: core_def use_lawsD [OF laws(2)] intro!: sgs_keptI\<close>)
      with False show ?thesis by simp
    qed
    then have "wp (do { n2 \<leftarrow> ?m; accept_end B L E a n2 }) (\<lambda>n'. sgs_kept B a w (True, True, RAT_EUTRAN_SGS, False, imsi) n' \<and> associated a n')"
      unfolding wp_bind by (rule wp_mono) (rule accept_end_wp [OF laws w])
    then show "wp (do { s \<leftarrow> nsub_get a n1; n2 \<leftarrow> (if \<not> vs_lu_complete s then do { n' \<leftarrow> with_vlr (vlr_subscr_set_lu_complete a True) n1;
          with_vlr (vlr_subscr_get B a VSUB_USE_ATTACHED) n' } else Some n1); accept_end B L E a n2 })
        (\<lambda>n'. sgs_kept B a w (True, True, RAT_EUTRAN_SGS, False, imsi) n' \<and> associated a n')"
      unfolding sgs_atD(3) [OF s(1)] bind.bind_lunit .
  qed
qed

lemma rej_sent_kept:
  assumes laws: "hash_laws B" "use_laws B" "fsm_laws L" and w: "own_use w" and k: "sgs_kept B a w c n"
  shows "wp (vlr_sgs_loc_update_rej_sent B L E a n) (sgs_kept B a w c)"
proof -
  from k obtain s where s: "nsub_get a n = Some s" by (metis sgs_keptE sgs_atD(3))
  have "wp (sgs_deliver (\<lambda>_. None) (\<lambda>_. None) B L E a SGS_UE_E_TX_LU_REJECT False n) (sgs_kept B a w c)"
    using to_null_kept [OF laws w k] k laws(3)
    by (cases "vs_sgs_state s")
      (simp_all add: sgs_deliver_def s fsm_laws_def sgs_ue_fsm_def sgs_ue_fsm_states_def sgs_ue_fsm_lau_present_def)
  then show ?thesis unfolding vlr_sgs_loc_update_rej_sent_def wp_bind by (rule wp_mono) (rule lu_release_kept [OF laws(2) w])
qed

lemma tx_lu_rej_kept:
  assumes laws: "hash_laws B" "use_laws B" "fsm_laws L" and w: "own_use w" and k: "sgs_kept B a w c n"
  shows "wp (sgs_tx_lu_rej B L E a cause n) (sgs_kept B a w c)"
proof -
  from k obtain s where s: "nsub_get a n = Some s" by (metis sgs_keptE sgs_atD(3))
  show ?thesis using rej_sent_kept [OF laws w, of a c "n_emit _ n"] rej_sent_kept [OF laws w k] k by (simp add: sgs_tx_lu_rej_def s)
qed

lemma perform_lu_error_kept:
  assumes laws: "hash_laws B" "use_laws B" "fsm_laws L" and w: "own_use w" and k: "sgs_kept B a w c n" and cb: "fst c"
  shows "wp (perform_lu_error B L E a n) (sgs_kept B a w c)"
  unfolding perform_lu_error_def wp_bind [of "to_null _ _ _ _"] using to_null_kept [OF laws w k]
proof (rule wp_mono, elim sgs_keptE)
  fix n1 s assume s: "sgs_at B a s n1" "1 \<le> uc_by B w (vs_uses s)" "core s = c"
  then have "sgs_kept B a w c n1" by (rule sgs_keptI)
  from tx_lu_rej_kept [OF laws w this] cb s(3)
  show "wp (do { s \<leftarrow> nsub_get a n1; if \<not> vs_sgs_cbs s then None else sgs_tx_lu_rej B L E a GSM48_REJECT_NETWORK_FAILURE n1 }) (sgs_kept B a w c)"
    by (auto simp: sgs_atD(3) [OF s(1)] core_def)
qed

lemma perform_lu_kept:
  assumes laws: "hash_laws B" "use_laws B" "fsm_laws L" and w: "own_use w" and k: "sgs_kept B a w c n" and cb: "fst c"
  shows "wp (perform_lu B L E a n) (sgs_kept B a w c)"
proof -
  from k obtain s where s: "sgs_at B a s n" "1 \<le> uc_by B w (vs_uses s)" "core s = c" by (rule sgs_keptE)
  let ?m = "(if vs_tmsi s = GSM_RESERVED_TMSI then vlr_subscr_alloc_tmsi B (se_is_ps E) (se_nri E) (se_rnd E) a (net_vlr n) else Some (net_vlr n, 0))"
  have alloc: "wp ?m (\<lambda>(v', rc). \<exists>s'. sgs_at B a s' (n\<lparr>net_vlr := v'\<rparr>) \<and> retagged B s s')"
    using alloc_loop_wp [OF laws(1,2) s(1,2)] s(1) retagged_refl by (auto simp: vlr_subscr_alloc_tmsi_def)
  have fin: "wp (do { n3 \<leftarrow> sgs_state_chg L a SGS_UE_ST_LA_UPD_PRES 0 n2; nsub_upd a (\<lambda>s. s\<lparr>vs_ms_not_reachable := False\<rparr>) n3 }) (sgs_kept B a w c)"
    if k2: "sgs_kept B a w c n2" for n2
    unfolding wp_bind
    by (rule wp_mono [OF chg_kept [OF laws(3) k2]], rule cb, rule upd_kept) (simp_all add: core_def same_keys_def vsub_ok_def)
  have rest: "wp (let n1 = n\<lparr>net_vlr := v1\<rparr> in if rc \<noteq> 0 then perform_lu_error B L E a n1
     else do { let n2 = vlr_subscr_req_lu a n1; if se_req_lu_rc E \<noteq> 0 then perform_lu_error B L E a n2
       else do { n3 \<leftarrow> sgs_state_chg L a SGS_UE_ST_LA_UPD_PRES 0 n2; nsub_upd a (\<lambda>s. s\<lparr>vs_ms_not_reachable := False\<rparr>) n3 } }) (sgs_kept B a w c)"
    if k1: "sgs_kept B a w c (n\<lparr>net_vlr := v1\<rparr>)" for v1 and rc :: int
  proof -
    have k2: "sgs_kept B a w c (vlr_subscr_req_lu a (n\<lparr>net_vlr := v1\<rparr>))" using k1 by (simp add: vlr_subscr_req_lu_def)
    show ?thesis using perform_lu_error_kept [OF laws w k1 cb] perform_lu_error_kept [OF laws w k2 cb] fin [OF k2] by (simp add: Let_def)
  qed
  have eq: "perform_lu B L E a n = do { (v1, rc) \<leftarrow> ?m; let n1 = n\<lparr>net_vlr := v1\<rparr>; if rc \<noteq> 0 then perform_lu_error B L E a n1
     else do { let n2 = vlr_subscr_req_lu a n1; if se_req_lu_rc E \<noteq> 0 then perform_lu_error B L E a n2
       else do { n3 \<leftarrow> sgs_state_chg L a SGS_UE_ST_LA_UPD_PRES 0 n2; nsub_upd a (\<lambda>s. s\<lparr>vs_ms_not_reachable := False\<rparr>) n3 } } }"
    by (simp only: perform_lu_def sgs_atD(3) [OF s(1)] bind.bind_lunit)
  show ?thesis unfolding eq wp_bind [of ?m] using alloc
  proof (rule wp_mono)
    fix x assume "case x of (v', rc :: int) \<Rightarrow> \<exists>s'. sgs_at B a s' (n\<lparr>net_vlr := v'\<rparr>) \<and> retagged B s s'"
    then obtain v1 rc s' where x: "x = (v1, rc)" "sgs_at B a s' (n\<lparr>net_vlr := v1\<rparr>)" "retagged B s s'" by auto
    have "sgs_kept B a w c (n\<lparr>net_vlr := v1\<rparr>)"
      by (rule sgs_keptI [OF x(2)]) (use s(2,3) retagged_core [OF x(3)] retaggedD(2) [OF x(3)] in simp_all)
    from rest [OF this] show "wp (case x of (v1, rc) \<Rightarrow> let n1 = n\<lparr>net_vlr := v1\<rparr> in if rc \<noteq> 0 then perform_lu_error B L E a n1
     else do { let n2 = vlr_subscr_req_lu a n1; if se_req_lu_rc E \<noteq> 0 then perform_lu_error B L E a n2
       else do { n3 \<leftarrow> sgs_state_chg L a SGS_UE_ST_LA_UPD_PRES 0 n2; nsub_upd a (\<lambda>s. s\<lparr>vs_ms_not_reachable := False\<rparr>) n3 } }) (sgs_kept B a w c)"
      unfolding x(1) prod.case .
  qed
qed

lemma lau_present_kept:
  assumes laws: "hash_laws B" "use_laws B" "fsm_laws L" and w: "own_use w" and k: "sgs_kept B a w c n" and cb: "fst c"
    and ev: "ev \<in> set (in_event_mask (sgs_ue_fsm_states SGS_UE_ST_LA_UPD_PRES))"
  shows "wp (sgs_ue_fsm_lau_present B L E a ev r n) (\<lambda>n'. \<exists>c'. sgs_kept B a w c' n' \<and> fst c' = fst c)"
proof (cases "ev = SGS_UE_E_TX_LU_ACCEPT")
  case True
  obtain lc via det imsi where c: "c = (True, lc, via, det, imsi)" using cb by (cases c) simp
  show ?thesis unfolding True
    by (rule wp_mono [OF accept_wp [OF laws w k [unfolded c]]]) (metis c fst_conv)
next
  case False
  have "wp (sgs_ue_fsm_lau_present B L E a ev r n) (sgs_kept B a w c)"
    using ev False to_null_kept [OF laws w k] k by (auto simp: sgs_ue_fsm_states_def sgs_ue_fsm_lau_present_def)
  then show ?thesis by (rule wp_mono) blast
qed

lemma associated_kept:
  assumes laws: "hash_laws B" "use_laws B" "fsm_laws L" and w: "own_use w" and k: "sgs_kept B a w c n" and cb: "fst c"
    and ev: "ev \<in> set (in_event_mask (sgs_ue_fsm_states SGS_UE_ST_ASSOCIATED))"
  shows "wp (sgs_ue_fsm_associated B L E a ev r n) (sgs_kept B a w c)"
proof (cases "ev = SGS_UE_E_RX_TMSI_REALLOC")
  case False
  then show ?thesis
    using ev to_null_kept [OF laws w k] perform_lu_kept [OF laws w k cb] k by (auto simp: sgs_ue_fsm_states_def sgs_ue_fsm_associated_def)
next
  case True
  from k obtain s where s: "sgs_at B a s n" "1 \<le> uc_by B w (vs_uses s)" "core s = c" by (rule sgs_keptE)
  show ?thesis
  proof (cases "vs_tmsi_new s = GSM_RESERVED_TMSI")
    case res: True
    show ?thesis using chg_kept [OF laws(3) k, of SGS_UE_ST_ASSOCIATED 0] cb res by (simp add: True sgs_ue_fsm_associated_def sgs_atD(3) [OF s(1)])
  next
    case False
    let ?f = "\<lambda>s. s\<lparr>vs_tmsi := vs_tmsi_new s, vs_tmsi_new := GSM_RESERVED_TMSI\<rparr>"
    have eq: "sgs_ue_fsm_associated B L E a ev r n = do { n1 \<leftarrow> nsub_upd a ?f n; n2 \<leftarrow> with_vlr (vlr_subscr_rehash_tmsi B a) n1;
            n3 \<leftarrow> sgs_tx_mm_info_cb E a n2; s3 \<leftarrow> nsub_get a n3;
            n4 \<leftarrow> (if vlr_sgs_pag_pend s3 then respawn_paging B E a n3 else Some n3);
            sgs_state_chg L a SGS_UE_ST_ASSOCIATED 0 n4 }"
      unfolding True sgs_ue_fsm_associated_def sgs_ue_fsm_event.case sgs_atD(3) [OF s(1)] bind.bind_lunit if_not_P [OF False] ..
    have "wp (nsub_upd a ?f n) (\<lambda>n1. wp (with_vlr (vlr_subscr_rehash_tmsi B a) n1) (sgs_kept B a w c))"
      by (rule retmsi_wp [OF laws(1) s(1)])
        (use s(2,3) sgs_atD(4,5) [OF s(1)] in \<open>auto simp: vsub_ok_def core_def intro!: sgs_keptI\<close>)
    then show ?thesis unfolding eq wp_bind [of "nsub_upd _ _ _"] wp_bind [of "with_vlr (vlr_subscr_rehash_tmsi B a) _"]
    proof (elim wp_mono)
      fix n2 assume "sgs_kept B a w c n2"
      from associate_kept [OF laws w this cb, of E]
      show "wp (do { n3 \<leftarrow> sgs_tx_mm_info_cb E a n2; s3 \<leftarrow> nsub_get a n3;
          n4 \<leftarrow> (if vlr_sgs_pag_pend s3 then respawn_paging B E a n3 else Some n3);
          sgs_state_chg L a SGS_UE_ST_ASSOCIATED 0 n4 }) (sgs_kept B a w c)"
        by (rule wp_mono) blast
    qed
  qed
qed

subsection \<open>What the machine guarantees\<close>

lemma dispatch_kept:
  assumes laws: "hash_laws B" "use_laws B" "fsm_laws L" and w: "own_use w" and s: "sgs_at B a s n" "1 \<le> uc_by B w (vs_uses s)"
    and cb: "ev = SGS_UE_E_RX_LU_FROM_MME \<or> ev = SGS_UE_E_RX_SERVICE_REQ \<Longrightarrow> vs_sgs_cbs s"
  shows "wp (sgs_dispatch B L E a ev rej_user n) (\<lambda>n'. \<exists>c. sgs_kept B a w c n' \<and> fst c = vs_sgs_cbs s)"
proof -
  have k: "sgs_kept B a w (core s) n" by (rule sgs_keptI [OF s refl])
  have c: "fst (core s) = vs_sgs_cbs s" by (simp add: core_def)
  let ?Q = "\<lambda>n'. \<exists>c. sgs_kept B a w c n' \<and> fst c = vs_sgs_cbs s"
  have L: "ev_allowed L m False e = (e \<in> set m)" for m e using laws(3) by (simp add: fsm_laws_def)
  have eq: "sgs_dispatch B L E a ev rej_user n = (if ev \<in> set sgs_ue_fsm then sgs_ue_fsm_allstate B L E a ev n
      else if ev \<in> set (in_event_mask (sgs_ue_fsm_states (vs_sgs_state s))) then
        (case vs_sgs_state s of SGS_UE_ST_NULL \<Rightarrow> sgs_ue_fsm_null B L E a ev n
          | SGS_UE_ST_LA_UPD_PRES \<Rightarrow> sgs_ue_fsm_lau_present B L E a ev rej_user n
          | SGS_UE_ST_ASSOCIATED \<Rightarrow> sgs_ue_fsm_associated B L E a ev rej_user n)
      else Some n)"
    unfolding sgs_dispatch_def sgs_deliver_def sgs_atD(3) [OF s(1)] bind.bind_lunit L ..
  show ?thesis
  proof (cases "ev \<in> set sgs_ue_fsm")
    case True
    show ?thesis unfolding eq if_P [OF True] using allstate_kept [OF laws w k True, of E] unfolding c .
  next
    case False
    show ?thesis
    proof (cases "ev \<in> set (in_event_mask (sgs_ue_fsm_states (vs_sgs_state s)))")
      case m: False
      show ?thesis unfolding eq if_not_P [OF False] if_not_P [OF m] wp_simps using k c by blast
    next
      case m: True
      note st = eq [unfolded if_not_P [OF False] if_P [OF m]]
      show ?thesis
      proof (cases "vs_sgs_state s")
        case SGS_UE_ST_NULL
        have "wp (sgs_ue_fsm_null B L E a ev n) (sgs_kept B a w (core s))"
        proof (cases "ev = SGS_UE_E_RX_SERVICE_REQ")
          case True
          have "wp (nsub_upd a (\<lambda>s. s\<lparr>vs_conf_by_radio := True\<rparr>) n) (sgs_kept B a w (core s))"
            by (rule upd_kept [OF k]) (simp_all add: core_def same_keys_def vsub_ok_def)
          then have "wp (nsub_upd a (\<lambda>s. s\<lparr>vs_conf_by_radio := True\<rparr>) n) (\<lambda>n1. wp (sgs_state_chg L a SGS_UE_ST_ASSOCIATED 0 n1) (sgs_kept B a w (core s)))"
            by (rule wp_mono) (rule chg_kept [OF laws(3)], use cb True c in simp_all)
          with True show ?thesis by (simp add: sgs_ue_fsm_null_def)
        next
          case False
          then show ?thesis
            using m perform_lu_kept [OF laws w k, of E] k cb c unfolding SGS_UE_ST_NULL by (auto simp: sgs_ue_fsm_states_def sgs_ue_fsm_null_def)
        qed
        then have "wp (sgs_ue_fsm_null B L E a ev n) ?Q" by (rule wp_mono) (use c in blast)
        then show ?thesis unfolding st SGS_UE_ST_NULL sgs_ue_fsm_state.case .
      next
        case SGS_UE_ST_LA_UPD_PRES
        then show ?thesis
          using lau_present_kept [OF laws w k _ m [unfolded SGS_UE_ST_LA_UPD_PRES], of E rej_user] sgs_atD(5) [OF s(1)] c unfolding st by simp
      next
        case SGS_UE_ST_ASSOCIATED
        then have "wp (sgs_ue_fsm_associated B L E a ev rej_user n) (sgs_kept B a w (core s))"
          using associated_kept [OF laws w k _ m [unfolded SGS_UE_ST_ASSOCIATED], of E rej_user] sgs_atD(5) [OF s(1)] c by simp
        then have "wp (sgs_ue_fsm_associated B L E a ev rej_user n) ?Q" by (rule wp_mono) (use c in blast)
        then show ?thesis unfolding st SGS_UE_ST_ASSOCIATED sgs_ue_fsm_state.case .
      qed
    qed
  qed
qed


text \<open>
  C13: when a location update is accepted (event \<open>SGS_UE_E_TX_LU_ACCEPT\<close> in LA-UPDATE-PRESENT), the
  subscriber is registered, holds the reference of a registered subscriber, is attached by SGs, no longer detached, and the
  machine is in ASSOCIATED.
\<close>

theorem sgs_accept_registers:
  assumes laws: "hash_laws B" "use_laws B" "fsm_laws L" and "own_use w" and "sgs_inv B n" and "v_heap (net_vlr n) a = Some s" and "1 \<le> uc_by B w (vs_uses s)"
    and st: "vs_sgs_state s = SGS_UE_ST_LA_UPD_PRES"
  shows "\<exists>n' s'. sgs_dispatch B L E a SGS_UE_E_TX_LU_ACCEPT rej_user n = Some n' \<and> sgs_inv B n' \<and> v_heap (net_vlr n') a = Some s'
    \<and> vs_lu_complete s' \<and> 1 \<le> uc_by B VSUB_USE_ATTACHED (vs_uses s') \<and> vs_attached_via s' = RAT_EUTRAN_SGS \<and> \<not> vs_imsi_detached s'
    \<and> vs_imsi s' = vs_imsi s \<and> vs_sgs_state s' = SGS_UE_ST_ASSOCIATED"
proof -
  have s: "sgs_at B a s n" using assms(5,6) by (simp add: sgs_at_def)
  have "core s = (True, vs_lu_complete s, vs_attached_via s, vs_imsi_detached s, vs_imsi s)" using sgs_atD(5) [OF s] st by (simp add: core_def)
  from accept_wp [OF laws assms(4) sgs_keptI [OF s assms(7) this], of E rej_user] obtain n' where
    n': "sgs_ue_fsm_lau_present B L E a SGS_UE_E_TX_LU_ACCEPT rej_user n = Some n'"
      "sgs_kept B a w (True, True, RAT_EUTRAN_SGS, False, vs_imsi s) n'" "associated a n'" unfolding wp_def by blast
  from n'(2) obtain s' where s': "sgs_at B a s' n'" "core s' = (True, True, RAT_EUTRAN_SGS, False, vs_imsi s)" by (rule sgs_keptE)
  have "sgs_dispatch B L E a SGS_UE_E_TX_LU_ACCEPT rej_user n = Some n'"
    using n'(1) laws(3) st by (simp add: sgs_dispatch_def sgs_deliver_def sgs_atD(3) [OF s] fsm_laws_def sgs_ue_fsm_def sgs_ue_fsm_states_def)
  moreover have "1 \<le> uc_by B VSUB_USE_ATTACHED (vs_uses s')" using sgs_atD(4) [OF s'(1)] s'(2) by (simp add: vsub_ok_def core_def)
  ultimately show ?thesis using s' n'(3) sgs_atD(3) [OF s'(1)] by (auto simp: sgs_at_def core_def associated_def)
qed

lemma detach_prep_wp:
  assumes at: "sgs_at B a s n"
    and Q: "\<And>n' x. sgs_at B a (s\<lparr>vs_imsi_detached := True, vs_expire_lu := x\<rparr>) n' \<Longrightarrow> wp (to_null B L a n') Q"
  shows "wp (sgs_ue_fsm_allstate B L E a SGS_UE_E_RX_DETACH_IND_FROM_MME n) Q" "wp (sgs_ue_fsm_allstate B L E a SGS_UE_E_RX_DETACH_IND_FROM_UE n) Q"
proof -
  let ?s = "s\<lparr>vs_imsi_detached := True\<rparr>"
  note ok = sgs_atD(4,5) [OF at]
  have exp: "wp (nsub_upd a (\<lambda>s. s\<lparr>vs_expire_lu := x\<rparr>) n1) (\<lambda>n2. wp (to_null B L a n2) Q)" if "sgs_at B a ?s n1" for n1 x
    by (rule upd_wp [OF that]) (use ok Q in \<open>simp_all add: same_keys_def vsub_ok_def\<close>)
  have "sgs_at B a (s\<lparr>vs_imsi_detached := True, vs_expire_lu := vs_expire_lu s\<rparr>) n1 = sgs_at B a ?s n1" for n1
    by (rule arg_cong [of _ _ "\<lambda>s. sgs_at B a s n1"]) (cases s, simp)
  then have same: "wp (to_null B L a n1) Q" if "sgs_at B a ?s n1" for n1 using Q that by blast
  have "wp (nsub_upd a (\<lambda>s. s\<lparr>vs_imsi_detached := True\<rparr>) n) (\<lambda>n1. wp (nsub_get a n1) (\<lambda>s. wp (if vs_lu_complete s then nsub_upd a (\<lambda>s. s\<lparr>vs_expire_lu := 0\<rparr>) n1
      else with_vlr (vlr_subscr_keep_incomplete_expiry (se_clock E) a) n1) (\<lambda>n2. wp (to_null B L a n2) Q)))"
  proof (rule upd_wp [OF at])
    fix n1 assume n1: "sgs_at B a ?s n1"
    have "wp (if vs_lu_complete s then nsub_upd a (\<lambda>s. s\<lparr>vs_expire_lu := 0\<rparr>) n1
        else with_vlr (vlr_subscr_keep_incomplete_expiry (se_clock E) a) n1) (\<lambda>n2. wp (to_null B L a n2) Q)"
      using exp [OF n1] same [OF n1]
      by (auto simp: vlr_subscr_keep_incomplete_expiry_def with_vlr_def sgs_atD(3) [OF n1] split: option.splits)
    then show "wp (nsub_get a n1) (\<lambda>s. wp (if vs_lu_complete s then nsub_upd a (\<lambda>s. s\<lparr>vs_expire_lu := 0\<rparr>) n1
        else with_vlr (vlr_subscr_keep_incomplete_expiry (se_clock E) a) n1) (\<lambda>n2. wp (to_null B L a n2) Q))"
      using sgs_atD(3) [OF n1] by simp
  qed (use ok in \<open>simp_all add: same_keys_def vsub_ok_def\<close>)
  then show "wp (sgs_ue_fsm_allstate B L E a SGS_UE_E_RX_DETACH_IND_FROM_MME n) Q" "wp (sgs_ue_fsm_allstate B L E a SGS_UE_E_RX_DETACH_IND_FROM_UE n) Q"
    by (simp_all only: sgs_ue_fsm_allstate_def wp_bind simp_thms if_True)
qed


subsection \<open>A failing update of a new subscriber\<close>

lemma rej_sent_frees:
  assumes laws: "hash_laws B" "use_laws B" "fsm_laws L" and at: "sgs_at B a s n" and st: "vs_sgs_state s = SGS_UE_ST_NULL"
    and u: "1 \<le> uc_by B VSUB_USE_SGS_LU (vs_uses s)" "uc_total B (vs_uses s) = 1"
  shows "wp (vlr_sgs_loc_update_rej_sent B L E a n) (\<lambda>n'. sgs_inv B n' \<and> v_heap (net_vlr n') a = None)"
proof -
  have "sgs_deliver (\<lambda>_. None) (\<lambda>_. None) B L E a SGS_UE_E_TX_LU_REJECT False n = Some n"
    using laws(3) st by (simp add: sgs_deliver_def sgs_atD(3) [OF at] fsm_laws_def sgs_ue_fsm_def sgs_ue_fsm_states_def)
  moreover have "vlr_sgs_lu_release B a (net_vlr n) = Some (freed B a s (net_vlr n))"
    using put_last [OF sgs_atD(2) [OF at] laws(2) u] u(1) by (simp add: vlr_sgs_lu_release_def sgs_atD(3) [OF at])
  ultimately show ?thesis
    using put_last_sgs [OF laws(1,2) at u] by (simp add: vlr_sgs_loc_update_rej_sent_def with_vlr_def)
qed

lemma perform_lu_error_frees:
  assumes laws: "hash_laws B" "use_laws B" "fsm_laws L" and at: "sgs_at B a s n" and cb: "vs_sgs_cbs s"
    and u: "1 \<le> uc_by B VSUB_USE_SGS_LU (vs_uses s)" "uc_total B (vs_uses s) = 1" and p: "\<not> vs_ts5 s" "\<not> vs_is_paging s"
  shows "wp (perform_lu_error B L E a n) (\<lambda>n'. sgs_inv B n' \<and> v_heap (net_vlr n') a = None)"
  unfolding perform_lu_error_def wp_bind [of "to_null B L a n"]
proof (rule to_null_wp [OF laws at, of VSUB_USE_SGS_LU])
  fix n1 s1 assume n1: "sgs_at B a s1 n1" "nulled s s1" "same_uses B paging_uses s s1"
    and tot: "\<not> vs_ts5 s \<Longrightarrow> \<not> vs_is_paging s \<Longrightarrow> uc_total B (vs_uses s1) = uc_total B (vs_uses s)"
  have lu: "1 \<le> uc_by B VSUB_USE_SGS_LU (vs_uses s1)" "uc_total B (vs_uses s1) = 1" "vs_sgs_cbs s1" "vs_sgs_state s1 = SGS_UE_ST_NULL"
    using n1(3) u tot p cb nulledD(1,2) [OF n1(2)] by (simp_all add: same_uses_def)
  have "wp (vlr_sgs_loc_update_rej_sent B L E a n2) (\<lambda>n'. sgs_inv B n' \<and> v_heap (net_vlr n') a = None)" if "sgs_at B a s1 n2" for n2
    by (rule rej_sent_frees [OF laws that lu(4,1,2)])
  then show "wp (do { s \<leftarrow> nsub_get a n1; if \<not> vs_sgs_cbs s then None else sgs_tx_lu_rej B L E a GSM48_REJECT_NETWORK_FAILURE n1 })
      (\<lambda>n'. sgs_inv B n' \<and> v_heap (net_vlr n') a = None)"
    using n1(1) lu(3) by (simp add: sgs_atD(3) [OF n1(1)] sgs_tx_lu_rej_def)
qed (use u in simp_all)

lemma perform_lu_frees:
  assumes laws: "hash_laws B" "use_laws B" "fsm_laws L" and at: "sgs_at B a s n" and cb: "vs_sgs_cbs s"
    and u: "1 \<le> uc_by B VSUB_USE_SGS_LU (vs_uses s)" "uc_total B (vs_uses s) = 1" and p: "\<not> vs_ts5 s" "\<not> vs_is_paging s" and rc: "se_req_lu_rc E \<noteq> 0"
  shows "wp (perform_lu B L E a n) (\<lambda>n'. sgs_inv B n' \<and> v_heap (net_vlr n') a = None)"
proof -
  let ?m = "(if vs_tmsi s = GSM_RESERVED_TMSI then vlr_subscr_alloc_tmsi B (se_is_ps E) (se_nri E) (se_rnd E) a (net_vlr n) else Some (net_vlr n, 0))"
  have "wp ?m (\<lambda>(v', rc). \<exists>s'. sgs_at B a s' (n\<lparr>net_vlr := v'\<rparr>) \<and> retagged B s s')"
    using alloc_loop_wp [OF laws(1,2) at u(1)] at retagged_refl by (auto simp: vlr_subscr_alloc_tmsi_def)
  then obtain v1 rc1 s1 where m: "?m = Some (v1, rc1)" and s1: "sgs_at B a s1 (n\<lparr>net_vlr := v1\<rparr>)" "retagged B s s1" by (auto simp: wp_def)
  have err: "wp (perform_lu_error B L E a n1) (\<lambda>n'. sgs_inv B n' \<and> v_heap (net_vlr n') a = None)" if "sgs_at B a s1 n1" for n1
    by (rule perform_lu_error_frees [OF laws that]) (use cb u p retaggedD [OF s1(2)] in simp_all)
  show ?thesis
    unfolding perform_lu_def sgs_atD(3) [OF at] bind.bind_lunit m prod.case Let_def
    using err [OF s1(1)] err [of "vlr_subscr_req_lu a (n\<lparr>net_vlr := v1\<rparr>)"] s1(1) rc by (simp add: vlr_subscr_req_lu_def)
qed

lemma sgs_alloc:
  assumes "use_laws B" and inv: "sgs_inv B n" and new: "v_heap (net_vlr n) a = None"
  shows "sgs_at B a (vlr_subscr_new clock) (n\<lparr>net_vlr := vlr_subscr_alloc clock a (net_vlr n)\<rparr>)"
proof -
  let ?s = "vlr_subscr_new clock" and ?v = "vlr_subscr_alloc clock a (net_vlr n)"
  have h: "v_heap ?v = (v_heap (net_vlr n))(a \<mapsto> ?s)" "v_pag_inflight ?v = v_pag_inflight (net_vlr n)" by (simp_all add: vlr_subscr_alloc_def v_emit_def)
  have z: "vs_requests ?s = []" "vs_uses ?s = []" "\<not> vs_ts5 ?s" "vs_sgs_state ?s = SGS_UE_ST_NULL" by (simp_all add: vlr_subscr_new_def vlr_subscr_zero_def)
  note n = inv [unfolded sgs_inv_def, THEN conjunct1, unfolded net_inv_def]
  have v: "vlr_inv B ?v" by (rule alloc_ok [OF assms(1) _ new]) (use n in blast)
  have tok: "trans_ok n t x" if "net_trans n t = Some x" for t x using n that by blast
  have "\<not> trans_refs (net_trans n) a u t" for u t
    using tok [of t] new by (cases "net_trans n t") (auto simp: trans_refs_def trans_ok_def)
  then have refs: "filter (trans_refs (net_trans n) a u) (trans_list n) = []" for u by (simp add: filter_empty_conv)
  have "trans_ok (n\<lparr>net_vlr := ?v\<rparr>) t x" if "net_trans n t = Some x" for t x using tok [OF that] by (auto simp: trans_ok_def h)
  moreover have "paging_ok (n\<lparr>net_vlr := ?v\<rparr>)"
  proof -
    have "paging_ok n" using n by blast
    then show ?thesis unfolding paging_ok_def by (auto simp: h z)
  qed
  moreover have "int (length (filter (trans_refs (net_trans n) b u) (trans_list n))) \<le> uc_by B u (vs_uses y)" if "v_heap ?v b = Some y" for b u y
  proof (cases "b = a")
    case True
    then show ?thesis using that refs by (auto simp: h z use_lawsD(3) [OF assms(1)])
  qed (use n that in \<open>simp add: h\<close>)
  ultimately have "net_inv B (n\<lparr>net_vlr := ?v\<rparr>)" using n v by (simp add: net_inv_def)
  moreover have "ts5_set (v_heap ?v) = ts5_set (v_heap (net_vlr n))" using new z(3) by (auto simp: ts5_set_def h)
  ultimately show ?thesis using inv z(4) by (simp add: sgs_at_def sgs_inv_def h)
qed

text \<open>Giving a record an IMSI that no record has.\<close>

lemma set_new_imsi_wp:
  assumes laws: "hash_laws B" "use_laws B" and at: "sgs_at B a s n" and imsi: "imsi \<noteq> []" "length imsi < IMSI_SIZE"
    and free: "\<And>b t. v_heap (net_vlr n) b = Some t \<Longrightarrow> vs_imsi t \<noteq> imsi"
    and Q: "\<And>n'. sgs_at B a (s\<lparr>vs_imsi := imsi, vs_id := atoll imsi\<rparr>) n' \<Longrightarrow> Q n'"
  shows "wp (with_vlr (vlr_subscr_set_imsi B atoll silent has_inval has_forget a imsi) n) Q"
proof -
  note d = sgs_atD [OF at] and i = sgs_inv_vlr [OF sgs_atD(1) [OF at]]
  have none: "vlr_subscr_find_by_imsi B imsi None v = Some (v, None)" if "vlr_inv B v" "v_heap v = v_heap (net_vlr n)" for v
    using laws(1) that(1) imsi(1) by (cases rule: find_by_imsi_cases [where use = None]) (use that free in auto)
  define v4 where "v4 = (if silent then v_emit (CALL_SILENT_CALL_STOP None) (net_vlr n) else net_vlr n)"
  have v4: "vlr_inv B v4" "v_heap v4 = v_heap (net_vlr n)" using i(1) by (simp_all add: v4_def)
  have m: "set_imsi_merge B silent has_inval has_forget a imsi (net_vlr n) = Some v4"
    using none [OF i(1)] none [OF v4] by (simp add: set_imsi_merge_def v4_def Let_def)
  have a4: "v_heap v4 a = Some s" using v4(2) d(2) by simp
  have free4: "vs_imsi t \<noteq> imsi" if "b \<noteq> a" "v_heap v4 b = Some t" for b t using free that v4(2) by simp
  obtain v1 v2 v3 where r: "vsub_upd a (\<lambda>s. s\<lparr>vs_imsi := strlcpy IMSI_SIZE imsi\<rparr>) v4 = Some v1"
      "vsub_upd a (\<lambda>s. s\<lparr>vs_id := atoll (vs_imsi s)\<rparr>) v1 = Some v2" "vlr_subscr_rehash_imsi B a v2 = Some v3" "vlr_inv B v3" "touched a v4 v3"
      "v_heap v3 a = Some (s\<lparr>vs_imsi := imsi, vs_id := atoll imsi\<rparr>)" "v_pag_inflight v3 = v_pag_inflight v4"
    by (rule assign_imsi_ok [OF laws(1) v4(1) a4 imsi(2) free4, where atoll = atoll])
  have eq: "vlr_subscr_set_imsi B atoll silent has_inval has_forget a imsi (net_vlr n) = Some v3"
    using free [OF d(2)] by (simp add: set_imsi_split d(3) m r(1-3))
  have "v_pag_inflight v4 = v_pag_inflight (net_vlr n)" by (simp add: v4_def v_emit_def)
  then have "sgs_at B a (s\<lparr>vs_imsi := imsi, vs_id := atoll imsi\<rparr>) (n\<lparr>net_vlr := v3\<rparr>)"
    by (intro sgs_vlr_upd [OF at r(4) _ r(6)]) (use r(5,7) v4(2) d(5,6) in \<open>simp_all add: touched_def\<close>)
  from Q [OF this] eq show ?thesis by (simp add: with_vlr_def)
qed

text \<open>A record created for a location update: the update holds its only reference.\<close>

lemma create_for_lu:
  assumes laws: "hash_laws B" "use_laws B" and inv: "sgs_inv B n" and new: "v_heap (net_vlr n) a = None" and imsi: "imsi \<noteq> []" "length imsi < IMSI_SIZE"
    and free: "\<And>b t. v_heap (net_vlr n) b = Some t \<Longrightarrow> vs_imsi t \<noteq> imsi"
  obtains v1 s where "vlr_subscr_find_or_create_by_imsi B atoll silent has_inval has_forget clock a imsi u (net_vlr n) = Some (v1, a, True)"
    "sgs_at B a s (n\<lparr>net_vlr := v1\<rparr>)" "vs_imsi s = imsi" "vs_sgs_state s = SGS_UE_ST_NULL" "\<not> vs_ts5 s" "\<not> vs_is_paging s"
    "uc_total B (vs_uses s) = 1" "uc_by B u (vs_uses s) = 1"
proof -
  have find: "vlr_subscr_find_by_imsi B imsi (Some u) (net_vlr n) = Some (net_vlr n, None)"
    using laws(1) sgs_inv_vlr(1) [OF inv] imsi(1) by (cases rule: find_by_imsi_cases [where use = "Some u"]) (use free in auto)
  let ?z = "vlr_subscr_new clock"
  let ?n = "n\<lparr>net_vlr := vlr_subscr_alloc clock a (net_vlr n)\<rparr>"
  have h: "v_heap (vlr_subscr_alloc clock a (net_vlr n)) = (v_heap (net_vlr n))(a \<mapsto> ?z)" by (simp add: vlr_subscr_alloc_def v_emit_def)
  have z: "vs_imsi ?z = []" "vs_uses ?z = []" "\<not> vs_ts5 ?z" "\<not> vs_is_paging ?z" "vs_sgs_state ?z = SGS_UE_ST_NULL"
    by (simp_all add: vlr_subscr_new_def vlr_subscr_zero_def)
  have "wp (with_vlr (vlr_subscr_get B a u) ?n) (\<lambda>n2. wp (with_vlr (vlr_subscr_set_imsi B atoll silent has_inval has_forget a imsi) n2)
      (\<lambda>n3. \<exists>s. sgs_at B a s n3 \<and> vs_imsi s = imsi \<and> vs_sgs_state s = SGS_UE_ST_NULL \<and> \<not> vs_ts5 s \<and> \<not> vs_is_paging s
        \<and> uc_total B (vs_uses s) = 1 \<and> uc_by B u (vs_uses s) = 1))" (is "wp _ (\<lambda>n2. wp _ ?Q)")
  proof (rule get_wp [OF laws(2) sgs_alloc [OF laws(2) inv new]])
    fix n2 m let ?s = "?z\<lparr>vs_uses := uc_change B u 1 (vs_uses ?z), vs_max_uses := m\<rparr>"
    assume n2: "sgs_at B a ?s n2" and o: "\<And>b. b \<noteq> a \<Longrightarrow> v_heap (net_vlr n2) b = v_heap (net_vlr ?n) b"
    have fr: "vs_imsi t \<noteq> imsi" if "v_heap (net_vlr n2) b = Some t" for b t
      using that free [of b t] o [of b] sgs_atD(2) [OF n2] z imsi(1) by (cases "b = a") (auto simp: h)
    show "wp (with_vlr (vlr_subscr_set_imsi B atoll silent has_inval has_forget a imsi) n2) ?Q"
    proof (rule set_new_imsi_wp [OF laws n2 imsi fr])
      fix n' assume "sgs_at B a (?s\<lparr>vs_imsi := imsi, vs_id := atoll imsi\<rparr>) n'"
      then show "?Q n'" 
        using z by (intro exI [of _ "?s\<lparr>vs_imsi := imsi, vs_id := atoll imsi\<rparr>"]) (simp add: use_lawsD [OF laws(2)])
    qed
  qed
  then obtain v2 v3 s where g: "vlr_subscr_get B a u (net_vlr ?n) = Some v2" "vlr_subscr_set_imsi B atoll silent has_inval has_forget a imsi v2 = Some v3"
    and s: "sgs_at B a s (n\<lparr>net_vlr := v3\<rparr>)" "vs_imsi s = imsi" "vs_sgs_state s = SGS_UE_ST_NULL" "\<not> vs_ts5 s" "\<not> vs_is_paging s"
      "uc_total B (vs_uses s) = 1" "uc_by B u (vs_uses s) = 1" by (auto simp: wp_def with_vlr_def)
  have "vlr_subscr_find_or_create_by_imsi B atoll silent has_inval has_forget clock a imsi u (net_vlr n) = Some (v3, a, True)"
    using find g by (simp add: vlr_subscr_find_or_create_by_imsi_def)
  from that [OF this s] show thesis .
qed

text \<open>
  C34: for an IMSI that is not in the store, \<open>vlr_sgs_loc_update()\<close> uses a record after it was freed (\<open>None\<close>) whenever the
  request to the HLR cannot be sent: the reject it answers with releases the only reference, and the function then stores the location
  area in the record.
\<close>

theorem sgs_loc_update_use_after_free:
  assumes laws: "hash_laws B" "use_laws B" "fsm_laws L" and inv: "sgs_inv B n" and new: "v_heap (net_vlr n) new = None"
    and imsi: "imsi \<noteq> []" "length imsi < IMSI_SIZE" and free: "\<not> (\<exists>b. imsi_at (v_heap (net_vlr n)) imsi b)" and rc: "se_req_lu_rc E \<noteq> 0"
  shows "vlr_sgs_loc_update B L E ts6_2 new mme_name imsi lai plmn n = None"
proof -
  have fr: "vs_imsi t \<noteq> imsi" if "v_heap (net_vlr n) b = Some t" for b t
  proof
    assume "vs_imsi t = imsi"
    then have "imsi_at (v_heap (net_vlr n)) imsi b" using that by (simp add: imsi_at_def)
    with free show False by blast
  qed
  obtain v1 s where
    c: "vlr_subscr_find_or_create_by_imsi B (se_atoll E) (se_silent E) (se_inval E) (se_forget E) (se_clock E) new imsi VSUB_USE_SGS_LU (net_vlr n)
        = Some (v1, new, True)"
    and s: "sgs_at B new s (n\<lparr>net_vlr := v1\<rparr>)" "vs_imsi s = imsi" "vs_sgs_state s = SGS_UE_ST_NULL" "\<not> vs_ts5 s" "\<not> vs_is_paging s"
      "uc_total B (vs_uses s) = 1" "uc_by B VSUB_USE_SGS_LU (vs_uses s) = 1"
    by (rule create_for_lu [OF laws(1,2) inv new imsi fr, where u = VSUB_USE_SGS_LU and atoll = "se_atoll E" and silent = "se_silent E"
          and has_inval = "se_inval E" and has_forget = "se_forget E" and clock = "se_clock E"])
  define n1 where "n1 = n\<lparr>net_vlr := v1\<rparr>"
  let ?f2 = "\<lambda>s. s\<lparr>vs_ts6_2_secs := ts6_2, vs_sgs_cbs := True\<rparr>" and ?f4 = "\<lambda>s. s\<lparr>vs_last_eutran_plmn := plmn\<rparr>"
  let ?f5 = "\<lambda>s. s\<lparr>vs_mme_name := strlcpy SGS_MME_NAME_SIZE mme_name\<rparr>"
  let ?s2 = "?f2 s" let ?s4 = "?f4 ?s2" let ?s5 = "?f5 ?s4"
  have ok: "vsub_ok B s" by (rule sgs_atD(4) [OF s(1)])
  have disp: "wp (sgs_dispatch B L E new SGS_UE_E_RX_LU_FROM_MME False n5) (\<lambda>n6. v_heap (net_vlr n6) new = None)" if n5: "sgs_at B new ?s5 n5" for n5
  proof -
    have eq: "sgs_dispatch B L E new SGS_UE_E_RX_LU_FROM_MME False n5 = perform_lu B L E new n5"
      using laws(3) s(3) by (simp add: sgs_dispatch_def sgs_deliver_def sgs_atD(3) [OF n5] fsm_laws_def sgs_ue_fsm_def sgs_ue_fsm_states_def sgs_ue_fsm_null_def)
    have "wp (perform_lu B L E new n5) (\<lambda>n'. sgs_inv B n' \<and> v_heap (net_vlr n') new = None)"
      by (rule perform_lu_frees [OF laws n5]) (use s rc in simp_all)
    then show ?thesis unfolding eq by (rule wp_mono) blast
  qed
  have "wp (nsub_upd new ?f2 n1) (\<lambda>n2. wp (nsub_upd new ?f4 n2) (\<lambda>n4. wp (nsub_upd new ?f5 n4)
      (\<lambda>n5. nsub_get new n2 = Some ?s2 \<and> wp (sgs_dispatch B L E new SGS_UE_E_RX_LU_FROM_MME False n5) (\<lambda>n6. v_heap (net_vlr n6) new = None))))"
  proof (rule upd_wp [OF s(1) [folded n1_def]])
    fix n2 assume n2: "sgs_at B new ?s2 n2"
    show "wp (nsub_upd new ?f4 n2) (\<lambda>n4. wp (nsub_upd new ?f5 n4)
      (\<lambda>n5. nsub_get new n2 = Some ?s2 \<and> wp (sgs_dispatch B L E new SGS_UE_E_RX_LU_FROM_MME False n5) (\<lambda>n6. v_heap (net_vlr n6) new = None)))"
    proof (rule upd_wp [OF n2])
      fix n4 assume n4: "sgs_at B new ?s4 n4"
      show "wp (nsub_upd new ?f5 n4)
          (\<lambda>n5. nsub_get new n2 = Some ?s2 \<and> wp (sgs_dispatch B L E new SGS_UE_E_RX_LU_FROM_MME False n5) (\<lambda>n6. v_heap (net_vlr n6) new = None))"
        by (rule upd_wp [OF n4]) (use ok s(3) disp sgs_atD(3) [OF n2] in \<open>simp_all add: same_keys_def vsub_ok_def\<close>)
    qed (use ok s(3) in \<open>simp_all add: same_keys_def vsub_ok_def\<close>)
  qed (use ok s(3) in \<open>simp_all add: same_keys_def vsub_ok_def\<close>)
  then obtain n2 n4 n5 n6 where r: "nsub_upd new ?f2 n1 = Some n2" "nsub_upd new ?f4 n2 = Some n4" "nsub_upd new ?f5 n4 = Some n5"
    "nsub_get new n2 = Some ?s2" "sgs_dispatch B L E new SGS_UE_E_RX_LU_FROM_MME False n5 = Some n6" "v_heap (net_vlr n6) new = None"
    unfolding wp_def by blast
  have "with_vlr (vlr_subscr_set_imsi B (se_atoll E) (se_silent E) (se_inval E) (se_forget E) new imsi) n2 = Some n2"
    using r(4) s(2) by (simp add: with_vlr_def vlr_subscr_set_imsi_def)
  moreover have "nsub_upd new g n6 = None" for g using r(6) by (simp add: with_vlr_def vsub_upd_def)
  moreover have "nsub_get new n1 = Some s" using sgs_atD(3) [OF s(1)] by (simp add: n1_def)
  ultimately show ?thesis
    unfolding vlr_sgs_loc_update_def c bind.bind_lunit prod.case Let_def n1_def [symmetric] vlr_subscr_set_last_used_eutran_plmn_id_def
    using s(3) r(1-3,5) by (simp only: bind.bind_lunit bind_eq_None_conv sgs_ue_fsm_state.distinct if_False bind.bind_lzero)
qed

text \<open>
  A service request associates a subscriber whose callbacks were never set; the completion of a TMSI reallocation then calls
  a callback that is NULL.
\<close>

lemma sgs_service_req_without_callbacks:
  assumes "fsm_laws L" and s: "v_heap (net_vlr n) a = Some s" and "vs_sgs_state s = SGS_UE_ST_NULL" and "\<not> vs_sgs_cbs s" and "vs_tmsi_new s \<noteq> GSM_RESERVED_TMSI"
  obtains n' where "sgs_dispatch B L E a SGS_UE_E_RX_SERVICE_REQ r n = Some n'" "sgs_dispatch B L E a SGS_UE_E_RX_TMSI_REALLOC r n' = None"
proof -
  let ?s = "s\<lparr>vs_conf_by_radio := True, vs_sgs_state := SGS_UE_ST_ASSOCIATED, vs_ts6_2 := False\<rparr>"
  let ?n = "n\<lparr>net_vlr := put_sub a ?s (net_vlr n)\<rparr>"
  have L: "ev_allowed L m False e = (e \<in> set m)" "chg_allowed L m' False st = (st \<in> set m')" for m e m' st using assms(1) by (simp_all add: fsm_laws_def)
  have "sgs_dispatch B L E a SGS_UE_E_RX_SERVICE_REQ r n = Some ?n"
    using assms(3) s by (simp add: sgs_dispatch_def sgs_deliver_def vsub_get_def L sgs_ue_fsm_def sgs_ue_fsm_states_def sgs_ue_fsm_null_def
        sgs_state_chg_def with_vlr_def vsub_upd_def put_sub_def)
  moreover have "sgs_dispatch B L E a SGS_UE_E_RX_TMSI_REALLOC r ?n = None"
    using assms(4,5) by (simp add: sgs_dispatch_def sgs_deliver_def vsub_get_def L sgs_ue_fsm_def sgs_ue_fsm_states_def sgs_ue_fsm_associated_def
        sgs_tx_mm_info_cb_def with_vlr_def vsub_upd_def put_sub_def vlr_subscr_rehash_tmsi_def Let_def)
  ultimately show thesis by (rule that)
qed

subsection \<open>A concrete network\<close>

definition sgs_env_ex :: sgs_env where
  "sgs_env_ex = \<lparr>se_clock = Some 100, se_x3212 = 0, se_t3212 = 1800, se_rnd = (\<lambda>_. Inr 5), se_nri = None, se_is_ps = False, se_req_lu_rc = - 5,
     se_mme = (\<lambda>_. True), se_send_mm_info = True, se_persist = False, se_forget = True, se_inval = True, se_silent = False, se_atoll = (\<lambda>_. 102)\<rparr>"

lemma net_ex_sgs: "sgs_inv store_lib net_ex"
proof -
  have "\<not> vs_ts5 sub_attached" "\<not> vs_ts5 sub_new" "vs_sgs_state sub_attached = SGS_UE_ST_NULL" "vs_sgs_state sub_new = SGS_UE_ST_NULL"
    by (simp_all add: sub_attached_def sub_new_def vlr_subscr_new_def vlr_subscr_zero_def)
  moreover from this have "ts5_set (v_heap (net_vlr net_ex)) = {}" by (auto simp: ts5_set_def net_ex_def split: if_splits)
  ultimately show ?thesis using net_ex_inv by (auto simp: sgs_inv_def net_ex_def store_ex_def split: if_splits)
qed

definition sub_updating :: vlr_subscr where
  "sub_updating = sub_attached\<lparr>vs_uses := [(VSUB_USE_ATTACHED, 1), (''CC'', 2)], vs_sgs_cbs := True, vs_sgs_state := SGS_UE_ST_LA_UPD_PRES\<rparr>"

definition net_updating :: "(nat \<times> 32 word) list gsm_network" where
  "net_updating = net_ex\<lparr>net_vlr := put_sub 1 sub_updating (net_vlr net_ex)\<rparr>"

lemma net_updating_sgs: "sgs_inv store_lib net_updating" "v_heap (net_vlr net_updating) 1 = Some sub_updating"
proof -
  let ?s = "sub_attached\<lparr>vs_uses := [(VSUB_USE_ATTACHED, 1), (''CC'', 2)]\<rparr>"
  have at: "sgs_at store_lib 1 ?s net_ex" using net_ex_sgs net_ex_trans(2) by (simp add: sgs_at_def)
  have ok: "vsub_ok store_lib sub_updating" using sgs_atD(4) [OF at] by (simp add: vsub_ok_def sub_updating_def)
  have k: "same_keys ?s sub_updating" by (simp add: same_keys_def sub_updating_def)
  have "vs_requests sub_attached = []" by (simp add: sub_attached_def vlr_subscr_new_def vlr_subscr_zero_def)
  then have "sgs_at store_lib 1 sub_updating (net_ex\<lparr>net_vlr := put_sub 1 sub_updating (net_vlr net_ex)\<rparr>)"
    by (intro sgs_vlr_upd [OF at put_sub_inv [OF sgs_inv_vlr(1) [OF net_ex_sgs] net_ex_trans(2) k ok]])
      (simp_all add: touched_def put_sub_def sub_updating_def)
  then show "sgs_inv store_lib net_updating" "v_heap (net_vlr net_updating) 1 = Some sub_updating" by (simp_all add: sgs_at_def net_updating_def)
qed

lemma sub_updating_facts: "1 \<le> uc_by store_lib ''CC'' (vs_uses sub_updating)" "vs_sgs_state sub_updating = SGS_UE_ST_LA_UPD_PRES"
  "vs_sgs_cbs sub_updating" "own_use ''CC''" "vs_imsi sub_updating = ''00101''"
  by (simp_all add: sub_updating_def store_lib_def own_use_def sub_attached_def)


theorem sgs_accept_registers_witness:
  "\<exists>n' s'. sgs_dispatch store_lib fsm_lib_masks sgs_env_ex 1 SGS_UE_E_TX_LU_ACCEPT False net_updating = Some n' \<and> v_heap (net_vlr n') 1 = Some s'
     \<and> vs_lu_complete s' \<and> vs_attached_via s' = RAT_EUTRAN_SGS \<and> vs_imsi s' = ''00101'' \<and> vs_sgs_state s' = SGS_UE_ST_ASSOCIATED"
  using sgs_accept_registers [OF store_lib_hash store_lib_use fsm_laws_masks sub_updating_facts(4) net_updating_sgs sub_updating_facts(1,2),
      of sgs_env_ex False] sub_updating_facts(5) by auto


theorem sgs_loc_update_use_after_free_witness:
  "vlr_sgs_loc_update store_lib fsm_lib_masks sgs_env_ex 0 3 ''mme'' ''00102'' lai_zero None net_ex = None"
proof -
  have "v_heap (net_vlr net_ex) 3 = None" "\<not> (\<exists>b. imsi_at (v_heap (net_vlr net_ex)) ''00102'' b)" "se_req_lu_rc sgs_env_ex \<noteq> 0"
    by (auto simp: net_ex_def imsi_at_def sub_attached_def sub_new_def vlr_subscr_new_def vlr_subscr_zero_def sgs_env_ex_def split: option.splits if_splits)
  from sgs_loc_update_use_after_free [OF store_lib_hash store_lib_use fsm_laws_masks net_ex_sgs this(1) _ _ this(2,3)] show ?thesis by simp
qed

end
