(* ===== verification/Msub.thy ===== *)
theory Msub
  imports Vlr_Sgs
begin

text \<open>
  The association of a subscriber with a connection: \<open>msub_set_vsub()\<close> of \<open>src/src/libmsc/msub.c\<close> and
  \<open>msc_vlr_subscr_assoc()\<close> of \<open>src/src/libmsc/gsm_04_08.c\<close>.  Connections are objects in a heap of their own;
  the field \<open>msc_msub\<close> of a subscriber is a map from its address.  Releasing a connection, ending its state
  machine and the event to its role MSC-A are recorded.  The classmark is not part of the model.
\<close>

abbreviation (input) VSUB_USE_MSUB :: string where "VSUB_USE_MSUB \<equiv> ''active-conn''"

text \<open>
  \<open>ms_msc_a\<close>: the connection has the role MSC-A; \<open>ms_in_release\<close>, \<open>ms_ran_a\<close> and \<open>ms_l3_lu\<close> are
  \<open>msc_a_in_release()\<close>, the type of \<open>c.ran\<close> and \<open>complete_layer3_type == COMPLETE_LAYER3_LU\<close> of it, and
  \<open>ms_ran\<close> is the type of \<open>msub_ran()\<close>.
\<close>

record msub =
  ms_vsub :: "nat option"
  ms_msc_a :: bool
  ms_in_release :: bool
  ms_ran_a :: rat_type
  ms_l3_lu :: bool
  ms_ran :: rat_type

datatype msub_out = MSC_A_RELEASE_MO nat | MSUB_TERM nat | MSC_A_COMPLETE_LAYER_3_OK nat

record 'h msc_world =
  mw_net :: "'h gsm_network"
  mw_msubs :: "nat \<Rightarrow> msub option"
  mw_msc_msub :: "nat \<Rightarrow> nat option"
  mw_out :: "msub_out list"

definition msub_for_vsub :: "'h msc_world \<Rightarrow> nat \<Rightarrow> nat option" where
  "msub_for_vsub w a = mw_msc_msub w a"

text \<open>\<open>msub_set_vsub(msub, NULL)\<close>\<close>

definition msub_unset_vsub :: "'h vlr_lib \<Rightarrow> nat \<Rightarrow> 'h msc_world \<Rightarrow> 'h msc_world option" where
  "msub_unset_vsub B m w = do {
     ms \<leftarrow> mw_msubs w m;
     (case ms_vsub ms of
        None \<Rightarrow> Some w
      | Some a \<Rightarrow> do {
          n1 \<leftarrow> with_vlr (vlr_subscr_put B a VSUB_USE_MSUB) (mw_net w);
          Some (w\<lparr>mw_net := n1, mw_msubs := (mw_msubs w)(m \<mapsto> ms\<lparr>ms_vsub := None\<rparr>),
                  mw_msc_msub := (if mw_msc_msub w a = Some m then (mw_msc_msub w)(a := None) else mw_msc_msub w)\<rparr>) }) }"

definition msub_replaces :: "msub \<Rightarrow> msub \<Rightarrow> bool" where
  "msub_replaces ms other \<longleftrightarrow>
     (ms_msc_a other \<and> (ms_in_release other \<or> ms_ran_a other = RAT_EUTRAN_SGS \<or> ms_ran_a other = RAT_UTRAN_IU))
     \<or> (ms_msc_a ms \<and> ms_l3_lu ms)"

text \<open>The branch of \<open>msub_set_vsub()\<close> for a subscriber that has another connection; \<open>-22\<close> is \<open>-EINVAL\<close>.\<close>

definition msub_drop_other :: "'h vlr_lib \<Rightarrow> nat \<Rightarrow> msub \<Rightarrow> nat \<Rightarrow> 'h msc_world \<Rightarrow> ('h msc_world \<times> int) option" where
  "msub_drop_other B m ms a w =
     (case msub_for_vsub w a of
        None \<Rightarrow> Some (w, 0)
      | Some k \<Rightarrow>
          if k = m then Some (w, 0)
          else do {
            other \<leftarrow> mw_msubs w k;
            if \<not> msub_replaces ms other then Some (w, - 22)
            else do {
              w1 \<leftarrow> msub_unset_vsub B k w;
              Some (if ms_msc_a other
                    then (if ms_in_release other then w1 else w1\<lparr>mw_out := mw_out w1 @ [MSC_A_RELEASE_MO k]\<rparr>)
                    else w1\<lparr>mw_out := mw_out w1 @ [MSUB_TERM k]\<rparr>, 0) } })"

text \<open>\<open>-95\<close> is \<open>-ENOTSUP\<close>.\<close>

definition msub_set_vsub :: "'h vlr_lib \<Rightarrow> nat \<Rightarrow> nat option \<Rightarrow> 'h msc_world \<Rightarrow> ('h msc_world \<times> int) option" where
  "msub_set_vsub B m vsub w = do {
     ms \<leftarrow> mw_msubs w m;
     if ms_vsub ms = vsub then Some (w, 0)
     else (case vsub of
        None \<Rightarrow> map_option (\<lambda>w1. (w1, 0)) (msub_unset_vsub B m w)
      | Some a \<Rightarrow>
          if ms_vsub ms \<noteq> None then Some (w, - 95)
          else do {
            (w1, rc) \<leftarrow> msub_drop_other B m ms a w;
            if rc \<noteq> 0 then Some (w1, rc)
            else do {
              n2 \<leftarrow> with_vlr (vlr_subscr_get B a VSUB_USE_MSUB) (mw_net w1);
              n3 \<leftarrow> nsub_upd a (\<lambda>s. s\<lparr>vs_attached_via := ms_ran ms\<rparr>) n2;
              Some (w1\<lparr>mw_net := n3, mw_msubs := (mw_msubs w1)(m \<mapsto> ms\<lparr>ms_vsub := Some a\<rparr>),
                       mw_msc_msub := (mw_msc_msub w1)(a \<mapsto> m)\<rparr>, 0) } }) }"

text \<open>The connection is named by its \<open>msub\<close>.\<close>

definition msc_vlr_subscr_assoc :: "'h vlr_lib \<Rightarrow> nat \<Rightarrow> nat \<Rightarrow> 'h msc_world \<Rightarrow> ('h msc_world \<times> int) option" where
  "msc_vlr_subscr_assoc B m a w = do {
     (w1, rc) \<leftarrow> msub_set_vsub B m (Some a) w;
     if rc \<noteq> 0 then Some (w1, - 22)
     else do {
       ms \<leftarrow> mw_msubs w1 m;
       n2 \<leftarrow> nsub_upd a (\<lambda>s. s\<lparr>vs_attached_via := ms_ran_a ms\<rparr>) (mw_net w1);
       Some (w1\<lparr>mw_net := n2, mw_out := mw_out w1 @ [MSC_A_COMPLETE_LAYER_3_OK m]\<rparr>, 0) } }"

end
