(* ===== verification/Vlr_Lu.thy ===== *)
theory Vlr_Lu
  imports Msub Vlr_Auth
begin

text \<open>
  Location updating: the four state machines of \<open>src/src/libvlr/vlr_lu_fsm.c\<close> and the functions of
  \<open>src/src/libvlr/vlr.c\<close> through which the MSC and the HLR client drive them.  One location update is modelled
  with everything it works on: the machine \<open>vlr_lu_fsm\<close>, its children for the authentication (the machine of
  \<open>Vlr_Auth\<close>), for the update of the HLR, for the completion and for the presence of the subscriber, the
  connection and the subscriber store.  An event that one machine sends to another is handled where the code
  sends it, so the functions stand in the order in which they call each other, the innermost first.  Messages to
  the MS, to the HLR and to the parent machine are recorded in \<open>lw_out\<close>.
\<close>

subsection \<open>Data\<close>

datatype vlr_lu_type = VLR_LU_TYPE_PERIODIC | VLR_LU_TYPE_IMSI_ATTACH | VLR_LU_TYPE_REGULAR
datatype vlr_ciph_result_cause = VLR_CIPH_REJECT | VLR_CIPH_COMPL
datatype vlr_fsm_result = VLR_FSM_RESULT_NONE | VLR_FSM_RESULT_SUCCESS | VLR_FSM_RESULT_FAILURE
datatype mi_type = GSM_MI_TYPE_IMSI | GSM_MI_TYPE_IMEI | GSM_MI_TYPE_IMEISV

datatype upd_hlr_vlr_state = UPD_HLR_VLR_S_INIT | UPD_HLR_VLR_S_WAIT_FOR_DATA | UPD_HLR_VLR_S_DONE
datatype upd_hlr_vlr_evt =
    UPD_HLR_VLR_E_START | UPD_HLR_VLR_E_INS_SUB_DATA | UPD_HLR_VLR_E_ACT_TRACE_MODE | UPD_HLR_VLR_E_FW_CHECK_SS_IND
  | UPD_HLR_VLR_E_UPD_LOC_ACK | UPD_HLR_VLR_E_UPD_LOC_NACK

definition upd_hlr_vlr_states :: "upd_hlr_vlr_state \<Rightarrow> (upd_hlr_vlr_state, upd_hlr_vlr_evt) fsm_state" where
  "upd_hlr_vlr_states s = (case s of
     UPD_HLR_VLR_S_INIT \<Rightarrow> \<lparr>in_event_mask = [UPD_HLR_VLR_E_START], out_state_mask = [UPD_HLR_VLR_S_WAIT_FOR_DATA]\<rparr>
   | UPD_HLR_VLR_S_WAIT_FOR_DATA \<Rightarrow>
       \<lparr>in_event_mask = [UPD_HLR_VLR_E_INS_SUB_DATA, UPD_HLR_VLR_E_ACT_TRACE_MODE, UPD_HLR_VLR_E_FW_CHECK_SS_IND,
          UPD_HLR_VLR_E_UPD_LOC_ACK, UPD_HLR_VLR_E_UPD_LOC_NACK],
        out_state_mask = [UPD_HLR_VLR_S_DONE]\<rparr>
   | UPD_HLR_VLR_S_DONE \<Rightarrow> \<lparr>in_event_mask = [], out_state_mask = []\<rparr>)"

datatype sub_pres_vlr_state = SUB_PRES_VLR_S_INIT | SUB_PRES_VLR_S_WAIT_FOR_HLR | SUB_PRES_VLR_S_DONE
datatype sub_pres_vlr_event = SUB_PRES_VLR_E_START | SUB_PRES_VLR_E_READY_SM_CNF | SUB_PRES_VLR_E_READY_SM_ERR

definition sub_pres_vlr_states :: "sub_pres_vlr_state \<Rightarrow> (sub_pres_vlr_state, sub_pres_vlr_event) fsm_state" where
  "sub_pres_vlr_states s = (case s of
     SUB_PRES_VLR_S_INIT \<Rightarrow>
       \<lparr>in_event_mask = [SUB_PRES_VLR_E_START], out_state_mask = [SUB_PRES_VLR_S_WAIT_FOR_HLR, SUB_PRES_VLR_S_DONE]\<rparr>
   | SUB_PRES_VLR_S_WAIT_FOR_HLR \<Rightarrow>
       \<lparr>in_event_mask = [SUB_PRES_VLR_E_READY_SM_CNF, SUB_PRES_VLR_E_READY_SM_ERR], out_state_mask = [SUB_PRES_VLR_S_DONE]\<rparr>
   | SUB_PRES_VLR_S_DONE \<Rightarrow> \<lparr>in_event_mask = [], out_state_mask = []\<rparr>)"

datatype lu_compl_vlr_state =
    LU_COMPL_VLR_S_INIT | LU_COMPL_VLR_S_WAIT_SUB_PRES | LU_COMPL_VLR_S_WAIT_IMEI | LU_COMPL_VLR_S_WAIT_IMEI_TMSI
  | LU_COMPL_VLR_S_WAIT_TMSI_CNF | LU_COMPL_VLR_S_DONE
datatype lu_compl_vlr_event =
    LU_COMPL_VLR_E_START | LU_COMPL_VLR_E_SUB_PRES_COMPL | LU_COMPL_VLR_E_IMEI_CHECK_ACK | LU_COMPL_VLR_E_IMEI_CHECK_NACK
  | LU_COMPL_VLR_E_NEW_TMSI_ACK

definition lu_compl_vlr_states :: "lu_compl_vlr_state \<Rightarrow> (lu_compl_vlr_state, lu_compl_vlr_event) fsm_state" where
  "lu_compl_vlr_states s = (case s of
     LU_COMPL_VLR_S_INIT \<Rightarrow>
       \<lparr>in_event_mask = [LU_COMPL_VLR_E_START], out_state_mask = [LU_COMPL_VLR_S_DONE, LU_COMPL_VLR_S_WAIT_SUB_PRES]\<rparr>
   | LU_COMPL_VLR_S_WAIT_SUB_PRES \<Rightarrow>
       \<lparr>in_event_mask = [LU_COMPL_VLR_E_SUB_PRES_COMPL],
        out_state_mask = [LU_COMPL_VLR_S_WAIT_IMEI, LU_COMPL_VLR_S_WAIT_IMEI_TMSI, LU_COMPL_VLR_S_WAIT_TMSI_CNF,
          LU_COMPL_VLR_S_DONE]\<rparr>
   | LU_COMPL_VLR_S_WAIT_IMEI \<Rightarrow>
       \<lparr>in_event_mask = [LU_COMPL_VLR_E_IMEI_CHECK_ACK, LU_COMPL_VLR_E_IMEI_CHECK_NACK], out_state_mask = [LU_COMPL_VLR_S_DONE]\<rparr>
   | LU_COMPL_VLR_S_WAIT_IMEI_TMSI \<Rightarrow>
       \<lparr>in_event_mask = [LU_COMPL_VLR_E_IMEI_CHECK_ACK, LU_COMPL_VLR_E_IMEI_CHECK_NACK],
        out_state_mask = [LU_COMPL_VLR_S_DONE, LU_COMPL_VLR_S_WAIT_TMSI_CNF]\<rparr>
   | LU_COMPL_VLR_S_WAIT_TMSI_CNF \<Rightarrow>
       \<lparr>in_event_mask = [LU_COMPL_VLR_E_NEW_TMSI_ACK], out_state_mask = [LU_COMPL_VLR_S_DONE]\<rparr>
   | LU_COMPL_VLR_S_DONE \<Rightarrow> \<lparr>in_event_mask = [], out_state_mask = []\<rparr>)"

definition lu_compl_fsm_state_tdef :: "bool \<Rightarrow> lu_compl_vlr_state \<Rightarrow> fsm_timer" where
  "lu_compl_fsm_state_tdef is_ps s =
     (if s = LU_COMPL_VLR_S_WAIT_IMEI \<or> s = LU_COMPL_VLR_S_WAIT_IMEI_TMSI then TIMER_T (if is_ps then 3370 else 3270)
      else if s = LU_COMPL_VLR_S_WAIT_TMSI_CNF then TIMER_T (if is_ps then 3350 else 3250)
      else NO_TIMER)"

datatype vlr_lu_state =
    VLR_ULA_S_IDLE | VLR_ULA_S_WAIT_IMEISV | VLR_ULA_S_WAIT_PVLR | VLR_ULA_S_WAIT_AUTH | VLR_ULA_S_WAIT_CIPH
  | VLR_ULA_S_WAIT_IMSI | VLR_ULA_S_WAIT_HLR_CHECK_IMEI_EARLY | VLR_ULA_S_WAIT_HLR_UPD | VLR_ULA_S_WAIT_LU_COMPL
  | VLR_ULA_S_WAIT_LU_COMPL_STANDALONE | VLR_ULA_S_DONE

datatype vlr_lu_event =
    VLR_ULA_E_UPDATE_LA | VLR_ULA_E_SEND_ID_ACK | VLR_ULA_E_SEND_ID_NACK | VLR_ULA_E_AUTH_SUCCESS | VLR_ULA_E_AUTH_NO_INFO
  | VLR_ULA_E_AUTH_FAILURE | VLR_ULA_E_CIPH_RES | VLR_ULA_E_ID_IMSI | VLR_ULA_E_ID_IMEI | VLR_ULA_E_ID_IMEISV
  | VLR_ULA_E_HLR_IMEI_ACK | VLR_ULA_E_HLR_IMEI_NACK | VLR_ULA_E_HLR_LU_RES | VLR_ULA_E_UPD_HLR_COMPL
  | VLR_ULA_E_LU_COMPL_SUCCESS | VLR_ULA_E_LU_COMPL_FAILURE | VLR_ULA_E_NEW_TMSI_ACK

definition vlr_lu_fsm_states :: "vlr_lu_state \<Rightarrow> (vlr_lu_state, vlr_lu_event) fsm_state" where
  "vlr_lu_fsm_states s = (case s of
     VLR_ULA_S_IDLE \<Rightarrow>
       \<lparr>in_event_mask = [VLR_ULA_E_UPDATE_LA],
        out_state_mask = [VLR_ULA_S_WAIT_IMEISV, VLR_ULA_S_WAIT_PVLR, VLR_ULA_S_WAIT_IMSI, VLR_ULA_S_WAIT_AUTH, VLR_ULA_S_WAIT_CIPH,
          VLR_ULA_S_WAIT_HLR_CHECK_IMEI_EARLY, VLR_ULA_S_WAIT_HLR_UPD, VLR_ULA_S_DONE]\<rparr>
   | VLR_ULA_S_WAIT_IMEISV \<Rightarrow>
       \<lparr>in_event_mask = [VLR_ULA_E_ID_IMEISV],
        out_state_mask = [VLR_ULA_S_WAIT_PVLR, VLR_ULA_S_WAIT_IMSI, VLR_ULA_S_WAIT_AUTH, VLR_ULA_S_WAIT_CIPH,
          VLR_ULA_S_WAIT_HLR_CHECK_IMEI_EARLY, VLR_ULA_S_WAIT_HLR_UPD, VLR_ULA_S_DONE]\<rparr>
   | VLR_ULA_S_WAIT_PVLR \<Rightarrow>
       \<lparr>in_event_mask = [VLR_ULA_E_SEND_ID_ACK, VLR_ULA_E_SEND_ID_NACK],
        out_state_mask = [VLR_ULA_S_WAIT_IMSI, VLR_ULA_S_WAIT_AUTH, VLR_ULA_S_WAIT_CIPH, VLR_ULA_S_WAIT_HLR_CHECK_IMEI_EARLY,
          VLR_ULA_S_DONE]\<rparr>
   | VLR_ULA_S_WAIT_AUTH \<Rightarrow>
       \<lparr>in_event_mask = [VLR_ULA_E_AUTH_SUCCESS, VLR_ULA_E_AUTH_NO_INFO, VLR_ULA_E_AUTH_FAILURE],
        out_state_mask = [VLR_ULA_S_WAIT_CIPH, VLR_ULA_S_WAIT_LU_COMPL, VLR_ULA_S_WAIT_HLR_UPD, VLR_ULA_S_DONE]\<rparr>
   | VLR_ULA_S_WAIT_CIPH \<Rightarrow>
       \<lparr>in_event_mask = [VLR_ULA_E_CIPH_RES],
        out_state_mask = [VLR_ULA_S_WAIT_LU_COMPL, VLR_ULA_S_WAIT_HLR_UPD, VLR_ULA_S_DONE]\<rparr>
   | VLR_ULA_S_WAIT_IMSI \<Rightarrow>
       \<lparr>in_event_mask = [VLR_ULA_E_ID_IMSI],
        out_state_mask = [VLR_ULA_S_WAIT_AUTH, VLR_ULA_S_WAIT_CIPH, VLR_ULA_S_WAIT_HLR_CHECK_IMEI_EARLY, VLR_ULA_S_WAIT_HLR_UPD,
          VLR_ULA_S_DONE]\<rparr>
   | VLR_ULA_S_WAIT_HLR_CHECK_IMEI_EARLY \<Rightarrow>
       \<lparr>in_event_mask = [VLR_ULA_E_HLR_IMEI_ACK, VLR_ULA_E_HLR_IMEI_NACK],
        out_state_mask = [VLR_ULA_S_WAIT_AUTH, VLR_ULA_S_WAIT_CIPH, VLR_ULA_S_WAIT_HLR_UPD, VLR_ULA_S_WAIT_LU_COMPL, VLR_ULA_S_DONE]\<rparr>
   | VLR_ULA_S_WAIT_HLR_UPD \<Rightarrow>
       \<lparr>in_event_mask = [VLR_ULA_E_HLR_LU_RES, VLR_ULA_E_UPD_HLR_COMPL, VLR_ULA_E_ID_IMEI, VLR_ULA_E_ID_IMEISV],
        out_state_mask = [VLR_ULA_S_WAIT_LU_COMPL, VLR_ULA_S_WAIT_LU_COMPL_STANDALONE, VLR_ULA_S_DONE]\<rparr>
   | VLR_ULA_S_WAIT_LU_COMPL \<Rightarrow>
       \<lparr>in_event_mask = [VLR_ULA_E_LU_COMPL_SUCCESS, VLR_ULA_E_LU_COMPL_FAILURE, VLR_ULA_E_NEW_TMSI_ACK, VLR_ULA_E_ID_IMEI,
          VLR_ULA_E_ID_IMEISV, VLR_ULA_E_HLR_IMEI_ACK, VLR_ULA_E_HLR_IMEI_NACK],
        out_state_mask = [VLR_ULA_S_DONE]\<rparr>
   | VLR_ULA_S_WAIT_LU_COMPL_STANDALONE \<Rightarrow>
       \<lparr>in_event_mask = [VLR_ULA_E_LU_COMPL_SUCCESS, VLR_ULA_E_LU_COMPL_FAILURE, VLR_ULA_E_NEW_TMSI_ACK],
        out_state_mask = [VLR_ULA_S_DONE]\<rparr>
   | VLR_ULA_S_DONE \<Rightarrow> \<lparr>in_event_mask = [], out_state_mask = []\<rparr>)"

definition lu_fsm_state_tdef :: "bool \<Rightarrow> vlr_lu_state \<Rightarrow> fsm_timer" where
  "lu_fsm_state_tdef is_ps s =
     (if s \<in> {VLR_ULA_S_WAIT_IMEISV, VLR_ULA_S_WAIT_HLR_CHECK_IMEI_EARLY, VLR_ULA_S_WAIT_IMSI}
      then TIMER_T (if is_ps then 3370 else 3270) else NO_TIMER)"

abbreviation (input) LU_TIMEOUT_LONG :: nat where "LU_TIMEOUT_LONG \<equiv> 30"

text \<open>The number of a timer, 0 for one that was started without a number.\<close>

definition fsm_T :: "fsm_timer \<Rightarrow> nat" where
  "fsm_T t = (case t of TIMER_T n \<Rightarrow> n | _ \<Rightarrow> 0)"

subsection \<open>Libraries, configuration and environment\<close>

text \<open>
  \<open>lp_timeout\<close> is the data that libosmocore hands to the parent of an instance that ends because its timer
  of this number expired, read as the parents read it, as a reject cause; NULL is \<open>None\<close>.  \<open>lp_bcd_ok\<close> says
  whether \<open>gsm48_encode_bcd_number()\<close> encodes an IMEI; \<open>lp_bcd\<close> and \<open>lp_apn_str\<close> are what
  \<open>gsm48_decode_bcd_number2()\<close> and \<open>osmo_apn_to_str()\<close> leave in a buffer with this content.
\<close>

record 'h lu_par =
  lp_B :: "'h vlr_lib"
  lp_lu :: "(vlr_lu_state, vlr_lu_event) fsm_lib"
  lp_compl :: "(lu_compl_vlr_state, lu_compl_vlr_event) fsm_lib"
  lp_upd :: "(upd_hlr_vlr_state, upd_hlr_vlr_evt) fsm_lib"
  lp_pres :: "(sub_pres_vlr_state, sub_pres_vlr_event) fsm_lib"
  lp_auth :: auth_lib
  lp_sgs :: sgs_lib
  lp_timeout :: "nat \<Rightarrow> reject_value option"
  lp_bcd_ok :: "string \<Rightarrow> bool"
  lp_bcd :: "string \<Rightarrow> 8 word list \<Rightarrow> string"
  lp_apn_str :: "string \<Rightarrow> 8 word list \<Rightarrow> string"
  lp_cfg :: vlr_cfg
  lp_check_imei_rqd :: bool
  lp_retrieve_imeisv_early :: bool
  lp_retrieve_imeisv_ciphered :: bool

text \<open>The data of a termination by timeout is a pointer to the number of the timer, never NULL.\<close>

definition lu_laws :: "'h lu_par \<Rightarrow> bool" where
  "lu_laws P \<longleftrightarrow> fsm_laws (lp_lu P) \<and> fsm_laws (lp_compl P) \<and> fsm_laws (lp_upd P) \<and> fsm_laws (lp_pres P) \<and> fsm_laws (lp_auth P)
     \<and> fsm_laws (lp_sgs P) \<and> (\<forall>T. lp_timeout P T \<noteq> None)"

text \<open>
  What the environment decides during one call: the answer of \<open>set_ciph_mode()\<close>, whether allocating the two
  parts of an authentication machine and the instances of the other children succeeds, and the address
  of a new subscriber.
\<close>

record lu_env =
  le_sgs :: sgs_env
  le_ciph_rc :: int
  le_auth_fi_ok :: bool
  le_auth_priv_ok :: bool
  le_upd_ok :: bool
  le_compl_ok :: bool
  le_pres_ok :: bool
  le_new :: nat

subsection \<open>State\<close>

datatype lu_out =
    LO_TX_ID_REQ mi_type | LO_TX_LU_ACC "32 word" vlr_lu_type | LO_TX_LU_REJ reject_value vlr_lu_type
  | LO_SET_CIPH_MODE bool bool | LO_TX_COMMON_ID | LO_TX_MM_INFO | LO_TX_CHECK_IMEI string | LO_AUTH auth_out | LO_PARENT nat

text \<open>An instance of \<open>lu_compl_vlr_fsm\<close> with its \<open>struct lu_compl_vlr_priv\<close>.\<close>

record lu_compl =
  lc_state :: lu_compl_vlr_state
  lc_timer :: fsm_timer
  lc_vsub :: nat
  lc_result :: vlr_fsm_result
  lc_cause :: reject_value
  lc_assign_tmsi :: bool
  lc_lu_type :: vlr_lu_type
  lc_N :: nat

text \<open>
  The world of one location update.  \<open>lw_state\<close> to \<open>lw_parent_term_event\<close> are the instance, the fields
  up to \<open>lw_N\<close> its \<open>struct lu_fsm_priv\<close>, then follow its children, with state and timer.  The connection
  \<open>msc_conn_ref\<close> is named by its \<open>msub\<close>.
\<close>

record 'h lu_world =
  lw_msc :: "'h msc_world"
  lw_state :: vlr_lu_state
  lw_timer :: fsm_timer
  lw_terminating :: bool
  lw_parent_term_event :: nat
  lw_vsub :: "nat option"
  lw_msc_conn_ref :: nat
  lw_event_success :: nat
  lw_event_failure :: nat
  lw_result :: vlr_fsm_result
  lw_rej_cause :: reject_value
  lw_lu_type :: vlr_lu_type
  lw_lu_by_tmsi :: bool
  lw_imsi :: string
  lw_tmsi :: "32 word"
  lw_new_lai :: location_area_id
  lw_authentication_required :: bool
  lw_is_ciphering_to_be_attempted :: bool
  lw_is_ciphering_required :: bool
  lw_key_seq :: "8 word"
  lw_is_r99 :: bool
  lw_is_utran :: bool
  lw_assign_tmsi :: bool
  lw_N :: nat
  lw_auth :: "auth_fi option"
  lw_upd :: "(upd_hlr_vlr_state \<times> fsm_timer) option"
  lw_compl :: "lu_compl option"
  lw_pres :: "(sub_pres_vlr_state \<times> fsm_timer) option"
  lw_out :: "lu_out list"

definition lu_emit :: "lu_out \<Rightarrow> 'h lu_world \<Rightarrow> 'h lu_world" where
  "lu_emit x w = w\<lparr>lw_out := lw_out w @ [x]\<rparr>"

definition on_net :: "('h gsm_network \<Rightarrow> 'h gsm_network option) \<Rightarrow> 'h lu_world \<Rightarrow> 'h lu_world option" where
  "on_net f w = map_option (\<lambda>n. w\<lparr>lw_msc := (lw_msc w)\<lparr>mw_net := n\<rparr>\<rparr>) (f (mw_net (lw_msc w)))"

abbreviation on_vlr :: "('h vlr \<Rightarrow> 'h vlr option) \<Rightarrow> 'h lu_world \<Rightarrow> 'h lu_world option" where
  "on_vlr f \<equiv> on_net (with_vlr f)"

abbreviation lw_net :: "'h lu_world \<Rightarrow> 'h gsm_network" where
  "lw_net w \<equiv> mw_net (lw_msc w)"

abbreviation lsub_get :: "nat \<Rightarrow> 'h lu_world \<Rightarrow> vlr_subscr option" where
  "lsub_get a w \<equiv> nsub_get a (lw_net w)"

abbreviation lsub_upd :: "nat \<Rightarrow> (vlr_subscr \<Rightarrow> vlr_subscr) \<Rightarrow> 'h lu_world \<Rightarrow> 'h lu_world option" where
  "lsub_upd a f \<equiv> on_net (nsub_upd a f)"

subsection \<open>The end of the machine\<close>

definition fsm_lu_cleanup :: "'h lu_world \<Rightarrow> 'h lu_world option" where
  "fsm_lu_cleanup w =
     (case lw_vsub w of None \<Rightarrow> Some w | Some a \<Rightarrow> lsub_upd a (\<lambda>s. s\<lparr>vs_lu_fsm := False\<rparr>) w)"

text \<open>
  \<open>osmo_fsm_inst_term()\<close>: the children end without an event to this machine, of which only the authentication has a
  cleanup function, then follow the cleanup function and the event to the parent.  From the association with a
  subscriber to its end this machine is the one that \<open>lu_fsm\<close> of the subscriber points to, since another location
  update of the subscriber first cancels it.
\<close>

definition lu_inst_term :: "'h lu_par \<Rightarrow> 'h lu_world \<Rightarrow> 'h lu_world option" where
  "lu_inst_term P w =
     (if term_allowed (lp_lu P) (lw_terminating w) then do {
        w1 \<leftarrow> (if lw_auth w = None then Some w
               else do { a \<leftarrow> lw_vsub w; lsub_upd a (\<lambda>s. s\<lparr>vs_auth_fsm := False\<rparr>) w });
        w2 \<leftarrow> fsm_lu_cleanup (w1\<lparr>lw_terminating := True, lw_timer := NO_TIMER, lw_auth := None, lw_upd := None,
                                 lw_compl := None, lw_pres := None\<rparr>);
        Some (lu_emit (LO_PARENT (lw_parent_term_event w2)) w2) }
      else Some w)"

definition lu_fsm_dispatch_result :: "'h lu_par \<Rightarrow> 'h lu_world \<Rightarrow> 'h lu_world option" where
  "lu_fsm_dispatch_result P w =
     lu_inst_term P (w\<lparr>lw_parent_term_event :=
       (if lw_result w = VLR_FSM_RESULT_SUCCESS then lw_event_success w else lw_event_failure w)\<rparr>)"

definition lu_fsm_wait_imsi_onenter :: "'h lu_world \<Rightarrow> 'h lu_world" where
  "lu_fsm_wait_imsi_onenter w = w\<lparr>lw_N := 0\<rparr>"

text \<open>\<open>osmo_fsm_inst_state_chg()\<close> with the \<open>onenter\<close> functions of the table.\<close>

definition lu_state_chg :: "'h lu_par \<Rightarrow> vlr_lu_state \<Rightarrow> fsm_timer \<Rightarrow> 'h lu_world \<Rightarrow> 'h lu_world option" where
  "lu_state_chg P s t w =
     (if chg_allowed (lp_lu P) (out_state_mask (vlr_lu_fsm_states (lw_state w))) (lw_terminating w) s then
        let w1 = w\<lparr>lw_state := s, lw_timer := t\<rparr> in
        if s = VLR_ULA_S_DONE then lu_fsm_dispatch_result P w1
        else if s = VLR_ULA_S_WAIT_IMSI then Some (lu_fsm_wait_imsi_onenter w1)
        else Some w1
      else Some w)"

abbreviation lu_chg_long :: "'h lu_par \<Rightarrow> vlr_lu_state \<Rightarrow> 'h lu_world \<Rightarrow> 'h lu_world option" where
  "lu_chg_long P s \<equiv> lu_state_chg P s (TIMER_SECS LU_TIMEOUT_LONG)"

abbreviation lu_chg_tdef :: "'h lu_par \<Rightarrow> vlr_lu_state \<Rightarrow> 'h lu_world \<Rightarrow> 'h lu_world option" where
  "lu_chg_tdef P s \<equiv> lu_state_chg P s (lu_fsm_state_tdef (cfg_is_ps (lp_cfg P)) s)"

definition lu_fsm_done :: "'h lu_par \<Rightarrow> vlr_fsm_result \<Rightarrow> 'h lu_world \<Rightarrow> 'h lu_world option" where
  "lu_fsm_done P r w = lu_state_chg P VLR_ULA_S_DONE NO_TIMER (w\<lparr>lw_result := r\<rparr>)"

definition lu_fsm_success :: "'h lu_par \<Rightarrow> 'h lu_world \<Rightarrow> 'h lu_world option" where
  "lu_fsm_success P = lu_fsm_done P VLR_FSM_RESULT_SUCCESS"

definition lu_fsm_failure :: "'h lu_par \<Rightarrow> reject_value \<Rightarrow> 'h lu_world \<Rightarrow> 'h lu_world option" where
  "lu_fsm_failure P c w =
     lu_fsm_done P VLR_FSM_RESULT_FAILURE
       (lu_emit (LO_TX_LU_REJ (if c = GSM48_REJECT_OTHER 0 then GSM48_REJECT_NETWORK_FAILURE else c) (lw_lu_type w)) w)"

definition lu_ev :: "'h lu_par \<Rightarrow> vlr_lu_event \<Rightarrow> 'h lu_world \<Rightarrow> bool" where
  "lu_ev P e w = ev_allowed (lp_lu P) (in_event_mask (vlr_lu_fsm_states (lw_state w))) (lw_terminating w) e"

subsection \<open>Completion of the location update\<close>

text \<open>Terminating the completion ends the presence machine, its child.\<close>

definition lu_fsm_discard_lu_compl_fsm :: "'h lu_world \<Rightarrow> 'h lu_world" where
  "lu_fsm_discard_lu_compl_fsm w = w\<lparr>lw_compl := None, lw_pres := None\<rparr>"

text \<open>
  The events \<open>VLR_ULA_E_LU_COMPL_SUCCESS\<close> and \<open>VLR_ULA_E_LU_COMPL_FAILURE\<close> in \<open>lu_fsm_wait_lu_compl()\<close> and
  \<open>lu_fsm_wait_lu_compl_standalone()\<close>.
\<close>

definition lu_compl_success :: "'h lu_par \<Rightarrow> 'h lu_world \<Rightarrow> 'h lu_world option" where
  "lu_compl_success P w =
     (if \<not> lu_ev P VLR_ULA_E_LU_COMPL_SUCCESS w then Some w
      else if lw_state w = VLR_ULA_S_WAIT_LU_COMPL then
        lu_fsm_success P (let w1 = lu_fsm_discard_lu_compl_fsm w
                          in if lw_lu_type w1 = VLR_LU_TYPE_IMSI_ATTACH then lu_emit LO_TX_MM_INFO w1 else w1)
      else do {
        a \<leftarrow> lw_vsub w;
        w1 \<leftarrow> lsub_upd a (\<lambda>s. s\<lparr>vs_sub_dataconf := False\<rparr>) (lu_fsm_discard_lu_compl_fsm w);
        lu_fsm_success P w1 })"

definition lu_compl_failure :: "'h lu_par \<Rightarrow> reject_value option \<Rightarrow> 'h lu_world \<Rightarrow> 'h lu_world option" where
  "lu_compl_failure P data w =
     (let cause = (case data of None \<Rightarrow> GSM48_REJECT_NETWORK_FAILURE | Some c \<Rightarrow> c) in
      if \<not> lu_ev P VLR_ULA_E_LU_COMPL_FAILURE w then Some w
      else if lw_state w = VLR_ULA_S_WAIT_LU_COMPL then lu_fsm_failure P cause (lu_fsm_discard_lu_compl_fsm w)
      else do {
        a \<leftarrow> lw_vsub w;
        w1 \<leftarrow> lsub_upd a (\<lambda>s. s\<lparr>vs_sub_dataconf := False\<rparr>) w;
        lu_fsm_failure P cause (lu_fsm_discard_lu_compl_fsm w1) })"

text \<open>
  \<open>osmo_fsm_inst_state_chg()\<close> of the completion; entering \<open>LU_COMPL_VLR_S_DONE\<close> is
  \<open>vlr_lu_compl_fsm_dispatch_result()\<close>, entering a waiting state \<open>vlr_lu_compl_fsm_reset_n()\<close>.
\<close>

definition vlr_lu_compl_fsm_dispatch_result :: "'h lu_par \<Rightarrow> lu_compl \<Rightarrow> 'h lu_world \<Rightarrow> 'h lu_world option" where
  "vlr_lu_compl_fsm_dispatch_result P c w =
     (if lc_result c = VLR_FSM_RESULT_SUCCESS then lu_compl_success P w else lu_compl_failure P (Some (lc_cause c)) w)"

definition vlr_lu_compl_fsm_reset_n :: "lu_compl \<Rightarrow> lu_compl" where
  "vlr_lu_compl_fsm_reset_n c = c\<lparr>lc_N := 0\<rparr>"

definition compl_state_chg :: "'h lu_par \<Rightarrow> lu_compl_vlr_state \<Rightarrow> fsm_timer \<Rightarrow> 'h lu_world \<Rightarrow> 'h lu_world option" where
  "compl_state_chg P s t w = do {
     c \<leftarrow> lw_compl w;
     if chg_allowed (lp_compl P) (out_state_mask (lu_compl_vlr_states (lc_state c))) False s then
       let c1 = c\<lparr>lc_state := s, lc_timer := t\<rparr> in
       if s = LU_COMPL_VLR_S_DONE then vlr_lu_compl_fsm_dispatch_result P c1 (w\<lparr>lw_compl := Some c1\<rparr>)
       else Some (w\<lparr>lw_compl := Some (if s = LU_COMPL_VLR_S_WAIT_SUB_PRES then c1 else vlr_lu_compl_fsm_reset_n c1)\<rparr>)
     else Some w }"

definition vlr_lu_compl_fsm_done ::
    "'h lu_par \<Rightarrow> vlr_fsm_result \<Rightarrow> reject_value \<Rightarrow> 'h lu_world \<Rightarrow> 'h lu_world option" where
  "vlr_lu_compl_fsm_done P r cause w = do {
     c \<leftarrow> lw_compl w;
     compl_state_chg P LU_COMPL_VLR_S_DONE NO_TIMER (w\<lparr>lw_compl := Some (c\<lparr>lc_result := r, lc_cause := cause\<rparr>)\<rparr>) }"

text \<open>The call of \<open>vlr_sgs_fsm_update_id()\<close> at the end only changes the name of an instance in the log.\<close>

definition vlr_lu_compl_fsm_success :: "'h lu_par \<Rightarrow> 'h lu_world \<Rightarrow> 'h lu_world option" where
  "vlr_lu_compl_fsm_success P w = do {
     c \<leftarrow> lw_compl w;
     s \<leftarrow> lsub_get (lc_vsub c) w;
     w1 \<leftarrow> (if \<not> vs_lu_complete s then do {
              w' \<leftarrow> on_vlr (vlr_subscr_set_lu_complete (lc_vsub c) True) w;
              on_vlr (vlr_subscr_get (lp_B P) (lc_vsub c) VSUB_USE_ATTACHED) w' }
            else Some w);
     vlr_lu_compl_fsm_done P VLR_FSM_RESULT_SUCCESS (GSM48_REJECT_OTHER 0) w1 }"

definition lu_compl_vlr_new_tmsi :: "'h lu_par \<Rightarrow> lu_env \<Rightarrow> 'h lu_world \<Rightarrow> 'h lu_world option" where
  "lu_compl_vlr_new_tmsi P E w = do {
     c \<leftarrow> lw_compl w;
     let V = le_sgs E;
     (v, rc) \<leftarrow> vlr_subscr_alloc_tmsi (lp_B P) (cfg_is_ps (lp_cfg P)) (se_nri V) (se_rnd V) (lc_vsub c) (net_vlr (lw_net w));
     w1 \<leftarrow> on_vlr (\<lambda>_. Some v) w;
     if rc \<noteq> 0 then vlr_lu_compl_fsm_done P VLR_FSM_RESULT_FAILURE GSM48_REJECT_SRV_OPT_TMP_OUT_OF_ORDER w1
     else do {
       w2 \<leftarrow> compl_state_chg P LU_COMPL_VLR_S_WAIT_TMSI_CNF
               (lu_compl_fsm_state_tdef (cfg_is_ps (lp_cfg P)) LU_COMPL_VLR_S_WAIT_TMSI_CNF) w1;
       s \<leftarrow> lsub_get (lc_vsub c) w2;
       Some (lu_emit (LO_TX_LU_ACC (vs_tmsi_new s) (lc_lu_type c)) w2) } }"

text \<open>The end that \<open>lu_compl_vlr_wait_subscr_pres()\<close> and \<open>lu_compl_vlr_wait_imei()\<close> share.\<close>

definition lu_compl_accept :: "'h lu_par \<Rightarrow> lu_env \<Rightarrow> 'h lu_world \<Rightarrow> 'h lu_world option" where
  "lu_compl_accept P E w = do {
     c \<leftarrow> lw_compl w;
     if lc_assign_tmsi c then lu_compl_vlr_new_tmsi P E w
     else do {
       w1 \<leftarrow> lsub_upd (lc_vsub c) (\<lambda>s. s\<lparr>vs_tmsi := GSM_RESERVED_TMSI\<rparr>) w;
       w2 \<leftarrow> on_vlr (vlr_subscr_rehash_tmsi (lp_B P) (lc_vsub c)) w1;
       vlr_lu_compl_fsm_success P (lu_emit (LO_TX_LU_ACC GSM_RESERVED_TMSI (lc_lu_type c)) w2) } }"

definition lu_compl_vlr_wait_subscr_pres :: "'h lu_par \<Rightarrow> lu_env \<Rightarrow> 'h lu_world \<Rightarrow> 'h lu_world option" where
  "lu_compl_vlr_wait_subscr_pres P E w = do {
     c \<leftarrow> lw_compl w;
     if lp_check_imei_rqd P \<and> \<not> lp_retrieve_imeisv_early P then do {
       let st = (if lc_assign_tmsi c then LU_COMPL_VLR_S_WAIT_IMEI_TMSI else LU_COMPL_VLR_S_WAIT_IMEI);
       w1 \<leftarrow> compl_state_chg P st (lu_compl_fsm_state_tdef (cfg_is_ps (lp_cfg P)) st) w;
       Some (lu_emit (LO_TX_ID_REQ GSM_MI_TYPE_IMEI) w1) }
     else lu_compl_accept P E w }"

definition lu_compl_vlr_wait_imei :: "'h lu_par \<Rightarrow> lu_env \<Rightarrow> lu_compl_vlr_event \<Rightarrow> 'h lu_world \<Rightarrow> 'h lu_world option" where
  "lu_compl_vlr_wait_imei P E ev w = do {
     c \<leftarrow> lw_compl w;
     s \<leftarrow> lsub_get (lc_vsub c) w;
     if ev = LU_COMPL_VLR_E_IMEI_CHECK_ACK \<and> vs_imei s = [] then
       vlr_lu_compl_fsm_done P VLR_FSM_RESULT_FAILURE GSM48_REJECT_PROTOCOL_ERROR w
     else if ev = LU_COMPL_VLR_E_IMEI_CHECK_NACK then
       vlr_lu_compl_fsm_done P VLR_FSM_RESULT_FAILURE GSM48_REJECT_ILLEGAL_ME w
     else lu_compl_accept P E w }"

definition lu_compl_vlr_wait_tmsi :: "'h lu_par \<Rightarrow> 'h lu_world \<Rightarrow> 'h lu_world option" where
  "lu_compl_vlr_wait_tmsi P w = do {
     c \<leftarrow> lw_compl w;
     let a = lc_vsub c;
     s \<leftarrow> lsub_get a w;
     if vs_tmsi_new s = GSM_RESERVED_TMSI then
       vlr_lu_compl_fsm_done P VLR_FSM_RESULT_FAILURE GSM48_REJECT_NETWORK_FAILURE w
     else do {
       w1 \<leftarrow> lsub_upd a (\<lambda>s. s\<lparr>vs_tmsi := vs_tmsi_new s, vs_tmsi_new := GSM_RESERVED_TMSI\<rparr>) w;
       w2 \<leftarrow> on_vlr (vlr_subscr_rehash_tmsi (lp_B P) a) w1;
       w3 \<leftarrow> on_vlr (\<lambda>v. Some (v_emit (OPS_SUBSCR_UPDATE a) v)) w2;
       vlr_lu_compl_fsm_success P w3 } }"

text \<open>
  \<open>osmo_fsm_inst_dispatch()\<close> on the completion, for the events of a completion that has been started.  The library
  refuses an event for a NULL instance.
\<close>

definition compl_dispatch :: "'h lu_par \<Rightarrow> lu_env \<Rightarrow> lu_compl_vlr_event \<Rightarrow> 'h lu_world \<Rightarrow> 'h lu_world option" where
  "compl_dispatch P E ev w =
     (case lw_compl w of
        None \<Rightarrow> Some w
      | Some c \<Rightarrow>
          if \<not> ev_allowed (lp_compl P) (in_event_mask (lu_compl_vlr_states (lc_state c))) False ev then Some w
          else (case lc_state c of
             LU_COMPL_VLR_S_WAIT_SUB_PRES \<Rightarrow>
               if ev = LU_COMPL_VLR_E_SUB_PRES_COMPL then lu_compl_vlr_wait_subscr_pres P E (w\<lparr>lw_pres := None\<rparr>) else None
           | LU_COMPL_VLR_S_WAIT_IMEI \<Rightarrow> lu_compl_vlr_wait_imei P E ev w
           | LU_COMPL_VLR_S_WAIT_IMEI_TMSI \<Rightarrow> lu_compl_vlr_wait_imei P E ev w
           | LU_COMPL_VLR_S_WAIT_TMSI_CNF \<Rightarrow> if ev = LU_COMPL_VLR_E_NEW_TMSI_ACK then lu_compl_vlr_wait_tmsi P w else None
           | _ \<Rightarrow> Some w))"

text \<open>
  The presence machine: it ends with an event to the completion.  Only a subscriber marked as not reachable gets one.
\<close>

definition pres_inst_term :: "'h lu_par \<Rightarrow> lu_env \<Rightarrow> 'h lu_world \<Rightarrow> 'h lu_world option" where
  "pres_inst_term P E w = compl_dispatch P E LU_COMPL_VLR_E_SUB_PRES_COMPL (w\<lparr>lw_pres := None\<rparr>)"

definition pres_state_chg :: "'h lu_par \<Rightarrow> sub_pres_vlr_state \<Rightarrow> fsm_timer \<Rightarrow> 'h lu_world \<Rightarrow> 'h lu_world" where
  "pres_state_chg P s t w =
     (case lw_pres w of
        Some (st, _) \<Rightarrow> if chg_allowed (lp_pres P) (out_state_mask (sub_pres_vlr_states st)) False s
                        then w\<lparr>lw_pres := Some (s, t)\<rparr> else w
      | None \<Rightarrow> w)"

definition sub_pres_vlr_fsm_init :: "'h lu_par \<Rightarrow> lu_env \<Rightarrow> nat \<Rightarrow> 'h lu_world \<Rightarrow> 'h lu_world option" where
  "sub_pres_vlr_fsm_init P E a w = do {
     s \<leftarrow> lsub_get a w;
     if \<not> vs_ms_not_reachable s then pres_inst_term P E (pres_state_chg P SUB_PRES_VLR_S_DONE NO_TIMER w)
     else Some (pres_state_chg P SUB_PRES_VLR_S_WAIT_FOR_HLR (TIMER_SECS LU_TIMEOUT_LONG) w) }"

definition sub_pres_vlr_fsm_wait_hlr ::
    "'h lu_par \<Rightarrow> lu_env \<Rightarrow> nat \<Rightarrow> sub_pres_vlr_event \<Rightarrow> 'h lu_world \<Rightarrow> 'h lu_world option" where
  "sub_pres_vlr_fsm_wait_hlr P E a ev w = do {
     w1 \<leftarrow> (if ev = SUB_PRES_VLR_E_READY_SM_CNF then lsub_upd a (\<lambda>s. s\<lparr>vs_ms_not_reachable := False\<rparr>) w else Some w);
     pres_inst_term P E (pres_state_chg P SUB_PRES_VLR_S_DONE NO_TIMER w1) }"

definition pres_dispatch :: "'h lu_par \<Rightarrow> lu_env \<Rightarrow> nat \<Rightarrow> sub_pres_vlr_event \<Rightarrow> 'h lu_world \<Rightarrow> 'h lu_world option" where
  "pres_dispatch P E a ev w =
     (case lw_pres w of
        None \<Rightarrow> Some w
      | Some (st, _) \<Rightarrow>
          if \<not> ev_allowed (lp_pres P) (in_event_mask (sub_pres_vlr_states st)) False ev then Some w
          else (case st of
             SUB_PRES_VLR_S_INIT \<Rightarrow> if ev = SUB_PRES_VLR_E_START then sub_pres_vlr_fsm_init P E a w else None
           | SUB_PRES_VLR_S_WAIT_FOR_HLR \<Rightarrow> sub_pres_vlr_fsm_wait_hlr P E a ev w
           | SUB_PRES_VLR_S_DONE \<Rightarrow> Some w))"

definition sub_pres_vlr_fsm_start :: "'h lu_par \<Rightarrow> lu_env \<Rightarrow> nat \<Rightarrow> 'h lu_world \<Rightarrow> 'h lu_world option" where
  "sub_pres_vlr_fsm_start P E a w =
     (if \<not> le_pres_ok E then Some (w\<lparr>lw_pres := None\<rparr>)
      else pres_dispatch P E a SUB_PRES_VLR_E_START (w\<lparr>lw_pres := Some (SUB_PRES_VLR_S_INIT, NO_TIMER)\<rparr>))"

definition lu_compl_vlr_init :: "'h lu_par \<Rightarrow> lu_env \<Rightarrow> 'h lu_world \<Rightarrow> 'h lu_world option" where
  "lu_compl_vlr_init P E w = do {
     c \<leftarrow> lw_compl w;
     let a = lc_vsub c;
     w1 \<leftarrow> lsub_upd a (\<lambda>s. s\<lparr>vs_la_allowed := True, vs_imsi_detached := False\<rparr>) (w\<lparr>lw_compl := Some (c\<lparr>lc_N := 0\<rparr>)\<rparr>);
     w2 \<leftarrow> compl_state_chg P LU_COMPL_VLR_S_WAIT_SUB_PRES (TIMER_SECS LU_TIMEOUT_LONG) w1;
     s \<leftarrow> lsub_get a w2;
     if vs_ms_not_reachable s then sub_pres_vlr_fsm_start P E a w2
     else compl_dispatch P E LU_COMPL_VLR_E_SUB_PRES_COMPL w2 }"

definition lu_compl_vlr_proc_alloc :: "nat \<Rightarrow> bool \<Rightarrow> vlr_lu_type \<Rightarrow> lu_compl" where
  "lu_compl_vlr_proc_alloc a assign_tmsi type =
     \<lparr>lc_state = LU_COMPL_VLR_S_INIT, lc_timer = NO_TIMER, lc_vsub = a, lc_result = VLR_FSM_RESULT_NONE,
      lc_cause = GSM48_REJECT_OTHER 0, lc_assign_tmsi = assign_tmsi, lc_lu_type = type, lc_N = 0\<rparr>"

definition vlr_loc_upd_start_lu_compl_fsm :: "'h lu_par \<Rightarrow> lu_env \<Rightarrow> 'h lu_world \<Rightarrow> 'h lu_world option" where
  "vlr_loc_upd_start_lu_compl_fsm P E w = do {
     a \<leftarrow> lw_vsub w;
     if \<not> le_compl_ok E then Some (w\<lparr>lw_compl := None\<rparr>)
     else do {
       let c = lu_compl_vlr_proc_alloc a (lw_assign_tmsi w) (lw_lu_type w);
       let w1 = w\<lparr>lw_compl := Some c\<rparr>;
       if ev_allowed (lp_compl P) (in_event_mask (lu_compl_vlr_states (lc_state c))) False LU_COMPL_VLR_E_START
       then lu_compl_vlr_init P E w1 else Some w1 } }"

text \<open>\<open>lu_compl_vlr_timeout()\<close> with the termination by the library after it returned 1.\<close>

definition compl_inst_term_timeout :: "'h lu_par \<Rightarrow> lu_compl \<Rightarrow> 'h lu_world \<Rightarrow> 'h lu_world option" where
  "compl_inst_term_timeout P c w =
     lu_compl_failure P (lp_timeout P (fsm_T (lc_timer c))) (w\<lparr>lw_compl := None, lw_pres := None\<rparr>)"

definition lu_compl_vlr_timeout :: "'h lu_par \<Rightarrow> 'h lu_world \<Rightarrow> 'h lu_world option" where
  "lu_compl_vlr_timeout P w =
     (case lw_compl w of
        None \<Rightarrow> Some w
      | Some c \<Rightarrow>
          if lc_timer c = NO_TIMER then Some w
          else if \<not> cfg_is_ps (lp_cfg P) then compl_inst_term_timeout P c w
          else if lc_N c + 1 \<ge> 5 then compl_inst_term_timeout P c w
          else do {
            s \<leftarrow> lsub_get (lc_vsub c) w;
            let w1 = w\<lparr>lw_compl := Some (c\<lparr>lc_N := lc_N c + 1\<rparr>)\<rparr>;
            (case lc_state c of
               LU_COMPL_VLR_S_WAIT_IMEI \<Rightarrow> Some (lu_emit (LO_TX_ID_REQ GSM_MI_TYPE_IMEI) w1)
             | LU_COMPL_VLR_S_WAIT_IMEI_TMSI \<Rightarrow> Some (lu_emit (LO_TX_ID_REQ GSM_MI_TYPE_IMEI) w1)
             | LU_COMPL_VLR_S_WAIT_TMSI_CNF \<Rightarrow> Some (lu_emit (LO_TX_LU_ACC (vs_tmsi_new s) (lc_lu_type c)) w1)
             | _ \<Rightarrow> None) })"

subsection \<open>Update of the HLR\<close>

text \<open>The event \<open>VLR_ULA_E_UPD_HLR_COMPL\<close> in \<open>lu_fsm_wait_hlr_ul_res()\<close>, the only state that accepts it.\<close>

definition lu_upd_hlr_compl :: "'h lu_par \<Rightarrow> lu_env \<Rightarrow> reject_value option \<Rightarrow> 'h lu_world \<Rightarrow> 'h lu_world option" where
  "lu_upd_hlr_compl P E data w =
     (if \<not> lu_ev P VLR_ULA_E_UPD_HLR_COMPL w then Some w
      else (case data of
         None \<Rightarrow> do {
           w1 \<leftarrow> lu_chg_long P VLR_ULA_S_WAIT_LU_COMPL w;
           vlr_loc_upd_start_lu_compl_fsm P E w1 }
       | Some cause \<Rightarrow> lu_fsm_failure P cause w))"

definition upd_state_chg :: "'h lu_par \<Rightarrow> upd_hlr_vlr_state \<Rightarrow> fsm_timer \<Rightarrow> 'h lu_world \<Rightarrow> 'h lu_world" where
  "upd_state_chg P s t w =
     (case lw_upd w of
        Some (st, _) \<Rightarrow> if chg_allowed (lp_upd P) (out_state_mask (upd_hlr_vlr_states st)) False s
                        then w\<lparr>lw_upd := Some (s, t)\<rparr> else w
      | None \<Rightarrow> w)"

definition upd_inst_term :: "'h lu_par \<Rightarrow> lu_env \<Rightarrow> reject_value option \<Rightarrow> 'h lu_world \<Rightarrow> 'h lu_world option" where
  "upd_inst_term P E data w = lu_upd_hlr_compl P E data (w\<lparr>lw_upd := None\<rparr>)"

definition upd_hlr_vlr_fsm_init :: "'h lu_par \<Rightarrow> nat \<Rightarrow> 'h lu_world \<Rightarrow> 'h lu_world option" where
  "upd_hlr_vlr_fsm_init P a w = do {
     w1 \<leftarrow> on_net (\<lambda>n. Some (vlr_subscr_req_lu a n)) w;
     Some (upd_state_chg P UPD_HLR_VLR_S_WAIT_FOR_DATA (TIMER_SECS LU_TIMEOUT_LONG) w1) }"

text \<open>\<open>cause\<close> is the data of \<open>UPD_HLR_VLR_E_UPD_LOC_NACK\<close>; the other events have none.\<close>

definition upd_hlr_vlr_fsm_wait_data ::
    "'h lu_par \<Rightarrow> lu_env \<Rightarrow> nat \<Rightarrow> upd_hlr_vlr_evt \<Rightarrow> reject_value option \<Rightarrow> 'h lu_world \<Rightarrow> 'h lu_world option" where
  "upd_hlr_vlr_fsm_wait_data P E a ev cause w =
     (case ev of
        UPD_HLR_VLR_E_UPD_LOC_ACK \<Rightarrow> do {
          w1 \<leftarrow> lsub_upd a (\<lambda>s. s\<lparr>vs_sub_dataconf := True, vs_loc_conf := True\<rparr>) w;
          upd_inst_term P E None (upd_state_chg P UPD_HLR_VLR_S_DONE NO_TIMER w1) }
      | UPD_HLR_VLR_E_UPD_LOC_NACK \<Rightarrow> do {
          w1 \<leftarrow> lsub_upd a (\<lambda>s. s\<lparr>vs_sub_dataconf := False, vs_loc_conf := False\<rparr>) w;
          upd_inst_term P E cause (upd_state_chg P UPD_HLR_VLR_S_DONE NO_TIMER w1) }
      | _ \<Rightarrow> Some w)"

definition upd_dispatch ::
    "'h lu_par \<Rightarrow> lu_env \<Rightarrow> nat \<Rightarrow> upd_hlr_vlr_evt \<Rightarrow> reject_value option \<Rightarrow> 'h lu_world \<Rightarrow> 'h lu_world option" where
  "upd_dispatch P E a ev cause w =
     (case lw_upd w of
        None \<Rightarrow> Some w
      | Some (st, _) \<Rightarrow>
          if \<not> ev_allowed (lp_upd P) (in_event_mask (upd_hlr_vlr_states st)) False ev then Some w
          else (case st of
             UPD_HLR_VLR_S_INIT \<Rightarrow> if ev = UPD_HLR_VLR_E_START then upd_hlr_vlr_fsm_init P a w else None
           | UPD_HLR_VLR_S_WAIT_FOR_DATA \<Rightarrow> upd_hlr_vlr_fsm_wait_data P E a ev cause w
           | UPD_HLR_VLR_S_DONE \<Rightarrow> Some w))"

definition upd_hlr_vlr_proc_start :: "'h lu_par \<Rightarrow> lu_env \<Rightarrow> nat \<Rightarrow> 'h lu_world \<Rightarrow> 'h lu_world option" where
  "upd_hlr_vlr_proc_start P E a w =
     (if \<not> le_upd_ok E then Some (w\<lparr>lw_upd := None\<rparr>)
      else upd_dispatch P E a UPD_HLR_VLR_E_START None (w\<lparr>lw_upd := Some (UPD_HLR_VLR_S_INIT, NO_TIMER)\<rparr>))"

text \<open>The expiry of its timer; the machine has no function for it.\<close>

definition upd_hlr_vlr_timeout :: "'h lu_par \<Rightarrow> lu_env \<Rightarrow> 'h lu_world \<Rightarrow> 'h lu_world option" where
  "upd_hlr_vlr_timeout P E w =
     (case lw_upd w of
        None \<Rightarrow> Some w
      | Some (st, t) \<Rightarrow> if t = NO_TIMER then Some w else upd_inst_term P E (lp_timeout P (fsm_T t)) w)"

definition sub_pres_vlr_timeout :: "'h lu_par \<Rightarrow> lu_env \<Rightarrow> 'h lu_world \<Rightarrow> 'h lu_world option" where
  "sub_pres_vlr_timeout P E w =
     (case lw_pres w of
        None \<Rightarrow> Some w
      | Some (st, t) \<Rightarrow> if t = NO_TIMER then Some w else pres_inst_term P E w)"

subsection \<open>Ciphering and authentication\<close>

text \<open>In \<open>vlr_loc_upd_node_4()\<close> the HLR is always taken to be known.\<close>

definition vlr_loc_upd_node_4 :: "'h lu_par \<Rightarrow> lu_env \<Rightarrow> 'h lu_world \<Rightarrow> 'h lu_world option" where
  "vlr_loc_upd_node_4 P E w = do {
     a \<leftarrow> lw_vsub w;
     w1 \<leftarrow> lu_chg_long P VLR_ULA_S_WAIT_HLR_UPD w;
     upd_hlr_vlr_proc_start P E a w1 }"

definition vlr_loc_upd_node_b :: "'h lu_par \<Rightarrow> lu_env \<Rightarrow> 'h lu_world \<Rightarrow> 'h lu_world option" where
  "vlr_loc_upd_node_b P E w = do {
     w1 \<leftarrow> lu_chg_long P VLR_ULA_S_WAIT_LU_COMPL w;
     vlr_loc_upd_start_lu_compl_fsm P E w1 }"

definition hlr_update_needed :: "nat \<Rightarrow> bool" where
  "hlr_update_needed a = True"

definition vlr_loc_upd_post_ciph :: "'h lu_par \<Rightarrow> lu_env \<Rightarrow> 'h lu_world \<Rightarrow> 'h lu_world option" where
  "vlr_loc_upd_post_ciph P E w = do {
     a \<leftarrow> lw_vsub w;
     w1 \<leftarrow> lsub_upd a (\<lambda>s. s\<lparr>vs_conf_by_radio := True, vs_lai := lw_new_lai w, vs_dormant := False, vs_cancel_loc_rx := False\<rparr>)
             (lu_emit LO_TX_COMMON_ID w);
     if hlr_update_needed a then vlr_loc_upd_node_4 P E w1 else vlr_loc_upd_node_b P E w1 }"

definition is_cmc_smc_to_be_attempted :: "'h lu_world \<Rightarrow> bool" where
  "is_cmc_smc_to_be_attempted w \<longleftrightarrow> lw_is_utran w \<or> lw_is_ciphering_to_be_attempted w"

text \<open>\<open>vlr_set_ciph_mode()\<close> of \<open>vlr.c\<close>\<close>

definition vlr_set_ciph_mode :: "lu_env \<Rightarrow> vlr_sec_ctx \<Rightarrow> bool \<Rightarrow> 'h lu_world \<Rightarrow> 'h lu_world \<times> int" where
  "vlr_set_ciph_mode E sec_ctx retrieve_imeisv w =
     (case sec_ctx of
        VLR_SEC_CTX_NONE \<Rightarrow> (w, 0)
      | VLR_SEC_CTX_GSM \<Rightarrow> (lu_emit (LO_SET_CIPH_MODE False retrieve_imeisv) w, le_ciph_rc E)
      | VLR_SEC_CTX_UMTS \<Rightarrow> (lu_emit (LO_SET_CIPH_MODE True retrieve_imeisv) w, le_ciph_rc E))"

definition vlr_loc_upd_post_auth :: "'h lu_par \<Rightarrow> lu_env \<Rightarrow> 'h lu_world \<Rightarrow> 'h lu_world option" where
  "vlr_loc_upd_post_auth P E w = do {
     a \<leftarrow> lw_vsub w;
     s \<leftarrow> lsub_get a w;
     if \<not> is_cmc_smc_to_be_attempted w \<or> (vs_sec_ctx s = VLR_SEC_CTX_NONE \<and> \<not> lw_is_ciphering_required w)
     then vlr_loc_upd_post_ciph P E w
     else if vs_last_tuple s = None then lu_fsm_failure P GSM48_REJECT_NETWORK_FAILURE w
     else if vs_sec_ctx s = VLR_SEC_CTX_NONE then lu_fsm_failure P GSM48_REJECT_NETWORK_FAILURE w
     else (let (w1, rc) = vlr_set_ciph_mode E (vs_sec_ctx s) (lp_retrieve_imeisv_ciphered P) w in
           if rc \<noteq> 0 then lu_fsm_failure P GSM48_REJECT_NETWORK_FAILURE w1
           else lu_chg_long P VLR_ULA_S_WAIT_CIPH w1) }"

text \<open>The parent events that \<open>vlr_loc_upd_node1()\<close> gives to the authentication, as numbers of the enumeration.\<close>

definition lu_auth_event :: "nat \<Rightarrow> vlr_lu_event" where
  "lu_auth_event n = (if n = 3 then VLR_ULA_E_AUTH_SUCCESS else if n = 4 then VLR_ULA_E_AUTH_NO_INFO else VLR_ULA_E_AUTH_FAILURE)"

definition lu_fsm_wait_auth ::
    "'h lu_par \<Rightarrow> lu_env \<Rightarrow> vlr_lu_event \<Rightarrow> reject_value option \<Rightarrow> 'h lu_world \<Rightarrow> 'h lu_world option" where
  "lu_fsm_wait_auth P E ev data w =
     (let w1 = w\<lparr>lw_upd := None\<rparr>;
          cause = (case data of None \<Rightarrow> GSM48_REJECT_NETWORK_FAILURE | Some c \<Rightarrow> c)
      in case ev of
        VLR_ULA_E_AUTH_SUCCESS \<Rightarrow> vlr_loc_upd_post_auth P E w1
      | VLR_ULA_E_AUTH_FAILURE \<Rightarrow> lu_fsm_failure P cause w1
      | VLR_ULA_E_AUTH_NO_INFO \<Rightarrow>
          if lw_authentication_required w1 \<or> lw_is_ciphering_required w1 then lu_fsm_failure P cause w1
          else vlr_loc_upd_post_auth P E w1
      | _ \<Rightarrow> None)"

definition lu_auth_result :: "'h lu_par \<Rightarrow> lu_env \<Rightarrow> nat \<Rightarrow> reject_value option \<Rightarrow> 'h lu_world \<Rightarrow> 'h lu_world option" where
  "lu_auth_result P E n data w =
     (if lu_ev P (lu_auth_event n) w then lu_fsm_wait_auth P E (lu_auth_event n) data w else Some w)"

text \<open>
  What a call of the authentication machine leaves behind: the changed subscriber, its messages, and, when it ended,
  its event to this machine, with the data \<open>d\<close> that the library adds on a timeout.
\<close>

fun auth_parent_event :: "auth_out list \<Rightarrow> (nat \<times> reject_value option) option" where
  "auth_parent_event [] = None"
| "auth_parent_event (x # xs) = (case x of PARENT_TERM_EVENT n d \<Rightarrow> Some (n, d) | _ \<Rightarrow> auth_parent_event xs)"

definition lu_auth_back ::
    "'h lu_par \<Rightarrow> lu_env \<Rightarrow> reject_value option \<Rightarrow> auth_world \<Rightarrow> 'h lu_world \<Rightarrow> 'h lu_world option" where
  "lu_auth_back P E d aw w = do {
     a \<leftarrow> lw_vsub w;
     w1 \<leftarrow> lsub_upd a (\<lambda>_. aw_vsub aw) w;
     let w2 = w1\<lparr>lw_out := lw_out w1 @ map LO_AUTH (aw_out aw),
                 lw_auth := (if af_terminating (aw_fi aw) then None else Some (aw_fi aw))\<rparr>;
     (case auth_parent_event (aw_out aw) of
        None \<Rightarrow> Some w2
      | Some (n, data) \<Rightarrow> lu_auth_result P E n (if d \<noteq> None then d else data) w2) }"

definition try_auth :: "'h lu_par \<Rightarrow> 'h lu_world \<Rightarrow> ('h lu_world \<times> bool) option" where
  "try_auth P w = do {
     a \<leftarrow> lw_vsub w;
     s \<leftarrow> lsub_get a w;
     if lw_authentication_required w then Some (w, True)
     else if \<not> lw_is_ciphering_to_be_attempted w then Some (w, False)
     else do {
       let (s', reused) = auth_try_reuse_tuple (lp_cfg P) s (uint (lw_key_seq w));
       w1 \<leftarrow> lsub_upd a (\<lambda>_. s') w;
       Some (w1, \<not> reused) } }"

text \<open>
  The subscriber points to the authentication machine once \<open>auth_fsm_start()\<close> has returned it, also when it has
  ended by then.
\<close>

definition vlr_loc_upd_node1 :: "'h lu_par \<Rightarrow> lu_env \<Rightarrow> 'h lu_world \<Rightarrow> 'h lu_world option" where
  "vlr_loc_upd_node1 P E w = do {
     a \<leftarrow> lw_vsub w;
     (w1, auth) \<leftarrow> try_auth P w;
     if \<not> auth then vlr_loc_upd_post_auth P E w1
     else do {
       w2 \<leftarrow> lu_chg_long P VLR_ULA_S_WAIT_AUTH w1;
       s \<leftarrow> lsub_get a w2;
       (case auth_fsm_start (lp_auth P) (lp_cfg P) (le_auth_fi_ok E) (le_auth_priv_ok E) s 3 4 5 (lw_is_r99 w2) (lw_is_utran w2) of
          Inl _ \<Rightarrow> do {
            w3 \<leftarrow> lu_auth_result P E 5 None w2;
            lsub_upd a (\<lambda>s. s\<lparr>vs_auth_fsm := False\<rparr>) w3 }
        | Inr aw \<Rightarrow> do {
            w3 \<leftarrow> lu_auth_back P E None aw w2;
            lsub_upd a (\<lambda>s. s\<lparr>vs_auth_fsm := True\<rparr>) w3 }) } }"

text \<open>\<open>vlr_subscr_tx_req_check_imei()\<close> of \<open>vlr.c\<close>\<close>

definition vlr_subscr_tx_req_check_imei :: "'h lu_par \<Rightarrow> 'h lu_world \<Rightarrow> 'h lu_world option" where
  "vlr_subscr_tx_req_check_imei P w = do {
     a \<leftarrow> lw_vsub w;
     s \<leftarrow> lsub_get a w;
     Some (if lp_bcd_ok P (vs_imei s) then lu_emit (LO_TX_CHECK_IMEI (vs_imei s)) w else w) }"

definition vlr_loc_upd_node1_pre :: "'h lu_par \<Rightarrow> lu_env \<Rightarrow> 'h lu_world \<Rightarrow> 'h lu_world option" where
  "vlr_loc_upd_node1_pre P E w =
     (if lp_check_imei_rqd P \<and> lp_retrieve_imeisv_early P then do {
        w1 \<leftarrow> lu_chg_tdef P VLR_ULA_S_WAIT_HLR_CHECK_IMEI_EARLY w;
        vlr_subscr_tx_req_check_imei P w1 }
      else vlr_loc_upd_node1 P E w)"

definition vlr_loc_upd_want_imsi :: "'h lu_par \<Rightarrow> 'h lu_world \<Rightarrow> 'h lu_world option" where
  "vlr_loc_upd_want_imsi P w =
     (if lw_vsub w = None then None
      else map_option (lu_emit (LO_TX_ID_REQ GSM_MI_TYPE_IMSI)) (lu_chg_tdef P VLR_ULA_S_WAIT_IMSI w))"

subsection \<open>Association with a subscriber\<close>

text \<open>The result says whether the association succeeded; if not the machine has ended.\<close>

definition assoc_lfp_with_sub :: "'h lu_par \<Rightarrow> nat \<Rightarrow> 'h lu_world \<Rightarrow> ('h lu_world \<times> bool) option" where
  "assoc_lfp_with_sub P a w = do {
     s \<leftarrow> lsub_get a w;
     w1 \<leftarrow> (if vs_lu_fsm s then on_vlr (\<lambda>v. Some (v_emit (CALL_LU_CANCEL a GSM48_REJECT_CONGESTION) v)) w else Some w);
     w2 \<leftarrow> lsub_upd a (\<lambda>s. s\<lparr>vs_lu_fsm := True, vs_lai := (vs_lai s)\<lparr>lai_lac := lai_lac (lw_new_lai w)\<rparr>\<rparr>) w1;
     (m, rc) \<leftarrow> msc_vlr_subscr_assoc (lp_B P) (lw_msc_conn_ref w2) a (lw_msc w2);
     let w3 = w2\<lparr>lw_vsub := Some a, lw_msc := m\<rparr>;
     if rc \<noteq> 0 then do {
       w4 \<leftarrow> lsub_upd a (\<lambda>s. s\<lparr>vs_lu_fsm := False\<rparr>) w3;
       w5 \<leftarrow> lu_fsm_failure P GSM48_REJECT_NETWORK_FAILURE (w4\<lparr>lw_vsub := None\<rparr>);
       Some (w5, False) }
     else do {
       w4 \<leftarrow> lsub_upd a (\<lambda>s. s\<lparr>vs_msc_conn_ref := Some (lw_msc_conn_ref w)\<rparr>) w3;
       Some (w4, True) } }"

text \<open>
  The subscriber that the MS names, by TMSI or IMSI.  The address of a new subscriber is one that no other
  subscriber has; its record is zero, so no connection is associated with it.
\<close>

definition lu_find_vsub :: "'h lu_par \<Rightarrow> lu_env \<Rightarrow> string \<Rightarrow> 'h lu_world \<Rightarrow> ('h lu_world \<times> nat) option" where
  "lu_find_vsub P E use w = do {
     let V = le_sgs E;
     (v, a, created) \<leftarrow>
       (if lw_imsi w = [] then
          vlr_subscr_find_or_create_by_tmsi (lp_B P) (se_clock V) (le_new E) (lw_tmsi w) use (net_vlr (lw_net w))
        else
          vlr_subscr_find_or_create_by_imsi (lp_B P) (se_atoll V) (se_silent V) (se_inval V) (se_forget V) (se_clock V) (le_new E)
            (lw_imsi w) use (net_vlr (lw_net w)));
     w1 \<leftarrow> on_vlr (\<lambda>_. Some v) w;
     Some ((if created then w1\<lparr>lw_msc := (lw_msc w1)\<lparr>mw_msc_msub := (mw_msc_msub (lw_msc w1))(a := None)\<rparr>\<rparr> else w1), a) }"

definition lu_fsm_associate_vsub :: "'h lu_par \<Rightarrow> lu_env \<Rightarrow> 'h lu_world \<Rightarrow> ('h lu_world \<times> bool) option" where
  "lu_fsm_associate_vsub P E w = do {
     let w0 = (if lw_imsi w = [] then w\<lparr>lw_lu_by_tmsi := True\<rparr> else w);
     (w1, a) \<leftarrow> lu_find_vsub P E ''_lu_fsm_associate_vsub'' w0;
     w2 \<leftarrow> lsub_upd a (\<lambda>s. s\<lparr>vs_sub_dataconf := False\<rparr>) w1;
     (w3, ok) \<leftarrow> assoc_lfp_with_sub P a w2;
     w4 \<leftarrow> on_vlr (vlr_subscr_put (lp_B P) a ''_lu_fsm_associate_vsub'') w3;
     Some (w4, ok) }"

text \<open>\<open>lai_in_this_vlr()\<close> is always true, and the other case only logs.\<close>

definition start_lu_main :: "'h lu_par \<Rightarrow> lu_env \<Rightarrow> 'h lu_world \<Rightarrow> 'h lu_world option" where
  "start_lu_main P E w = do {
     a \<leftarrow> lw_vsub w;
     s \<leftarrow> lsub_get a w;
     if vs_imsi s = [] then vlr_loc_upd_want_imsi P w else vlr_loc_upd_node1_pre P E w }"

definition lu_fsm_idle :: "'h lu_par \<Rightarrow> lu_env \<Rightarrow> 'h lu_world \<Rightarrow> 'h lu_world option" where
  "lu_fsm_idle P E w = do {
     (w1, ok) \<leftarrow> lu_fsm_associate_vsub P E w;
     if \<not> ok then Some w1
     else do {
       a \<leftarrow> lw_vsub w1;
       w2 \<leftarrow> on_net (sgs_dispatch (lp_B P) (lp_sgs P) (le_sgs E) a SGS_UE_E_RX_LU_FROM_A_IU_GS False) w1;
       s \<leftarrow> lsub_get a w2;
       if \<not> lp_retrieve_imeisv_early P \<or> (lw_lu_type w2 = VLR_LU_TYPE_PERIODIC \<and> vs_imeisv s \<noteq> [])
       then start_lu_main P E w2
       else lu_chg_tdef P VLR_ULA_S_WAIT_IMEISV (lu_emit (LO_TX_ID_REQ GSM_MI_TYPE_IMEISV) w2) } }"

subsection \<open>Actions\<close>

text \<open>The events of the machine with their data, except those that its children send.\<close>

datatype lu_msg =
    LM_UPDATE_LA | LM_SEND_ID_ACK | LM_SEND_ID_NACK | LM_CIPH_RES "vlr_ciph_result_cause option" | LM_ID_IMSI string
  | LM_ID_IMEI | LM_ID_IMEISV | LM_HLR_IMEI_ACK | LM_HLR_IMEI_NACK | LM_HLR_LU_RES "reject_value option" | LM_NEW_TMSI_ACK

primrec lu_msg_event :: "lu_msg \<Rightarrow> vlr_lu_event" where
  "lu_msg_event LM_UPDATE_LA = VLR_ULA_E_UPDATE_LA"
| "lu_msg_event LM_SEND_ID_ACK = VLR_ULA_E_SEND_ID_ACK"
| "lu_msg_event LM_SEND_ID_NACK = VLR_ULA_E_SEND_ID_NACK"
| "lu_msg_event (LM_CIPH_RES r) = VLR_ULA_E_CIPH_RES"
| "lu_msg_event (LM_ID_IMSI s) = VLR_ULA_E_ID_IMSI"
| "lu_msg_event LM_ID_IMEI = VLR_ULA_E_ID_IMEI"
| "lu_msg_event LM_ID_IMEISV = VLR_ULA_E_ID_IMEISV"
| "lu_msg_event LM_HLR_IMEI_ACK = VLR_ULA_E_HLR_IMEI_ACK"
| "lu_msg_event LM_HLR_IMEI_NACK = VLR_ULA_E_HLR_IMEI_NACK"
| "lu_msg_event (LM_HLR_LU_RES c) = VLR_ULA_E_HLR_LU_RES"
| "lu_msg_event LM_NEW_TMSI_ACK = VLR_ULA_E_NEW_TMSI_ACK"

definition lu_fsm_wait_imeisv :: "'h lu_par \<Rightarrow> lu_env \<Rightarrow> lu_msg \<Rightarrow> 'h lu_world \<Rightarrow> 'h lu_world option" where
  "lu_fsm_wait_imeisv P E m w = (case m of LM_ID_IMEISV \<Rightarrow> start_lu_main P E w | _ \<Rightarrow> None)"

definition lu_fsm_wait_pvlr :: "'h lu_par \<Rightarrow> lu_env \<Rightarrow> lu_msg \<Rightarrow> 'h lu_world \<Rightarrow> 'h lu_world option" where
  "lu_fsm_wait_pvlr P E m w =
     (case m of
        LM_SEND_ID_ACK \<Rightarrow> vlr_loc_upd_node1_pre P E w
      | LM_SEND_ID_NACK \<Rightarrow> vlr_loc_upd_want_imsi P w
      | _ \<Rightarrow> None)"

definition lu_fsm_wait_ciph :: "'h lu_par \<Rightarrow> lu_env \<Rightarrow> lu_msg \<Rightarrow> 'h lu_world \<Rightarrow> 'h lu_world option" where
  "lu_fsm_wait_ciph P E m w =
     (case m of
        LM_CIPH_RES r \<Rightarrow>
          if r = Some VLR_CIPH_COMPL then vlr_loc_upd_post_ciph P E w
          else lu_fsm_failure P GSM48_REJECT_INVALID_MANDANTORY_INF w
      | _ \<Rightarrow> None)"

definition lu_fsm_wait_imsi :: "'h lu_par \<Rightarrow> lu_env \<Rightarrow> lu_msg \<Rightarrow> 'h lu_world \<Rightarrow> 'h lu_world option" where
  "lu_fsm_wait_imsi P E m w =
     (case m of
        LM_ID_IMSI imsi \<Rightarrow> do {
          a \<leftarrow> lw_vsub w;
          let V = le_sgs E;
          w1 \<leftarrow> on_vlr (vlr_subscr_set_imsi (lp_B P) (se_atoll V) (se_silent V) (se_inval V) (se_forget V) a imsi) w;
          vlr_loc_upd_node1_pre P E w1 }
      | _ \<Rightarrow> None)"

definition lu_fsm_wait_hlr_check_imei_early :: "'h lu_par \<Rightarrow> lu_env \<Rightarrow> lu_msg \<Rightarrow> 'h lu_world \<Rightarrow> 'h lu_world option" where
  "lu_fsm_wait_hlr_check_imei_early P E m w =
     (case m of
        LM_HLR_IMEI_ACK \<Rightarrow> vlr_loc_upd_node1 P E w
      | LM_HLR_IMEI_NACK \<Rightarrow> lu_fsm_failure P GSM48_REJECT_ILLEGAL_ME w
      | _ \<Rightarrow> None)"

text \<open>The events \<open>VLR_ULA_E_UPD_HLR_COMPL\<close> and those of the end of the completion are defined above.\<close>

definition lu_fsm_wait_hlr_ul_res :: "'h lu_par \<Rightarrow> lu_env \<Rightarrow> lu_msg \<Rightarrow> 'h lu_world \<Rightarrow> 'h lu_world option" where
  "lu_fsm_wait_hlr_ul_res P E m w =
     (case m of
        LM_HLR_LU_RES data \<Rightarrow> do {
          a \<leftarrow> lw_vsub w;
          (case data of
             None \<Rightarrow> upd_dispatch P E a UPD_HLR_VLR_E_UPD_LOC_ACK None w
           | Some c \<Rightarrow> upd_dispatch P E a UPD_HLR_VLR_E_UPD_LOC_NACK (Some c) w) }
      | LM_ID_IMEI \<Rightarrow> Some w
      | LM_ID_IMEISV \<Rightarrow> Some w
      | _ \<Rightarrow> None)"

definition lu_fsm_wait_lu_compl :: "'h lu_par \<Rightarrow> lu_env \<Rightarrow> lu_msg \<Rightarrow> 'h lu_world \<Rightarrow> 'h lu_world option" where
  "lu_fsm_wait_lu_compl P E m w =
     (case m of
        LM_NEW_TMSI_ACK \<Rightarrow> compl_dispatch P E LU_COMPL_VLR_E_NEW_TMSI_ACK w
      | LM_ID_IMEI \<Rightarrow> vlr_subscr_tx_req_check_imei P w
      | LM_ID_IMEISV \<Rightarrow> vlr_subscr_tx_req_check_imei P w
      | LM_HLR_IMEI_ACK \<Rightarrow> compl_dispatch P E LU_COMPL_VLR_E_IMEI_CHECK_ACK w
      | LM_HLR_IMEI_NACK \<Rightarrow> compl_dispatch P E LU_COMPL_VLR_E_IMEI_CHECK_NACK w
      | _ \<Rightarrow> None)"

definition lu_fsm_wait_lu_compl_standalone :: "'h lu_par \<Rightarrow> lu_env \<Rightarrow> lu_msg \<Rightarrow> 'h lu_world \<Rightarrow> 'h lu_world option" where
  "lu_fsm_wait_lu_compl_standalone P E m w =
     (case m of LM_NEW_TMSI_ACK \<Rightarrow> compl_dispatch P E LU_COMPL_VLR_E_NEW_TMSI_ACK w | _ \<Rightarrow> None)"

definition lu_dispatch :: "'h lu_par \<Rightarrow> lu_env \<Rightarrow> lu_msg \<Rightarrow> 'h lu_world \<Rightarrow> 'h lu_world option" where
  "lu_dispatch P E m w =
     (if \<not> lu_ev P (lu_msg_event m) w then Some w
      else (case lw_state w of
         VLR_ULA_S_IDLE \<Rightarrow> if m = LM_UPDATE_LA then lu_fsm_idle P E w else None
       | VLR_ULA_S_WAIT_IMEISV \<Rightarrow> lu_fsm_wait_imeisv P E m w
       | VLR_ULA_S_WAIT_PVLR \<Rightarrow> lu_fsm_wait_pvlr P E m w
       | VLR_ULA_S_WAIT_AUTH \<Rightarrow> None
       | VLR_ULA_S_WAIT_CIPH \<Rightarrow> lu_fsm_wait_ciph P E m w
       | VLR_ULA_S_WAIT_IMSI \<Rightarrow> lu_fsm_wait_imsi P E m w
       | VLR_ULA_S_WAIT_HLR_CHECK_IMEI_EARLY \<Rightarrow> lu_fsm_wait_hlr_check_imei_early P E m w
       | VLR_ULA_S_WAIT_HLR_UPD \<Rightarrow> lu_fsm_wait_hlr_ul_res P E m w
       | VLR_ULA_S_WAIT_LU_COMPL \<Rightarrow> lu_fsm_wait_lu_compl P E m w
       | VLR_ULA_S_WAIT_LU_COMPL_STANDALONE \<Rightarrow> lu_fsm_wait_lu_compl_standalone P E m w
       | VLR_ULA_S_DONE \<Rightarrow> Some w))"

text \<open>\<open>fsm_lu_timer_cb()\<close> with the termination by the library after it returned 1.\<close>

definition fsm_lu_timer_cb :: "'h lu_par \<Rightarrow> lu_env \<Rightarrow> 'h lu_world \<Rightarrow> 'h lu_world option" where
  "fsm_lu_timer_cb P E w =
     (if lw_timer w = NO_TIMER then Some w
      else if \<not> cfg_is_ps (lp_cfg P) then lu_inst_term P w
      else if lw_N w + 1 \<ge> 5 then
        (let cause = (if lw_state w = VLR_ULA_S_WAIT_IMSI \<or> lw_state w = VLR_ULA_S_WAIT_CIPH
                      then GSM48_REJECT_MS_IDENTITY_NOT_DERVIVABLE else GSM48_REJECT_NETWORK_FAILURE)
         in lu_inst_term P (lu_emit (LO_TX_LU_REJ cause (lw_lu_type w)) (w\<lparr>lw_N := lw_N w + 1\<rparr>)))
      else (let w1 = w\<lparr>lw_N := lw_N w + 1\<rparr> in
        if lw_state w = VLR_ULA_S_WAIT_CIPH then do {
          a \<leftarrow> lw_vsub w;
          s \<leftarrow> lsub_get a w;
          let (w2, rc) = vlr_set_ciph_mode E (vs_sec_ctx s) (lp_retrieve_imeisv_ciphered P) w1;
          if rc \<noteq> 0 then lu_fsm_failure P GSM48_REJECT_NETWORK_FAILURE w2 else Some w2 }
        else if lw_state w = VLR_ULA_S_WAIT_IMSI then Some (lu_emit (LO_TX_ID_REQ GSM_MI_TYPE_IMSI) w1)
        else Some w1))"

definition vlr_loc_update_cancel :: "'h lu_par \<Rightarrow> reject_value \<Rightarrow> 'h lu_world \<Rightarrow> 'h lu_world option" where
  "vlr_loc_update_cancel P cause w =
     (let w1 = w\<lparr>lw_rej_cause := cause\<rparr>
      in if lw_state w1 \<noteq> VLR_ULA_S_DONE then lu_fsm_failure P cause w1 else Some w1)"

subsection \<open>Messages of the HLR\<close>

record osmo_gsup_pdp_info =
  gp_context_id :: nat
  gp_pdp_type_org :: nat
  gp_pdp_type_nr :: nat
  gp_pdp_address :: "8 word list list"
  gp_apn_enc :: "8 word list"
  gp_qos_enc :: "8 word list"

text \<open>The fields that \<open>vlr_subscr_gsup_insert_data()\<close> reads; \<open>gs_hlr\<close> is \<open>None\<close> for NULL.\<close>

record osmo_gsup_message =
  gs_msisdn :: "8 word list"
  gs_hlr :: "8 word list option"
  gs_pdp_info_compl :: bool
  gs_pdp_infos :: "osmo_gsup_pdp_info list"

abbreviation (input) GSM_APN_LENGTH :: nat where "GSM_APN_LENGTH \<equiv> 102"

definition vlr_subscr_pdp_data_alloc :: "nat \<Rightarrow> pdp_data" where
  "vlr_subscr_pdp_data_alloc i =
     \<lparr>pdp_context_id = i, pdp_type_org = 0, pdp_type_nr = 0, pdp_address = [], pdp_apn_str = [], pdp_qos = []\<rparr>"

definition pdp_data_fill :: "'h lu_par \<Rightarrow> osmo_gsup_pdp_info \<Rightarrow> pdp_data \<Rightarrow> pdp_data" where
  "pdp_data_fill P g p =
     p\<lparr>pdp_type_org := gp_pdp_type_org g, pdp_type_nr := gp_pdp_type_nr g, pdp_address := gp_pdp_address g,
       pdp_apn_str := lp_apn_str P (pdp_apn_str p) (gp_apn_enc g), pdp_qos := gp_qos_enc g\<rparr>"

text \<open>The first entry with the number is replaced in place, a new one is appended.\<close>

fun pdp_data_set :: "(pdp_data \<Rightarrow> pdp_data) \<Rightarrow> nat \<Rightarrow> pdp_data list \<Rightarrow> pdp_data list" where
  "pdp_data_set f i [] = [f (vlr_subscr_pdp_data_alloc i)]"
| "pdp_data_set f i (p # ps) = (if pdp_context_id p = i then f p # ps else p # pdp_data_set f i ps)"

definition pdp_info_insert :: "'h lu_par \<Rightarrow> osmo_gsup_pdp_info \<Rightarrow> pdp_data list \<Rightarrow> pdp_data list" where
  "pdp_info_insert P g ps =
     (if length (gp_apn_enc g) \<ge> GSM_APN_LENGTH - 1 then ps
      else if length (gp_qos_enc g) > 20 then ps
      else pdp_data_set (pdp_data_fill P g) (gp_context_id g) ps)"

definition vlr_subscr_gsup_insert_data :: "'h lu_par \<Rightarrow> osmo_gsup_message \<Rightarrow> vlr_subscr \<Rightarrow> vlr_subscr" where
  "vlr_subscr_gsup_insert_data P g s =
     s\<lparr>vs_msisdn := (if gs_msisdn g \<noteq> [] then lp_bcd P (vs_msisdn s) (gs_msisdn g) else vs_msisdn s),
       vs_hlr := (case gs_hlr g of None \<Rightarrow> vs_hlr s | Some h \<Rightarrow> if length h > 16 then [] else h),
       vs_pdp_list := fold (pdp_info_insert P) (gs_pdp_infos g) (if gs_pdp_info_compl g then [] else vs_pdp_list s)\<rparr>"

text \<open>The response callback of the SGs interface, which is called when an SGs location update is in progress.\<close>

definition sgs_lu_respond :: "'h lu_par \<Rightarrow> lu_env \<Rightarrow> nat \<Rightarrow> bool \<Rightarrow> reject_value \<Rightarrow> 'h lu_world \<Rightarrow> 'h lu_world option" where
  "sgs_lu_respond P E a accepted cause w = do {
     s \<leftarrow> lsub_get a w;
     if \<not> vs_sgs_cbs s then None
     else on_net (sgs_tx_loc_upd_resp_cb (lp_B P) (lp_sgs P) (le_sgs E) a accepted False cause) w }"

definition vlr_subscr_handle_lu_res :: "'h lu_par \<Rightarrow> lu_env \<Rightarrow> osmo_gsup_message \<Rightarrow> 'h lu_world \<Rightarrow> 'h lu_world option" where
  "vlr_subscr_handle_lu_res P E g w = do {
     a \<leftarrow> lw_vsub w;
     s \<leftarrow> lsub_get a w;
     if \<not> vs_lu_fsm s \<and> vs_sgs_state s \<noteq> SGS_UE_ST_LA_UPD_PRES then Some w
     else do {
       w1 \<leftarrow> lsub_upd a (vlr_subscr_gsup_insert_data P g) w;
       if vs_sgs_state s = SGS_UE_ST_LA_UPD_PRES then sgs_lu_respond P E a True (GSM48_REJECT_OTHER 0) w1
       else lu_dispatch P E (LM_HLR_LU_RES None) w1 } }"

text \<open>
  The GMM cause of the HLR is read as a reject cause by the machine; the two enumerations give a cause the same number.
\<close>

definition gmm_cause_as_reject :: "gmm_cause \<Rightarrow> reject_value" where
  "gmm_cause_as_reject c = (case c of GMM_CAUSE_OTHER n \<Rightarrow> GSM48_REJECT_OTHER n | _ \<Rightarrow> vlr_gmm_cause_to_reject_cause c)"

definition vlr_subscr_handle_lu_err :: "'h lu_par \<Rightarrow> lu_env \<Rightarrow> gmm_cause \<Rightarrow> 'h lu_world \<Rightarrow> 'h lu_world option" where
  "vlr_subscr_handle_lu_err P E cause w = do {
     a \<leftarrow> lw_vsub w;
     s \<leftarrow> lsub_get a w;
     if vs_sgs_state s = SGS_UE_ST_LA_UPD_PRES then
       sgs_lu_respond P E a False (vlr_gmm_cause_to_reject_cause_domain cause True) w
     else if \<not> vs_lu_fsm s then Some w
     else lu_dispatch P E (LM_HLR_LU_RES (Some (gmm_cause_as_reject cause))) w }"

text \<open>\<open>result\<close>: the message is a result and acknowledges the IMEI.\<close>

definition vlr_subscr_handle_check_imei :: "'h lu_par \<Rightarrow> lu_env \<Rightarrow> bool \<Rightarrow> 'h lu_world \<Rightarrow> 'h lu_world option" where
  "vlr_subscr_handle_check_imei P E result w = do {
     a \<leftarrow> lw_vsub w;
     s \<leftarrow> lsub_get a w;
     if \<not> vs_lu_fsm s then Some w
     else lu_dispatch P E (if result then LM_HLR_IMEI_ACK else LM_HLR_IMEI_NACK) w }"

subsection \<open>Messages of the MS\<close>

text \<open>An event for the authentication machine of this location update; without one it goes to NULL.\<close>

definition lu_auth_step :: "'h lu_par \<Rightarrow> lu_env \<Rightarrow> auth_input \<Rightarrow> 'h lu_world \<Rightarrow> 'h lu_world option" where
  "lu_auth_step P E i w =
     (case lw_auth w of
        None \<Rightarrow> Some w
      | Some fi \<Rightarrow> do {
          a \<leftarrow> lw_vsub w;
          s \<leftarrow> lsub_get a w;
          aw \<leftarrow> auth_step (lp_auth P, lp_cfg P) \<lparr>aw_vsub = s, aw_fi = fi, aw_out = []\<rparr> i;
          lu_auth_back P E (if i = AI_TIMEOUT then lp_timeout P (fsm_T (af_timer fi)) else None) aw w })"

definition vlr_subscr_rx_auth_resp :: "'h lu_par \<Rightarrow> lu_env \<Rightarrow> auth_resp_par \<Rightarrow> 'h lu_world \<Rightarrow> 'h lu_world option" where
  "vlr_subscr_rx_auth_resp P E par = lu_auth_step P E (AI_MSG (AM_AUTH_RESP par))"

definition vlr_subscr_rx_auth_fail :: "'h lu_par \<Rightarrow> lu_env \<Rightarrow> 8 word list option \<Rightarrow> 'h lu_world \<Rightarrow> 'h lu_world option" where
  "vlr_subscr_rx_auth_fail P E auts = lu_auth_step P E (AI_MSG (AM_AUTH_FAIL auts))"

text \<open>The vectors of a result, or the cause of an error.\<close>

definition vlr_subscr_handle_sai_res ::
    "'h lu_par \<Rightarrow> lu_env \<Rightarrow> auth_vector list + gmm_cause \<Rightarrow> 'h lu_world \<Rightarrow> 'h lu_world option" where
  "vlr_subscr_handle_sai_res P E r =
     lu_auth_step P E (AI_MSG (case r of Inl vecs \<Rightarrow> AM_SAI_ACK vecs | Inr c \<Rightarrow> AM_SAI_NACK c))"

definition vlr_subscr_rx_id_resp :: "'h lu_par \<Rightarrow> lu_env \<Rightarrow> mi_type \<Rightarrow> string \<Rightarrow> 'h lu_world \<Rightarrow> 'h lu_world option" where
  "vlr_subscr_rx_id_resp P E ty mi w = do {
     a \<leftarrow> lw_vsub w;
     s \<leftarrow> lsub_get a w;
     let V = le_sgs E;
     w1 \<leftarrow> (case ty of
              GSM_MI_TYPE_IMSI \<Rightarrow>
                if vs_imsi s \<noteq> [] \<and> \<not> vlr_subscr_matches_imsi s mi then Some w
                else on_vlr (vlr_subscr_set_imsi (lp_B P) (se_atoll V) (se_silent V) (se_inval V) (se_forget V) a mi) w
            | GSM_MI_TYPE_IMEI \<Rightarrow> on_vlr (vlr_subscr_set_imei a mi) w
            | GSM_MI_TYPE_IMEISV \<Rightarrow> on_vlr (vlr_subscr_set_imeisv a mi) w);
     s1 \<leftarrow> lsub_get a w1;
     if lw_auth w1 \<noteq> None \<and> ty = GSM_MI_TYPE_IMSI then lu_auth_step P E (AI_MSG (AM_ID_IMSI mi)) w1
     else if \<not> vs_lu_fsm s1 then Some w1
     else lu_dispatch P E (case ty of GSM_MI_TYPE_IMSI \<Rightarrow> LM_ID_IMSI mi | GSM_MI_TYPE_IMEI \<Rightarrow> LM_ID_IMEI
                           | GSM_MI_TYPE_IMEISV \<Rightarrow> LM_ID_IMEISV) w1 }"

text \<open>
  \<open>vlr_subscr_rx_tmsi_reall_compl()\<close> and \<open>vlr_subscr_rx_rau_complete()\<close>, while the subscriber has a location update.
\<close>

definition vlr_subscr_rx_tmsi_reall_compl :: "'h lu_par \<Rightarrow> lu_env \<Rightarrow> 'h lu_world \<Rightarrow> 'h lu_world option" where
  "vlr_subscr_rx_tmsi_reall_compl P E w = do {
     a \<leftarrow> lw_vsub w;
     s \<leftarrow> lsub_get a w;
     if vs_lu_fsm s then lu_dispatch P E LM_NEW_TMSI_ACK w else Some w }"

definition vlr_subscr_rx_ciph_res :: "'h lu_par \<Rightarrow> lu_env \<Rightarrow> vlr_ciph_result_cause \<Rightarrow> 'h lu_world \<Rightarrow> 'h lu_world option" where
  "vlr_subscr_rx_ciph_res P E r w =
     (case lw_vsub w of
        None \<Rightarrow> Some w
      | Some a \<Rightarrow> do {
          s \<leftarrow> lsub_get a w;
          if vs_lu_fsm s \<and> lw_state w = VLR_ULA_S_WAIT_CIPH then lu_dispatch P E (LM_CIPH_RES (Some r)) w else Some w })"

definition vlr_subscr_disconnected :: "'h lu_par \<Rightarrow> 'h lu_world \<Rightarrow> 'h lu_world option" where
  "vlr_subscr_disconnected P w = do {
     a \<leftarrow> lw_vsub w;
     s \<leftarrow> lsub_get a w;
     w1 \<leftarrow> (if vs_lu_fsm s then lu_inst_term P w else Some w);
     lsub_upd a (\<lambda>s. s\<lparr>vs_msc_conn_ref := None\<rparr>) w1 }"

subsection \<open>A location update from its start\<close>

text \<open>The arguments of \<open>vlr_loc_update()\<close>; \<open>lr_imsi\<close> is \<open>None\<close> for NULL.\<close>

record lu_req =
  lr_event_success :: nat
  lr_event_failure :: nat
  lr_msc_conn_ref :: nat
  lr_type :: vlr_lu_type
  lr_tmsi :: "32 word"
  lr_imsi :: "string option"
  lr_new_lai :: location_area_id
  lr_authentication_required :: bool
  lr_is_ciphering_to_be_attempted :: bool
  lr_is_ciphering_required :: bool
  lr_key_seq :: "8 word"
  lr_is_r99 :: bool
  lr_is_utran :: bool
  lr_assign_tmsi :: bool

definition vlr_loc_update_alloc :: "lu_req \<Rightarrow> 'h msc_world \<Rightarrow> 'h lu_world option" where
  "vlr_loc_update_alloc r m =
     (if lr_is_ciphering_required r \<and> \<not> lr_is_ciphering_to_be_attempted r then None
      else Some
       \<lparr>lw_msc = m, lw_state = VLR_ULA_S_IDLE, lw_timer = NO_TIMER, lw_terminating = False,
        lw_parent_term_event = lr_event_failure r, lw_vsub = None, lw_msc_conn_ref = lr_msc_conn_ref r,
        lw_event_success = lr_event_success r, lw_event_failure = lr_event_failure r, lw_result = VLR_FSM_RESULT_NONE,
        lw_rej_cause = GSM48_REJECT_OTHER 0, lw_lu_type = lr_type r, lw_lu_by_tmsi = (lr_imsi r = None),
        lw_imsi = (case lr_imsi r of None \<Rightarrow> [] | Some i \<Rightarrow> strlcpy IMSI_SIZE i), lw_tmsi = lr_tmsi r, lw_new_lai = lr_new_lai r,
        lw_authentication_required = lr_authentication_required r,
        lw_is_ciphering_to_be_attempted = lr_is_ciphering_to_be_attempted r,
        lw_is_ciphering_required = lr_is_ciphering_required r, lw_key_seq = lr_key_seq r, lw_is_r99 = lr_is_r99 r,
        lw_is_utran = lr_is_utran r, lw_assign_tmsi = lr_assign_tmsi r, lw_N = 0, lw_auth = None, lw_upd = None,
        lw_compl = None, lw_pres = None, lw_out = []\<rparr>)"

definition vlr_loc_update :: "'h lu_par \<Rightarrow> lu_env \<Rightarrow> lu_req \<Rightarrow> 'h msc_world \<Rightarrow> 'h lu_world option" where
  "vlr_loc_update P E r m = do {
     w \<leftarrow> vlr_loc_update_alloc r m;
     lu_dispatch P E LM_UPDATE_LA w }"

text \<open>
  What can happen to a location update in progress: a call of one of the functions above, its cancellation, or the
  expiry of the timer of one of the machines.  When the machine has ended, \<open>lu_fsm\<close> of the subscriber is NULL and
  nothing reaches it any more.
\<close>

datatype lu_input =
    LI_ID_RESP mi_type string | LI_TMSI_REALL_COMPL | LI_CIPH_RES vlr_ciph_result_cause | LI_AUTH_RESP auth_resp_par
  | LI_AUTH_FAIL "8 word list option" | LI_SAI_RES "auth_vector list + gmm_cause" | LI_LU_RES osmo_gsup_message
  | LI_LU_ERR gmm_cause | LI_CHECK_IMEI bool | LI_READY_SM sub_pres_vlr_event | LI_DISCONNECTED | LI_CANCEL reject_value
  | LI_TIMEOUT | LI_TIMEOUT_AUTH | LI_TIMEOUT_UPD | LI_TIMEOUT_COMPL | LI_TIMEOUT_PRES

definition lu_step :: "'h lu_par \<Rightarrow> 'h lu_world \<Rightarrow> lu_env \<times> lu_input \<Rightarrow> 'h lu_world option" where
  "lu_step P w i =
     (let E = fst i in
      if lw_terminating w then Some w
      else (case snd i of
         LI_ID_RESP ty mi \<Rightarrow> vlr_subscr_rx_id_resp P E ty mi w
       | LI_TMSI_REALL_COMPL \<Rightarrow> vlr_subscr_rx_tmsi_reall_compl P E w
       | LI_CIPH_RES r \<Rightarrow> vlr_subscr_rx_ciph_res P E r w
       | LI_AUTH_RESP par \<Rightarrow> vlr_subscr_rx_auth_resp P E par w
       | LI_AUTH_FAIL auts \<Rightarrow> vlr_subscr_rx_auth_fail P E auts w
       | LI_SAI_RES r \<Rightarrow> vlr_subscr_handle_sai_res P E r w
       | LI_LU_RES g \<Rightarrow> vlr_subscr_handle_lu_res P E g w
       | LI_LU_ERR c \<Rightarrow> vlr_subscr_handle_lu_err P E c w
       | LI_CHECK_IMEI ok \<Rightarrow> vlr_subscr_handle_check_imei P E ok w
       | LI_READY_SM ev \<Rightarrow> (case lw_vsub w of None \<Rightarrow> Some w | Some a \<Rightarrow> pres_dispatch P E a ev w)
       | LI_DISCONNECTED \<Rightarrow> vlr_subscr_disconnected P w
       | LI_CANCEL c \<Rightarrow> vlr_loc_update_cancel P c w
       | LI_TIMEOUT \<Rightarrow> fsm_lu_timer_cb P E w
       | LI_TIMEOUT_AUTH \<Rightarrow> lu_auth_step P E AI_TIMEOUT w
       | LI_TIMEOUT_UPD \<Rightarrow> upd_hlr_vlr_timeout P E w
       | LI_TIMEOUT_COMPL \<Rightarrow> lu_compl_vlr_timeout P w
       | LI_TIMEOUT_PRES \<Rightarrow> sub_pres_vlr_timeout P E w))"

definition lu_run :: "'h lu_par \<Rightarrow> lu_env \<Rightarrow> lu_req \<Rightarrow> 'h msc_world \<Rightarrow> (lu_env \<times> lu_input) list \<Rightarrow> 'h lu_world option" where
  "lu_run P E r m is = do {
     w \<leftarrow> vlr_loc_update P E r m;
     fsm_run (lu_step P) w is }"

end
