(* ===== verification/Spec2Isabelle.thy ===== *)
theory Spec2Isabelle
  imports Media_Filter Sdp_Text Vlr_Auth_Safe Vlr_Store_Life Transaction_Inv Vlr_Sgs_Inv Vlr_Lu
begin

text \<open>A verification development of osmo-msc.\<close>

end
